(* ===== verification/Spark_Prelude.thy ===== *)
theory Spark_Prelude
  imports Complex_Main "HOL-Library.Word" "HOL-Library.Monad_Syntax"
begin

text \<open>
  Shared vocabulary of the development: machine integers of the C++ code as words, the two
  proof collections (\<open>spark_defs\<close> for definitions that are always safe to unfold, \<open>mem_simps\<close>
  for the memory model), byte order helpers, and the memory model itself.

  A C++ buffer is a list of bytes.  Reading or writing outside a buffer is undefined behaviour
  in C++; \<open>mem_get\<close>, \<open>mem_read\<close> and \<open>mem_write\<close> return \<open>None\<close> there, so that a theorem
  saying a routine returns \<open>Some\<close> is a memory-safety theorem.
\<close>

unbundle bit_operations_syntax

named_theorems spark_defs
named_theorems mem_simps

type_synonym u8 = "8 word"
type_synonym u16 = "16 word"
type_synonym u32 = "32 word"
type_synonym u64 = "64 word"
type_synonym bytes = "u8 list"

section \<open>Big-endian integers on the wire\<close>

definition be16 :: "u16 \<Rightarrow> bytes" where
  "be16 v = [ucast (drop_bit 8 v), ucast v]"

definition be32 :: "u32 \<Rightarrow> bytes" where
  "be32 v = [ucast (drop_bit 24 v), ucast (drop_bit 16 v), ucast (drop_bit 8 v), ucast v]"

definition rd16 :: "u8 \<Rightarrow> u8 \<Rightarrow> u16" where
  "rd16 a b = push_bit 8 (ucast a) OR ucast b"

definition rd32 :: "u8 \<Rightarrow> u8 \<Rightarrow> u8 \<Rightarrow> u8 \<Rightarrow> u32" where
  "rd32 a b c d = push_bit 24 (ucast a) OR push_bit 16 (ucast b) OR push_bit 8 (ucast c) OR ucast d"

lemma length_be16 [simp]: "length (be16 v) = 2"
  by (simp add: be16_def)

lemma length_be32 [simp]: "length (be32 v) = 4"
  by (simp add: be32_def)

lemma rd16_be16 [simp]: "rd16 (ucast (drop_bit 8 v)) (ucast v) = v"
  unfolding rd16_def by (rule bit_word_eqI) (auto simp: bit_simps)

lemma rd16_be16_nth [simp]: "rd16 (be16 v ! 0) (be16 v ! Suc 0) = v"
  by (simp add: be16_def)

lemma rd32_be32 [simp]:
  "rd32 (ucast (drop_bit 24 v)) (ucast (drop_bit 16 v)) (ucast (drop_bit 8 v)) (ucast v) = v"
proof (unfold rd32_def, rule bit_word_eqI)
  fix n assume n: "n < LENGTH(32)"
  consider "n < 8" | "8 \<le> n" "n < 16" | "16 \<le> n" "n < 24" | "24 \<le> n" by linarith
  then show "bit (push_bit 24 (ucast (ucast (drop_bit 24 v) :: u8) :: u32) OR
      push_bit 16 (ucast (ucast (drop_bit 16 v) :: u8)) OR
      push_bit 8 (ucast (ucast (drop_bit 8 v) :: u8)) OR ucast (ucast v :: u8)) n = bit v n"
    by cases (use n in \<open>auto simp: bit_simps\<close>)
qed

lemma rd32_be32_nth [simp]: "rd32 (be32 v ! 0) (be32 v ! Suc 0) (be32 v ! 2) (be32 v ! 3) = v"
  by (simp add: be32_def)

section \<open>The memory model\<close>

definition mem_get :: "'a list \<Rightarrow> nat \<Rightarrow> 'a option" where
  "mem_get b i = (if i < length b then Some (b ! i) else None)"

definition mem_read :: "'a list \<Rightarrow> nat \<Rightarrow> nat \<Rightarrow> 'a list option" where
  "mem_read b off n = (if off + n \<le> length b then Some (take n (drop off b)) else None)"

definition mem_write :: "'a list \<Rightarrow> nat \<Rightarrow> 'a list \<Rightarrow> 'a list option" where
  "mem_write b off xs =
     (if off + length xs \<le> length b then Some (take off b @ xs @ drop (off + length xs) b) else None)"

lemma mem_get_Some [mem_simps]: "i < length b \<Longrightarrow> mem_get b i = Some (b ! i)"
  by (simp add: mem_get_def)

lemma mem_get_Some_iff: "mem_get b i = Some x \<longleftrightarrow> i < length b \<and> b ! i = x"
  by (auto simp: mem_get_def)

lemma mem_read_Some [mem_simps]:
  "off + n \<le> length b \<Longrightarrow> mem_read b off n = Some (take n (drop off b))"
  by (simp add: mem_read_def)

lemma length_mem_read: "mem_read b off n = Some xs \<Longrightarrow> length xs = n"
  by (auto simp: mem_read_def split: if_splits)

lemma length_mem_write: "mem_write b off xs = Some b' \<Longrightarrow> length b' = length b"
  by (auto simp: mem_write_def split: if_splits)

lemma mem_write_nth:
  "mem_write b off xs = Some b' \<Longrightarrow> i < length b \<Longrightarrow>
   b' ! i = (if off \<le> i \<and> i < off + length xs then xs ! (i - off) else b ! i)"
  by (auto simp: mem_write_def nth_append min_def split: if_splits)

lemma mem_write_Some_ex: "off + length xs \<le> length b \<Longrightarrow> \<exists>b'. mem_write b off xs = Some b'"
  by (simp add: mem_write_def)

text \<open>A run of stores, in program order, through pointers at the given offsets.\<close>

fun mem_stores :: "'a list \<Rightarrow> (nat \<times> 'a list) list \<Rightarrow> 'a list option" where
  "mem_stores b [] = Some b"
| "mem_stores b ((off, xs) # ws) = (case mem_write b off xs of None \<Rightarrow> None | Some b' \<Rightarrow> mem_stores b' ws)"

fun contiguous :: "nat \<Rightarrow> (nat \<times> 'a list) list \<Rightarrow> bool" where
  "contiguous off [] \<longleftrightarrow> True"
| "contiguous off ((o', xs) # ws) \<longleftrightarrow> o' = off \<and> contiguous (off + length xs) ws"

lemma mem_write_append:
  "length pre = off \<Longrightarrow> length mid = length xs \<Longrightarrow>
   mem_write (pre @ mid @ post) off xs = Some (pre @ xs @ post)"
  by (simp add: mem_write_def)

lemma mem_stores_contiguous:
  "contiguous off ws \<Longrightarrow> off + length (concat (map snd ws)) \<le> length b \<Longrightarrow>
   mem_stores b ws = Some (take off b @ concat (map snd ws) @ drop (off + length (concat (map snd ws))) b)"
proof (induction ws arbitrary: off b)
  case (Cons w ws)
  obtain o' xs where w: "w = (o', xs)" by (cases w)
  let ?b = "take off b @ xs @ drop (off + length xs) b"
  have "mem_stores b (w # ws) = mem_stores ?b ws"
    using Cons.prems by (simp add: w mem_write_def)
  also have "\<dots> = Some (take (off + length xs) ?b @ concat (map snd ws) @
      drop (off + length xs + length (concat (map snd ws))) ?b)"
    using Cons.prems by (intro Cons.IH) (simp_all add: w)
  also have "\<dots> = Some (take off b @ (xs @ concat (map snd ws)) @
      drop (off + length xs + length (concat (map snd ws))) b)"
    using Cons.prems by (cases xs) (auto simp: w min_def add.commute add.left_commute)
  finally show ?case by (simp add: w add.assoc)
qed simp

section \<open>Words and naturals\<close>

lemma unat_u16_less [simp]: "unat (w :: u16) < 65536"
  using unsigned_less [of w, where ?'a = nat] by simp

lemma unat_u32_less [simp]: "unat (w :: u32) < 4294967296"
  using unsigned_less [of w, where ?'a = nat] by simp

lemma unat_u64_less [simp]: "unat (w :: u64) < 18446744073709551616"
  using unsigned_less [of w, where ?'a = nat] by simp

lemma unat_u32_le [simp]: "unat (w :: u32) \<le> 4294967295"
  using unat_u32_less [of w] by linarith

lemma unat_add_noov: "unat (a :: 'a::len word) + unat b < 2 ^ LENGTH('a) \<Longrightarrow> unat (a + b) = unat a + unat b"
  by (simp only: unat_add_lem [symmetric])

lemma unat_mult_noov: "unat (a :: 'a::len word) * unat b < 2 ^ LENGTH('a) \<Longrightarrow> unat (a * b) = unat a * unat b"
  by (simp only: unat_mult_lem [symmetric])

lemma unat_sub_noov: "(b :: 'a::len word) \<le> a \<Longrightarrow> unat (a - b) = unat a - unat b"
  by (simp add: unat_sub_if' word_le_nat_alt)

lemma div_mult_bounds:
  fixes a b :: nat
  assumes "0 < b"
  shows "a div b * b \<le> a" "a < a div b * b + b"
  using assms div_mult_mod_eq [of a b] mod_less_divisor [of b a] by linarith+

lemma unat_ucast_up: "LENGTH('a::len) \<le> LENGTH('b::len) \<Longrightarrow> unat (ucast (w :: 'a word) :: 'b word) = unat w"
  by (simp add: unsigned_ucast_eq take_bit_nat_eq_self unsigned_less less_le_trans
      [OF unsigned_less [of w, where ?'a = nat] power_increasing])

lemma unat_ucast_mod: "unat (ucast (w :: 'a::len word) :: 'b::len word) = unat w mod 2 ^ LENGTH('b)"
  by (simp add: unsigned_ucast_eq take_bit_eq_mod)

lemma unat_drop_bit: "unat (drop_bit n (w :: 'a::len word)) = unat w div 2 ^ n"
proof -
  have "unat (drop_bit n w) = drop_bit n (take_bit LENGTH('a) (unat w))"
    by (rule unsigned_drop_bit_eq)
  also have "\<dots> = drop_bit n (unat w)"
    by (simp only: take_bit_nat_eq_self unsigned_less)
  finally show ?thesis by (simp only: drop_bit_eq_div)
qed

lemma unat_and_mask: "unat (w AND mask n :: 'a::len word) = unat w mod 2 ^ n"
proof -
  have "unat (w AND mask n) = take_bit n (unat w)"
    by (simp only: take_bit_eq_mask [symmetric] unsigned_take_bit_eq)
  then show ?thesis by (simp only: take_bit_eq_mod)
qed

lemma sint_word_of_int_u32:
  "- (2 ^ 31) \<le> k \<Longrightarrow> k < 2 ^ 31 \<Longrightarrow> sint (word_of_int k :: u32) = k"
  by (simp add: signed_of_int signed_take_bit_int_eq_self)

lemma sint_small_u32: "unat (w :: u32) < 2 ^ 31 \<Longrightarrow> sint w = int (unat w)"
proof -
  assume "unat w < 2 ^ 31"
  then have "int (unat w) < int (2 ^ 31)" by (simp only: of_nat_less_iff)
  then have "uint w < 2 ^ 31" by simp
  moreover have "- (2 ^ 31) \<le> uint w" by (rule order_trans [OF _ uint_nonnegative]) simp
  ultimately show ?thesis using sint_word_of_int_u32 [of "uint w"] by simp
qed

lemma upt_append: "i \<le> j \<Longrightarrow> j \<le> k \<Longrightarrow> [i..<j] @ [j..<k] = [i..<k]"
  by (metis le_add_diff_inverse upt_add_eq_append)

end
