(* ===== verification/Rtp_Time.thy ===== *)
theory Rtp_Time
  imports Spark_Prelude
begin

text \<open>
  RTP media clock arithmetic: \<open>engine/operators/common/rtp_time.hpp\<close> and \<open>rtp_timestamp_90k\<close>
  of \<open>engine/operators/st2110_tx/rtp_st2110.hpp\<close>.  The \<open>unsigned __int128\<close> intermediates are
  128-bit words, the truncating casts are \<open>ucast\<close> and the sign change of \<open>int32_t\<close> is \<open>scast\<close>.
  A rate of 0 is a division by zero in C++ (undefined); the properties assume a positive rate.
\<close>

section \<open>The functions\<close>

definition rtp_ticks_abs :: "u64 \<Rightarrow> u32 \<Rightarrow> u64" where
  "rtp_ticks_abs ns rate_hz = ucast ((ucast ns * ucast rate_hz :: 128 word) div 1000000000)"

definition rtp_unwrap_back :: "u32 \<Rightarrow> u64 \<Rightarrow> u32" where
  "rtp_unwrap_back rtp_ts near_ticks = ucast near_ticks - rtp_ts"

definition rtp_unwrap_ticks :: "u32 \<Rightarrow> u64 \<Rightarrow> u64" where
  "rtp_unwrap_ticks rtp_ts near_ticks = near_ticks - scast (rtp_unwrap_back rtp_ts near_ticks)"

definition rtp_unwrap_ns :: "u32 \<Rightarrow> u32 \<Rightarrow> u64 \<Rightarrow> u64" where
  "rtp_unwrap_ns rtp_ts rate_hz near_ns =
     (let near_ticks = rtp_ticks_abs near_ns rate_hz;
          ticks = rtp_unwrap_ticks rtp_ts near_ticks
      in ucast ((ucast ticks * 1000000000 :: 128 word) div ucast rate_hz))"

definition rtp_restamp_delta :: "u32 \<Rightarrow> u32 \<Rightarrow> u64 \<Rightarrow> u32" where
  "rtp_restamp_delta rtp_ts rate_hz ref_ns = ucast (rtp_ticks_abs ref_ns rate_hz) - rtp_ts"

definition rtp_timestamp_90k :: "u64 \<Rightarrow> u32" where
  "rtp_timestamp_90k ns =
     (let whole = (ns div 1000000000) * 90000;
          frac = (ns mod 1000000000) * 90000 div 1000000000
      in ucast (whole + frac))"

section \<open>Reading the words as numbers\<close>

lemma unat_rtp_ticks_abs_mod:
  "unat (rtp_ticks_abs ns r) = (unat ns * unat r div 1000000000) mod 2 ^ 64"
proof -
  have "unat ns * unat r < 2 ^ 64 * 2 ^ 32"
    using mult_strict_mono [of "unat ns" "2 ^ 64" "unat r" "2 ^ 32"] by simp
  then have "unat (ucast ns * ucast r :: 128 word) = unat ns * unat r"
    by (subst unat_mult_noov) (simp_all add: unat_ucast_up)
  then show ?thesis
    by (simp add: rtp_ticks_abs_def unat_ucast_mod unat_div)
qed

lemma unat_rtp_ticks_abs:
  assumes "unat r \<le> 1000000000"
  shows "unat (rtp_ticks_abs ns r) = unat ns * unat r div 1000000000"
proof -
  have "unat ns * unat r div 1000000000 \<le> unat ns * 1000000000 div 1000000000"
    using assms by (intro div_le_mono mult_le_mono) simp_all
  then have "unat ns * unat r div 1000000000 < 2 ^ 64"
    using unat_u64_less [of ns] by (simp add: le_less_trans)
  then show ?thesis
    by (simp only: unat_rtp_ticks_abs_mod mod_less)
qed

lemma rtp_ticks_abs_mono:
  "unat r \<le> 1000000000 \<Longrightarrow> a \<le> b \<Longrightarrow> rtp_ticks_abs a r \<le> rtp_ticks_abs b r"
  by (simp add: word_le_nat_alt unat_rtp_ticks_abs div_le_mono)

section \<open>Unwrapping\<close>

lemma ucast_scast_u32: "ucast (scast (w :: u32) :: u64) = w"
  by (rule bit_word_eqI) (auto simp: bit_simps)

lemma uint_ucast_u32: "uint (ucast (w :: u64) :: u32) = uint w mod 2 ^ 32"
  by (simp add: unsigned_ucast_eq take_bit_eq_mod)

lemma ucast_minus_u64: "(ucast (a - b :: u64) :: u32) = ucast a - ucast b"
proof -
  have "uint (ucast (a - b) :: u32) = (uint a - uint b) mod 2 ^ 64 mod 2 ^ 32"
    by (simp only: uint_ucast_u32 uint_word_ariths) simp
  also have "\<dots> = (uint a - uint b) mod 2 ^ 32"
    by (rule mod_mod_cancel) simp
  also have "\<dots> = uint (ucast a - ucast b :: u32)"
    by (simp only: uint_word_ariths uint_ucast_u32) (simp add: mod_diff_eq)
  finally show ?thesis by (simp only: word_uint_eq_iff)
qed

lemma rtp_unwrap_ticks_congruent: "ucast (rtp_unwrap_ticks ts near) = ts"
proof -
  have "(ucast (rtp_unwrap_ticks ts near) :: u32) = ucast near - ucast (scast (ucast near - ts) :: u64)"
    by (simp add: rtp_unwrap_ticks_def rtp_unwrap_back_def ucast_minus_u64)
  then show ?thesis
    by (simp add: ucast_scast_u32)
qed

lemma scast_ucast_diff:
  fixes N T :: u64
  assumes "\<bar>uint N - uint T\<bar> < 2 ^ 31"
  shows "(scast (ucast N - ucast T :: u32) :: u64) = N - T"
proof -
  have "(ucast N - ucast T :: u32) = word_of_int (uint N) - word_of_int (uint T)"
    by (simp only: ucast_eq)
  then have "(ucast N - ucast T :: u32) = word_of_int (uint N - uint T)"
    by (simp only: of_int_diff)
  moreover have "sint (word_of_int (uint N - uint T) :: u32) = uint N - uint T"
    using assms by (intro sint_word_of_int_u32) simp_all
  ultimately have "(scast (ucast N - ucast T :: u32) :: u64) = word_of_int (uint N - uint T)"
    by (simp add: scast_eq)
  then show ?thesis by (simp only: of_int_diff word_of_int_uint)
qed

lemma rtp_unwrap_ticks_exact:
  "\<bar>uint N - uint T\<bar> < 2 ^ 31 \<Longrightarrow> rtp_unwrap_ticks (ucast T) N = T"
  by (simp add: rtp_unwrap_ticks_def rtp_unwrap_back_def scast_ucast_diff)

lemma rtp_unwrap_ns_exact:
  assumes "0 < unat r" "unat r \<le> 1000000000"
    and "\<bar>int (unat near * unat r div 1000000000) - int (unat t * unat r div 1000000000)\<bar> < 2 ^ 31"
  shows "unat (rtp_unwrap_ns (ucast (rtp_ticks_abs t r)) r near) =
    (unat t * unat r div 1000000000) * 1000000000 div unat r"
proof -
  let ?T = "unat t * unat r div 1000000000"
  have "\<bar>uint (rtp_ticks_abs near r) - uint (rtp_ticks_abs t r)\<bar> < 2 ^ 31"
    using assms by (simp add: uint_nat unat_rtp_ticks_abs)
  then have ticks: "rtp_unwrap_ticks (ucast (rtp_ticks_abs t r)) (rtp_ticks_abs near r) = rtp_ticks_abs t r"
    by (rule rtp_unwrap_ticks_exact)
  have prod: "unat (ucast (rtp_ticks_abs t r) * 1000000000 :: 128 word) = ?T * 1000000000"
    using unat_u64_less [of "rtp_ticks_abs t r"]
    by (subst unat_mult_noov) (simp_all add: unat_ucast_up unat_rtp_ticks_abs assms)
  have "?T * 1000000000 div unat r \<le> unat t"
    using assms(1) by (metis div_mult_self_is_m div_le_mono div_times_less_eq_dividend)
  then have "?T * 1000000000 div unat r < 2 ^ 64"
    using unat_u64_less [of t] by (simp add: le_less_trans)
  moreover have "unat (ucast r :: 128 word) = unat r"
    by (rule unat_ucast_up) simp
  ultimately show ?thesis
    by (simp add: rtp_unwrap_ns_def Let_def ticks unat_ucast_mod [where 'a = 128] unat_div prod)
qed

section \<open>Properties\<close>

lemma tick_floor_bounds:
  fixes t r :: nat
  assumes "0 < r"
  defines "u \<equiv> (t * r div 1000000000) * 1000000000 div r"
  shows "u \<le> t" "(t - u) * r < 1000000000 + r"
proof -
  let ?k = "t * r div 1000000000 * 1000000000"
  have k: "?k \<le> t * r" "t * r < ?k + 1000000000"
    using div_mult_bounds [of 1000000000 "t * r"] by simp_all
  have u: "u * r \<le> ?k" "?k < u * r + r"
    unfolding u_def by (rule div_mult_bounds [OF assms(1)])+
  have "u * r \<le> t * r" using k u by linarith
  then show "u \<le> t" using assms by simp
  have "t * r - u * r < 1000000000 + r" using k u by linarith
  then show "(t - u) * r < 1000000000 + r" by (simp add: diff_mult_distrib)
qed

text \<open>C24 - Unwrapping a 32-bit RTP timestamp against any reference instant on the sender's clock
  that lies within half the 32-bit tick range of the capture recovers the capture instant: the
  result is never later than the capture and earlier by less than one tick (plus the final
  nanosecond truncation).\<close>
theorem rtp_unwrap_recovers_capture:
  assumes "0 < unat rate" "unat rate \<le> 1000000000"
    and "\<bar>int (unat (rtp_ticks_abs near rate)) - int (unat (rtp_ticks_abs t rate))\<bar> < 2 ^ 31"
  shows "rtp_unwrap_ns (ucast (rtp_ticks_abs t rate)) rate near \<le> t \<and>
    (unat t - unat (rtp_unwrap_ns (ucast (rtp_ticks_abs t rate)) rate near)) * unat rate
      < 1000000000 + unat rate"
proof -
  have "unat (rtp_unwrap_ns (ucast (rtp_ticks_abs t rate)) rate near) =
      (unat t * unat rate div 1000000000) * 1000000000 div unat rate"
    using assms by (intro rtp_unwrap_ns_exact) (simp_all add: unat_rtp_ticks_abs)
  with tick_floor_bounds [OF assms(1), of "unat t"] show ?thesis
    by (simp add: word_le_nat_alt)
qed

theorem rtp_unwrap_recovers_capture_witness:
  "rtp_unwrap_ns (ucast (rtp_ticks_abs 1790000000000000000 90000)) 90000 1790000000016683333
     \<le> 1790000000000000000"
  using rtp_unwrap_recovers_capture [of 90000 1790000000016683333 1790000000000000000]
  by (simp add: unat_rtp_ticks_abs)

text \<open>C25 - A sender whose stamps are off the PTP epoch is moved onto the reference: adding the
  latched delta to the stamp it was latched from makes it unwrap, at the reference instant, to that
  instant less than one tick back; and the delta keeps the sender's cadence, since two corrected
  stamps differ by exactly what the original ones do.\<close>
theorem rtp_restamp_lands_on_reference:
  fixes ts ts' :: u32 and ref :: u64
  assumes "0 < unat rate" "unat rate \<le> 1000000000"
  defines "d \<equiv> rtp_restamp_delta ts rate ref"
  shows "rtp_unwrap_ns (ts + d) rate ref \<le> ref \<and>
    (unat ref - unat (rtp_unwrap_ns (ts + d) rate ref)) * unat rate < 1000000000 + unat rate \<and>
    (ts' + d) - (ts + d) = ts' - ts"
proof -
  have "ts + d = ucast (rtp_ticks_abs ref rate)"
    by (simp add: d_def rtp_restamp_delta_def)
  with tick_floor_bounds [OF assms(1), of "unat ref"] rtp_unwrap_ns_exact [OF assms(1,2), of ref ref]
  have "rtp_unwrap_ns (ts + d) rate ref \<le> ref \<and>
    (unat ref - unat (rtp_unwrap_ns (ts + d) rate ref)) * unat rate < 1000000000 + unat rate"
    by (simp add: word_le_nat_alt)
  then show ?thesis by simp
qed

theorem rtp_restamp_lands_on_reference_witness:
  "rtp_unwrap_ns (7 + rtp_restamp_delta 7 48000 1790000000000000000) 48000 1790000000000000000
     \<le> 1790000000000000000"
  using rtp_restamp_lands_on_reference [of 48000 7 1790000000000000000 9] by simp

text \<open>C26 - The overflow-free split of \<open>rtp_timestamp_90k\<close> into seconds and sub-seconds computes
  the low 32 bits of the 128-bit tick count, for every 64-bit time.\<close>
theorem rtp_timestamp_90k_is_ticks: "rtp_timestamp_90k ns = ucast (rtp_ticks_abs ns 90000)"
proof -
  let ?n = "unat ns"
  have w: "unat (ns div 1000000000 * 90000) = ?n div 1000000000 * 90000"
    using div_le_mono [of ?n "2 ^ 64" 1000000000] unat_u64_less [of ns]
    by (subst unat_mult_noov) (simp_all add: unat_div)
  have f: "unat (ns mod 1000000000 * 90000) = ?n mod 1000000000 * 90000"
    using mod_less_divisor [of 1000000000 ?n] by (subst unat_mult_noov) (simp_all add: unat_mod)
  have "?n div 1000000000 \<le> 18446744073" "?n mod 1000000000 * 90000 div 1000000000 \<le> 90000"
    using unat_u64_less [of ns] mod_less_divisor [of 1000000000 ?n] by linarith+
  then have lt: "unat (ns div 1000000000 * 90000) + unat (ns mod 1000000000 * 90000 div 1000000000)
      < 2 ^ LENGTH(64)"
    by (simp add: w f unat_div)
  have "unat (ns div 1000000000 * 90000 + ns mod 1000000000 * 90000 div 1000000000)
      = ?n div 1000000000 * 90000 + ?n mod 1000000000 * 90000 div 1000000000"
    by (simp only: unat_add_noov [OF lt] w f unat_div) simp
  also have "\<dots> = (?n div 1000000000 * 1000000000 + ?n mod 1000000000) * 90000 div 1000000000"
    by (simp only: distrib_right mult.assoc mult.commute [of 1000000000] div_mult_self3)
  also have "\<dots> = unat (rtp_ticks_abs ns 90000)"
    by (simp add: unat_rtp_ticks_abs)
  finally have "ns div 1000000000 * 90000 + ns mod 1000000000 * 90000 div 1000000000
      = rtp_ticks_abs ns 90000"
    by (simp only: word_unat_eq_iff)
  then show ?thesis by (simp add: rtp_timestamp_90k_def Let_def)
qed

end
