(* ===== verification/Ieee_Double.thy ===== *)
theory Ieee_Double
  imports Spark_Prelude
begin

text \<open>
  The floating-point arithmetic the program uses for rates, ratios and phases: every operation is the
  exact rational result rounded to the significand, ties to even (IEEE 754).  \<open>dbl\<close> rounds to the 53
  bits of binary64 (\<open>double\<close>), \<open>flt\<close> to the 24 of binary32 (\<open>float\<close>); \<open>round_sig p\<close> is the rounding to
  \<open>p + 1\<close> bits.  The exponent range is not modelled: the program's values (rates, milliseconds,
  nanoseconds since the epoch, phases) lie between 1e-20 and 1e20, inside it.  The normalisation loop takes fuel
  1100, enough for every exponent of binary64; \<open>sig_norm_done\<close> shows that it suffices for the values
  here.
\<close>

definition rne :: "rat \<Rightarrow> int" where
  "rne q = (let f = \<lfloor>q\<rfloor>; d = q - of_int f in
     if d < 1 / 2 then f else if d > 1 / 2 then f + 1 else if even f then f else f + 1)"

fun sig_norm :: "nat \<Rightarrow> nat \<Rightarrow> rat \<Rightarrow> rat \<Rightarrow> rat \<times> rat" where
  "sig_norm p 0 m s = (m, s)"
| "sig_norm p (Suc n) m s =
     (if m < 2 ^ p then sig_norm p n (m * 2) (s / 2)
      else if m \<ge> 2 * 2 ^ p then sig_norm p n (m / 2) (s * 2) else (m, s))"

definition round_sig :: "nat \<Rightarrow> rat \<Rightarrow> rat" where
  "round_sig p x = (if x = 0 then 0 else
     (let (m, s) = sig_norm p 1100 \<bar>x\<bar> 1 in (if x < 0 then -1 else 1) * (of_int (rne m) * s)))"

definition dbl :: "rat \<Rightarrow> rat" where "dbl = round_sig 52"

definition flt :: "rat \<Rightarrow> rat" where "flt = round_sig 23"

text \<open>\<open>static_cast\<close> of a non-negative double to an unsigned integer: truncation.\<close>

definition trunc_nat :: "rat \<Rightarrow> nat" where "trunc_nat x = nat \<lfloor>x\<rfloor>"

text \<open>With its domain: the conversion to \<open>n\<close> bits is defined where the truncated value fits.\<close>

definition to_unsigned :: "nat \<Rightarrow> rat \<Rightarrow> nat option" where
  "to_unsigned n x = (if -1 < x \<and> x < 2 ^ n then Some (trunc_nat x) else None)"

section \<open>Rounding to an integer\<close>

lemma rne_error: "\<bar>of_int (rne q) - q\<bar> \<le> 1 / 2"
proof -
  define d where "d = q - of_int \<lfloor>q\<rfloor>"
  have d: "0 \<le> d" "d < 1" using floor_correct [of q] by (simp_all add: d_def)
  have q: "q = of_int \<lfloor>q\<rfloor> + d" by (simp add: d_def)
  have "rne q = \<lfloor>q\<rfloor> \<and> d \<le> 1 / 2 \<or> rne q = \<lfloor>q\<rfloor> + 1 \<and> 1 / 2 \<le> d"
    unfolding rne_def Let_def d_def [symmetric] by (simp; linarith)
  then show ?thesis using d by (subst (2) q) (auto simp: abs_if)
qed

lemma rne_of_int [simp]: "rne (of_int k) = k"
  by (simp add: rne_def Let_def)

lemma rne_mono:
  assumes "a \<le> b"
  shows "rne a \<le> rne b"
proof (cases "\<lfloor>a\<rfloor> = \<lfloor>b\<rfloor>")
  case True
  then show ?thesis using assms by (auto simp: rne_def Let_def)
next
  case False
  have "rne a \<le> \<lfloor>a\<rfloor> + 1" "\<lfloor>b\<rfloor> \<le> rne b" by (auto simp: rne_def Let_def)
  moreover have "\<lfloor>a\<rfloor> < \<lfloor>b\<rfloor>" using False floor_mono [OF assms] by simp
  ultimately show ?thesis by linarith
qed

section \<open>Normalisation\<close>

lemma sig_norm_value: "sig_norm p n m s = (m', s') \<Longrightarrow> m' * s' = m * s"
  by (induction p n m s rule: sig_norm.induct) (auto split: if_splits simp: field_simps)

lemma sig_norm_scale: "sig_norm p n m s = (m', s') \<Longrightarrow> \<exists>i. s' = s * 2 powi i"
proof (induction p n m s rule: sig_norm.induct)
  case (1 p m s)
  then show ?case by (auto intro: exI [of _ 0])
next
  case (2 p n m s)
  consider "m < 2 ^ p" | "\<not> m < 2 ^ p" "2 * 2 ^ p \<le> m" | "\<not> m < 2 ^ p" "\<not> 2 * 2 ^ p \<le> m" by blast
  then show ?case
  proof cases
    case 1
    then obtain i where "s' = s / 2 * 2 powi i" using 2 by auto
    then have "s' = s * 2 powi (i - 1)" by (simp add: power_int_diff)
    then show ?thesis ..
  next
    case c: 2
    then obtain i where "s' = s * 2 * 2 powi i" using 2 by auto
    then have "s' = s * 2 powi (i + 1)" by (simp add: power_int_add)
    then show ?thesis ..
  next
    case 3
    then have "s' = s * 2 powi 0" using 2 by simp
    then show ?thesis ..
  qed
qed

lemma sig_norm_up:
  "0 < m \<Longrightarrow> m < 2 * 2 ^ p \<Longrightarrow> 2 ^ p \<le> m * 2 ^ n \<Longrightarrow>
   2 ^ p \<le> fst (sig_norm p n m s) \<and> fst (sig_norm p n m s) < 2 * 2 ^ p"
  by (induction p n m s rule: sig_norm.induct) (auto simp: mult.commute mult.left_commute)

lemma sig_norm_down:
  "2 ^ p \<le> m \<Longrightarrow> m < 2 * 2 ^ p * 2 ^ n \<Longrightarrow>
   2 ^ p \<le> fst (sig_norm p n m s) \<and> fst (sig_norm p n m s) < 2 * 2 ^ p"
  by (induction p n m s rule: sig_norm.induct) (auto simp: field_simps)

lemma sig_norm_done:
  assumes "1 / 2 ^ 1000 \<le> m" "m \<le> 2 ^ 1000" "p \<le> 100"
  shows "2 ^ p \<le> fst (sig_norm p 1100 m s) \<and> fst (sig_norm p 1100 m s) < 2 * 2 ^ p"
proof (cases "m < 2 ^ p")
  case True
  have "(2 :: rat) ^ p \<le> 2 ^ 100" using assms(3) by (rule power_increasing) simp
  also have "\<dots> \<le> 1 / 2 ^ 1000 * 2 ^ 1100" by (simp add: field_simps)
  also have "\<dots> \<le> m * 2 ^ 1100" using assms(1) by (rule mult_right_mono) simp
  finally show ?thesis using True assms(1)
    by (intro sig_norm_up) (auto intro: less_le_trans [of 0 "1 / 2 ^ 1000"])
next
  case False
  have "(1 :: rat) \<le> 2 ^ p" by (rule one_le_power) simp
  then have p1: "(1 :: rat) \<le> 2 * 2 ^ p" by linarith
  have "m < 2 ^ 1100"
    using assms(2) by (rule le_less_trans) (simp add: power_strict_increasing)
  also have "(2 :: rat) ^ 1100 \<le> 2 * 2 ^ p * 2 ^ 1100" using p1 by simp
  finally show ?thesis using False by (intro sig_norm_down) simp_all
qed

section \<open>The rounding\<close>

definition in_range :: "rat \<Rightarrow> bool" where
  "in_range x \<longleftrightarrow> 1 / 2 ^ 1000 \<le> x \<and> x \<le> 2 ^ 1000"

lemma in_range_pos: "in_range x \<Longrightarrow> 0 < x"
  unfolding in_range_def by (auto intro: less_le_trans [of 0 "1 / 2 ^ 1000"])

lemma round_sig_rep:
  assumes "in_range x" "p \<le> 100"
  obtains m i where "x = m * 2 powi i" "2 ^ p \<le> m" "m < 2 * 2 ^ p" "round_sig p x = of_int (rne m) * 2 powi i"
proof -
  have pos: "0 < x" using assms(1) by (rule in_range_pos)
  obtain m s where n: "sig_norm p 1100 x 1 = (m, s)" by (metis surj_pair)
  obtain i where i: "s = 2 powi i" using sig_norm_scale [OF n] by auto
  have b: "2 ^ p \<le> m" "m < 2 * 2 ^ p" using sig_norm_done [of x p 1] assms n by (auto simp: in_range_def)
  have v: "x = m * 2 powi i" using sig_norm_value [OF n] i by simp
  have "round_sig p x = of_int (rne m) * 2 powi i" using pos n i by (simp add: round_sig_def)
  with v b show thesis by (rule that)
qed

lemma rne_bounds: "2 ^ p \<le> m \<Longrightarrow> m < 2 * 2 ^ p \<Longrightarrow> 2 ^ p \<le> rne m \<and> rne m \<le> 2 * 2 ^ p"
  using rne_mono [of "of_int (2 ^ p)" m] rne_mono [of m "of_int (2 * 2 ^ p)"] by (simp only: rne_of_int) simp

lemma round_sig_0 [simp]: "round_sig p 0 = 0"
  by (simp add: round_sig_def)

lemma powi_pos: "0 < (2 :: rat) powi i"
  by (simp add: zero_less_power_int)

lemma powi_step: "i < j \<Longrightarrow> 2 * (2 :: rat) powi i \<le> 2 powi j"
proof -
  assume "i < j"
  then have "(2 :: rat) powi (i + 1) \<le> 2 powi j" by (intro power_int_increasing) simp_all
  then show ?thesis by (simp add: power_int_add)
qed

lemma round_sig_pos:
  assumes "in_range x" "p \<le> 100"
  shows "0 < round_sig p x"
proof -
  obtain m i where r: "2 ^ p \<le> m" "m < 2 * 2 ^ p" "round_sig p x = of_int (rne m) * 2 powi i"
    by (rule round_sig_rep [OF assms]) (rule that)
  have "0 < rne m" using rne_bounds [OF r(1,2)] by (auto intro: less_le_trans [of 0 "2 ^ p"])
  then show ?thesis using r(3) powi_pos by simp
qed

lemma round_sig_mono:
  assumes "in_range x" "in_range y" "x \<le> y" "p \<le> 100"
  shows "round_sig p x \<le> round_sig p y"
proof -
  obtain m i where x: "x = m * 2 powi i" "2 ^ p \<le> m" "m < 2 * 2 ^ p" "round_sig p x = of_int (rne m) * 2 powi i"
    by (rule round_sig_rep [OF assms(1,4)]) (rule that)
  obtain k j where y: "y = k * 2 powi j" "2 ^ p \<le> k" "k < 2 * 2 ^ p" "round_sig p y = of_int (rne k) * 2 powi j"
    by (rule round_sig_rep [OF assms(2,4)]) (rule that)
  note mb = rne_bounds [OF x(2,3)] and kb = rne_bounds [OF y(2,3)]
  consider "i = j" | "i < j" | "j < i" by linarith
  then show ?thesis
  proof cases
    case 1
    then have "m \<le> k" using assms(3) x(1) y(1) powi_pos [of j] by simp
    then have "rne m \<le> rne k" by (rule rne_mono)
    then show ?thesis using x(4) y(4) 1 powi_pos [of j] by simp
  next
    case 2
    have "round_sig p x \<le> of_int (2 * 2 ^ p) * 2 powi i"
      unfolding x(4) using mb powi_pos [of i] by (intro mult_right_mono) (simp_all only: of_int_le_iff less_imp_le)
    also have "\<dots> = 2 ^ p * (2 * 2 powi i)" by simp
    also have "\<dots> \<le> 2 ^ p * 2 powi j" using powi_step [OF 2] by (intro mult_left_mono) simp_all
    also have "\<dots> = of_int (2 ^ p) * 2 powi j" by simp
    also have "\<dots> \<le> round_sig p y"
      unfolding y(4) using kb powi_pos [of j] by (intro mult_right_mono) (simp_all only: of_int_le_iff less_imp_le)
    finally show ?thesis .
  next
    case 3
    have "y < 2 * 2 ^ p * 2 powi j" unfolding y(1) using y(3) powi_pos [of j] by simp
    also have "\<dots> = 2 ^ p * (2 * 2 powi j)" by simp
    also have "\<dots> \<le> 2 ^ p * 2 powi i" using powi_step [OF 3] by (intro mult_left_mono) simp_all
    also have "\<dots> \<le> x" unfolding x(1) using x(2) powi_pos [of i] by (intro mult_right_mono) simp_all
    finally show ?thesis using assms(3) by simp
  qed
qed

text \<open>Integers of at most \<open>p + 1\<close> bits are exact.\<close>

lemma round_sig_int:
  assumes "0 < k" "k \<le> 2 * 2 ^ p" "p \<le> 100"
  shows "round_sig p (of_int k) = of_int k"
proof -
  have "(of_int k :: rat) \<le> of_int (2 * 2 ^ p)" using assms(2) by (simp only: of_int_le_iff)
  also have "\<dots> \<le> 2 * 2 ^ 100" using power_increasing [OF assms(3), of "2 :: rat"] by simp
  also have "\<dots> \<le> 2 ^ 1000" by simp
  finally have hi: "(of_int k :: rat) \<le> 2 ^ 1000" .
  have "(1 :: rat) / 2 ^ 1000 \<le> 1" by simp
  also have "\<dots> \<le> of_int k" using assms(1) by simp
  finally have "in_range (of_int k)" using hi by (simp add: in_range_def)
  then obtain m i where r: "of_int k = m * 2 powi i" "2 ^ p \<le> m" "round_sig p (of_int k) = of_int (rne m) * 2 powi i"
    by (rule round_sig_rep [OF _ assms(3)]) (rule that)
  have "\<exists>z. m = of_int z"
  proof (cases "i \<le> 0")
    case True
    have "(2 :: rat) powi i * 2 powi (- i) = 1" by (simp flip: power_int_add)
    then have "m = of_int k * 2 powi (- i)" unfolding r(1) by (simp add: mult.assoc)
    also have "(2 :: rat) powi (- i) = of_int (2 ^ nat (- i))" using True by (simp add: power_int_def)
    finally have "m = of_int (k * 2 ^ nat (- i))" by simp
    then show ?thesis ..
  next
    case False
    then have "2 \<le> (2 :: rat) powi i" using powi_step [of 0 i] by simp
    then have "m * 2 \<le> of_int k" unfolding r(1) using r(2) by (intro mult_left_mono) (auto intro: order_trans [of 0 "2 ^ p"])
    also have "(of_int k :: rat) \<le> of_int (2 * 2 ^ p)" using assms(2) by (simp only: of_int_le_iff)
    finally have "m = of_int (2 ^ p)" using r(2) by simp
    then show ?thesis ..
  qed
  then show ?thesis using r(1,3) by auto
qed

lemma round_sig_1 [simp]: "p \<le> 100 \<Longrightarrow> round_sig p 1 = 1"
  using round_sig_int [of 1 p] one_le_power [of "2 :: int" p] by (simp add: order_trans [of 1 "2 ^ p"])

lemma round_sig_le_1: "in_range x \<Longrightarrow> x \<le> 1 \<Longrightarrow> p \<le> 100 \<Longrightarrow> round_sig p x \<le> 1"
  using round_sig_mono [of x 1 p] by (simp add: in_range_def)

lemma round_sig_error:
  assumes "in_range x" "p \<le> 100"
  shows "\<bar>round_sig p x - x\<bar> \<le> x / (2 * 2 ^ p)"
proof -
  obtain m i where r: "x = m * 2 powi i" "2 ^ p \<le> m" "round_sig p x = of_int (rne m) * 2 powi i"
    by (rule round_sig_rep [OF assms]) (rule that)
  have "\<bar>round_sig p x - x\<bar> = \<bar>of_int (rne m) - m\<bar> * 2 powi i"
  proof -
    have "round_sig p x - x = (of_int (rne m) - m) * 2 powi i" unfolding r(3) by (simp only: left_diff_distrib flip: r(1))
    then show ?thesis using powi_pos [of i] by (simp add: abs_mult)
  qed
  also have "\<dots> \<le> 1 / 2 * 2 powi i"
    using rne_error [of m] powi_pos [of i] by (intro mult_right_mono) simp_all
  also have "\<dots> \<le> (m / 2 ^ p) / 2 * 2 powi i"
    using r(2) powi_pos [of i] by (intro mult_right_mono) (simp_all add: field_simps)
  finally show ?thesis by (simp add: r(1))
qed

lemma dbl_error:
  assumes "1 / 2 ^ 1000 \<le> x" "x \<le> 2 ^ 1000"
  shows "\<bar>dbl x - x\<bar> \<le> x / 9007199254740992"
  using round_sig_error [of x 52] assms by (simp add: dbl_def in_range_def)

lemma dbl_0 [simp]: "dbl 0 = 0" "flt 0 = 0"
  by (simp_all add: dbl_def flt_def)

lemma dbl_of_nat: "n \<le> 9007199254740992 \<Longrightarrow> dbl (of_nat n) = of_nat n"
  using round_sig_int [of "int n" 52] by (cases "n = 0") (simp_all add: dbl_def)

end
