(* ===== verification/Bounded_Queue.thy ===== *)
theory Bounded_Queue
  imports Spark_Prelude
begin

text \<open>
  The contract of the program's bounded queues: the poll thread's frame queue, the audio bridge and
  the audio receive queue.  A client pushes (and is told whether there was room) and pops.  The laws
  are what each provider promises; from them every history of calls is first-in first-out, loses
  nothing it accepted, and never exceeds the capacity.
\<close>

datatype 'a qop = Push 'a | Pop

locale bounded_queue =
  fixes items :: "'s \<Rightarrow> 'a list"
    and push :: "'a \<Rightarrow> 's \<Rightarrow> bool \<times> 's"
    and pop :: "'s \<Rightarrow> 'a option \<times> 's"
    and cap :: "'s \<Rightarrow> nat"
  assumes push_accepts: "length (items s) < cap s \<Longrightarrow>
      fst (push x s) \<and> items (snd (push x s)) = items s @ [x]"
    and push_rejects: "cap s \<le> length (items s) \<Longrightarrow>
      \<not> fst (push x s) \<and> items (snd (push x s)) = items s"
    and pop_empty: "items s = [] \<Longrightarrow> fst (pop s) = None \<and> items (snd (pop s)) = []"
    and pop_cons: "items s = x # xs \<Longrightarrow> fst (pop s) = Some x \<and> items (snd (pop s)) = xs"
    and cap_push: "cap (snd (push x s)) = cap s"
    and cap_pop: "cap (snd (pop s)) = cap s"
begin

fun run :: "'a qop list \<Rightarrow> 's \<Rightarrow> 'a list \<times> 'a list \<times> 's" where
  "run [] s = ([], [], s)"
| "run (Push x # ops) s =
     (let (ok, s1) = push x s; (acc, out, s2) = run ops s1
      in ((if ok then x # acc else acc), out, s2))"
| "run (Pop # ops) s =
     (let (r, s1) = pop s; (acc, out, s2) = run ops s1
      in (acc, (case r of None \<Rightarrow> out | Some x \<Rightarrow> x # out), s2))"

lemma push_fifo: "items (snd (push x s)) = items s @ (if fst (push x s) then [x] else [])"
  using push_accepts [of s x] push_rejects [of s x] by (cases "length (items s) < cap s") auto

lemma pop_fifo:
  "items s = (case fst (pop s) of None \<Rightarrow> [] | Some x \<Rightarrow> [x]) @ items (snd (pop s))"
  using pop_empty [of s] pop_cons [of s] by (cases "items s") auto

lemma run_fifo: "run ops s = (acc, out, s') \<Longrightarrow> items s @ acc = out @ items s'"
proof (induction ops s arbitrary: acc out s' rule: run.induct)
  case (2 x ops s)
  obtain ok s1 where p: "push x s = (ok, s1)" by (cases "push x s")
  obtain acc1 out1 s2 where r: "run ops s1 = (acc1, out1, s2)" by (cases "run ops s1")
  have "items s1 @ acc1 = out1 @ items s2" using 2(1) [OF p [symmetric] refl r] .
  then show ?case using 2(2) push_fifo [of x s] by (auto simp: p r split: if_splits)
next
  case (3 ops s)
  obtain y s1 where p: "pop s = (y, s1)" by (cases "pop s")
  obtain acc1 out1 s2 where r: "run ops s1 = (acc1, out1, s2)" by (cases "run ops s1")
  have "items s1 @ acc1 = out1 @ items s2" using 3(1) [OF p [symmetric] refl r] .
  then show ?case using 3(2) pop_fifo [of s] by (auto simp: p r split: option.splits)
qed simp

lemma run_cap: "run ops s = (acc, out, s') \<Longrightarrow> cap s' = cap s"
proof (induction ops s arbitrary: acc out s' rule: run.induct)
  case (2 x ops s)
  obtain ok s1 where p: "push x s = (ok, s1)" by (cases "push x s")
  obtain acc1 out1 s2 where r: "run ops s1 = (acc1, out1, s2)" by (cases "run ops s1")
  show ?case using 2(1) [OF p [symmetric] refl r] 2(2) cap_push [of x s] by (simp add: p r)
next
  case (3 ops s)
  obtain y s1 where p: "pop s = (y, s1)" by (cases "pop s")
  obtain acc1 out1 s2 where r: "run ops s1 = (acc1, out1, s2)" by (cases "run ops s1")
  show ?case using 3(1) [OF p [symmetric] refl r] 3(2) cap_pop [of s] by (simp add: p r)
qed simp

lemma push_bounded: "length (items s) \<le> cap s \<Longrightarrow> length (items (snd (push x s))) \<le> cap s"
  using push_accepts [of s x] push_rejects [of s x] by (cases "length (items s) < cap s") auto

lemma pop_bounded: "length (items s) \<le> cap s \<Longrightarrow> length (items (snd (pop s))) \<le> cap s"
  using pop_fifo [of s] by (cases "fst (pop s)") auto

lemma run_bounded:
  "run ops s = (acc, out, s') \<Longrightarrow> length (items s) \<le> cap s \<Longrightarrow> length (items s') \<le> cap s"
proof (induction ops s arbitrary: acc out s' rule: run.induct)
  case (2 x ops s)
  obtain ok s1 where p: "push x s = (ok, s1)" by (cases "push x s")
  obtain acc1 out1 s2 where r: "run ops s1 = (acc1, out1, s2)" by (cases "run ops s1")
  have "length (items s1) \<le> cap s1"
    using push_bounded [OF 2(3), of x] cap_push [of x s] by (simp add: p)
  from 2(1) [OF p [symmetric] refl r this] show ?case using 2(2) cap_push [of x s] by (simp add: p r)
next
  case (3 ops s)
  obtain y s1 where p: "pop s = (y, s1)" by (cases "pop s")
  obtain acc1 out1 s2 where r: "run ops s1 = (acc1, out1, s2)" by (cases "run ops s1")
  have "length (items s1) \<le> cap s1"
    using pop_bounded [OF 3(3)] cap_pop [of s] by (simp add: p)
  from 3(1) [OF p [symmetric] refl r this] show ?case using 3(2) cap_pop [of s] by (simp add: p r)
qed simp

end

end
