(* ===== verification/Audio_St2110.thy ===== *)
theory Audio_St2110
  imports Rtp_Time Ieee_Double Bounded_Queue
begin

text \<open>
  ST 2110-30 audio framing (\<open>engine/operators/audio/audio_st2110.hpp\<close> and \<open>.cpp\<close>), the delay line,
  and the process-wide audio bridge (\<open>audio_bridge.hpp\<close>).  The bridge's mutex makes each call
  atomic, so an interleaving of the receive and transmit threads is a sequence of calls.
\<close>

section \<open>Formats and the RTP header\<close>

datatype audio_encoding = L16 | L24

record audio_format =
  af_sample_rate :: u32
  af_channels :: u16
  af_encoding :: audio_encoding
  af_packet_time_ms :: rat

definition bytes_per_sample :: "audio_format \<Rightarrow> u16" where
  "bytes_per_sample f = (case af_encoding f of L24 \<Rightarrow> 3 | L16 \<Rightarrow> 2)"

definition channel_group_bytes :: "audio_format \<Rightarrow> u32" where
  "channel_group_bytes f = ucast (af_channels f) * ucast (bytes_per_sample f)"

text \<open>\<open>None\<close> where the conversion to 32 bits is undefined.\<close>

definition samples_per_packet :: "audio_format \<Rightarrow> u32 option" where
  "samples_per_packet f = map_option of_nat
     (to_unsigned 32 (dbl (dbl (dbl (of_nat (unat (af_sample_rate f)) * af_packet_time_ms f) / 1000) + 1 / 2)))"

definition packet_payload_bytes :: "audio_format \<Rightarrow> u32 option" where
  "packet_payload_bytes f = map_option (\<lambda>n. n * channel_group_bytes f) (samples_per_packet f)"

definition audio_stereo_l24 :: audio_format where
  "audio_stereo_l24 = \<lparr>af_sample_rate = 48000, af_channels = 2, af_encoding = L24, af_packet_time_ms = 1\<rparr>"

definition write_rtp_header :: "u8 \<Rightarrow> bool \<Rightarrow> u16 \<Rightarrow> u32 \<Rightarrow> u32 \<Rightarrow> bytes" where
  "write_rtp_header pt marker seq ts ssrc =
     [0x80, (if marker then 0x80 else 0x00) OR (pt AND 0x7f)] @ be16 seq @ be32 ts @ be32 ssrc"

definition rtp_timestamp_audio :: "u64 \<Rightarrow> u32 \<Rightarrow> u32" where
  "rtp_timestamp_audio ns sample_rate =
     (let whole = (ns div 1000000000) * ucast sample_rate;
          frac = (ns mod 1000000000) * ucast sample_rate div 1000000000
      in ucast (whole + frac))"

definition kRtpHeaderBytes :: nat where "kRtpHeaderBytes = 12"

section \<open>Packetizer and depacketizer\<close>

record audio_packetizer =
  ap_fmt :: audio_format
  ap_pt :: u8
  ap_ssrc :: u32
  ap_seq :: u16

definition write_packet :: "u32 \<Rightarrow> bytes \<Rightarrow> bytes \<Rightarrow> audio_packetizer \<Rightarrow> (bytes \<times> nat \<times> audio_packetizer) option" where
  "write_packet rtp_timestamp pcm dst ap = do {
     n \<leftarrow> packet_payload_bytes (ap_fmt ap);
     let payload = unat n;
     d1 \<leftarrow> mem_write dst 0 (write_rtp_header (ap_pt ap) False (ap_seq ap) rtp_timestamp (ap_ssrc ap));
     body \<leftarrow> mem_read pcm 0 payload;
     d2 \<leftarrow> mem_write d1 kRtpHeaderBytes body;
     Some (d2, kRtpHeaderBytes + payload, ap\<lparr>ap_seq := ap_seq ap + 1\<rparr>)
   }"

record audio_rx_packet_info =
  ai_sequence :: u16
  ai_rtp_timestamp :: u32
  ai_marker :: bool
  ai_data_offset :: nat
  ai_pcm_len :: nat

definition audio_parse :: "audio_format \<Rightarrow> bytes \<Rightarrow> nat \<Rightarrow> audio_rx_packet_info option option" where
  "audio_parse fmt p len =
     (if len < kRtpHeaderBytes then Some None
      else do {
        h \<leftarrow> mem_read p 0 12;
        if drop_bit 6 (h ! 0) \<noteq> 2 then Some None
        else
          let header = kRtpHeaderBytes + unat (h ! 0 AND 0x0f) * 4 in
          if len < header then Some None
          else
            let pcm_len = len - header; grp = unat (channel_group_bytes fmt) in
            if grp = 0 \<or> pcm_len mod grp \<noteq> 0 then Some None
            else Some (Some \<lparr>ai_sequence = rd16 (h ! 2) (h ! 3),
                             ai_rtp_timestamp = rd32 (h ! 4) (h ! 5) (h ! 6) (h ! 7),
                             ai_marker = (h ! 1 AND 0x80 \<noteq> 0), ai_data_offset = header,
                             ai_pcm_len = pcm_len\<rparr>)
      })"

section \<open>Delay line\<close>

record 'a delay_line =
  dl_delay_blocks :: nat
  dl_q :: "'a list"

definition delay_push :: "'a \<Rightarrow> 'a delay_line \<Rightarrow> 'a option \<times> 'a delay_line" where
  "delay_push blk d =
     (if dl_delay_blocks d = 0 then (Some blk, d)
      else
        let q = dl_q d @ [blk] in
        if length q \<le> dl_delay_blocks d then (None, d\<lparr>dl_q := q\<rparr>)
        else (Some (hd q), d\<lparr>dl_q := tl q\<rparr>))"

fun delay_feed :: "'a list \<Rightarrow> 'a delay_line \<Rightarrow> 'a list \<times> 'a delay_line" where
  "delay_feed [] d = ([], d)"
| "delay_feed (x # xs) d =
     (let (r, d') = delay_push x d; (out, d'') = delay_feed xs d'
      in ((case r of None \<Rightarrow> out | Some y \<Rightarrow> y # out), d''))"

section \<open>The audio bridge\<close>

record bridge_pkt =
  bp_rtp :: bytes
  bp_capture_ns :: u64
  bp_ts_delta :: u32

record audio_bridge =
  br_q :: "bridge_pkt list"
  br_pushed :: u64
  br_dropped :: u64

definition kBridgeCap :: nat where "kBridgeCap = 16384"

definition bridge_init :: audio_bridge where
  "bridge_init = \<lparr>br_q = [], br_pushed = 0, br_dropped = 0\<rparr>"

definition bridge_push :: "bridge_pkt \<Rightarrow> audio_bridge \<Rightarrow> bool \<times> audio_bridge" where
  "bridge_push p b =
     (if length (br_q b) \<ge> kBridgeCap then (False, b\<lparr>br_dropped := br_dropped b + 1\<rparr>)
      else (True, b\<lparr>br_q := br_q b @ [p], br_pushed := br_pushed b + 1\<rparr>))"

text \<open>\<open>pop\<close> waits with a timeout; the outcome after the wait depends only on whether a packet is
  there.\<close>

definition bridge_pop :: "audio_bridge \<Rightarrow> bridge_pkt option \<times> audio_bridge" where
  "bridge_pop b =
     (case br_q b of [] \<Rightarrow> (None, b) | x # xs \<Rightarrow> (Some x, b\<lparr>br_q := xs\<rparr>))"

interpretation bridge: bounded_queue br_q bridge_push bridge_pop "\<lambda>_. kBridgeCap"
  by unfold_locales (auto simp: bridge_push_def bridge_pop_def)

text \<open>A history of calls on the bridge, by either thread.\<close>

fun bridge_run :: "bridge_pkt qop list \<Rightarrow> audio_bridge \<Rightarrow> bridge_pkt list \<times> bridge_pkt list \<times> audio_bridge" where
  "bridge_run [] b = ([], [], b)"
| "bridge_run (Push x # ops) b =
     (let (ok, b1) = bridge_push x b; (acc, out, b2) = bridge_run ops b1
      in ((if ok then x # acc else acc), out, b2))"
| "bridge_run (Pop # ops) b =
     (let (r, b1) = bridge_pop b; (acc, out, b2) = bridge_run ops b1
      in (acc, (case r of None \<Rightarrow> out | Some x \<Rightarrow> x # out), b2))"

lemma bridge_run_eq: "bridge_run ops b = bridge.run ops b"
  by (induction ops b rule: bridge_run.induct) (auto split: prod.splits)

lemma bridge_counters:
  "bridge_run ops b = (acc, out, b') \<Longrightarrow>
   br_pushed b' = br_pushed b + of_nat (length acc) \<and>
   br_dropped b' = br_dropped b + of_nat (length (filter (\<lambda>x. x \<noteq> Pop) ops) - length acc) \<and>
   length acc \<le> length (filter (\<lambda>x. x \<noteq> Pop) ops)"
proof (induction ops b arbitrary: acc out b' rule: bridge_run.induct)
  case (2 x ops b)
  obtain ok b1 where p: "bridge_push x b = (ok, b1)" by (cases "bridge_push x b")
  obtain acc1 out1 b2 where r: "bridge_run ops b1 = (acc1, out1, b2)" by (cases "bridge_run ops b1")
  note IH = 2(1) [OF p [symmetric] refl r]
  show ?case using IH 2(2) p
    by (auto simp: r bridge_push_def Suc_diff_le algebra_simps split: if_splits)
next
  case (3 ops b)
  obtain y b1 where p: "bridge_pop b = (y, b1)" by (cases "bridge_pop b")
  obtain acc1 out1 b2 where r: "bridge_run ops b1 = (acc1, out1, b2)" by (cases "bridge_run ops b1")
  note IH = 3(1) [OF p [symmetric] refl r]
  show ?case using IH 3(2) p by (auto simp: r bridge_pop_def split: list.splits)
qed simp

section \<open>Properties\<close>

text \<open>C38 - The audio bridge under any interleaving of the two threads' calls: packets leave in the
  order they were accepted, none is lost or duplicated, at most 16384 are stored, and the two
  counters count the accepted and the rejected packets.\<close>
theorem audio_bridge_fifo:
  assumes "bridge_run ops bridge_init = (acc, out, b)"
  shows "acc = out @ br_q b \<and> length (br_q b) \<le> kBridgeCap \<and>
    br_pushed b = of_nat (length acc) \<and>
    br_dropped b = of_nat (length (filter (\<lambda>x. x \<noteq> Pop) ops) - length acc)"
  using bridge.run_fifo [of ops bridge_init acc out b] bridge.run_bounded [of ops bridge_init acc out b]
    bridge_counters [OF assms] assms
  by (simp add: bridge_run_eq bridge_init_def)

definition tiny_bridge_pkt :: "u64 \<Rightarrow> bridge_pkt" where
  "tiny_bridge_pkt t = \<lparr>bp_rtp = replicate 12 0, bp_capture_ns = t, bp_ts_delta = 0\<rparr>"

theorem audio_bridge_fifo_witness:
  "length (br_q (snd (snd (bridge_run
     [Push (tiny_bridge_pkt 1), Push (tiny_bridge_pkt 2), Pop, Pop, Pop] bridge_init)))) = 0"
proof -
  let ?p = "tiny_bridge_pkt 1" and ?q = "tiny_bridge_pkt 2"
  obtain acc out b where r: "bridge_run [Push ?p, Push ?q, Pop, Pop, Pop] bridge_init = (acc, out, b)"
    by (cases "bridge_run [Push ?p, Push ?q, Pop, Pop, Pop] bridge_init")
  have "out = [?p, ?q]" "acc = [?p, ?q]"
    using r by (auto simp: bridge_push_def bridge_pop_def bridge_init_def kBridgeCap_def)
  with audio_bridge_fifo [OF r] r show ?thesis by simp
qed

text \<open>The delay line delays by exactly its configured number of blocks: from empty, the blocks
  emitted are the blocks fed, in order, less the last \<open>n\<close>.\<close>
theorem delay_line_exact:
  "fst (delay_feed xs \<lparr>dl_delay_blocks = n, dl_q = []\<rparr>) = take (length xs - n) xs"
proof -
  have gen: "length q \<le> n \<Longrightarrow> fst (delay_feed xs \<lparr>dl_delay_blocks = n, dl_q = q\<rparr>) =
      take (length q + length xs - n) (q @ xs)" if pos: "0 < n" for q
  proof (induction xs arbitrary: q)
    case (Cons x xs)
    show ?case
    proof (cases "length (q @ [x]) \<le> n")
      case True
      then have "delay_push x \<lparr>dl_delay_blocks = n, dl_q = q\<rparr> = (None, \<lparr>dl_delay_blocks = n, dl_q = q @ [x]\<rparr>)"
        using pos by (simp add: delay_push_def)
      then show ?thesis using Cons.IH [of "q @ [x]"] True by (simp split: prod.splits)
    next
      case False
      then have len: "length q = n" using Cons.prems by simp
      then obtain y q' where q: "q = y # q'" using pos by (cases q) auto
      have "delay_push x \<lparr>dl_delay_blocks = n, dl_q = q\<rparr> = (Some y, \<lparr>dl_delay_blocks = n, dl_q = q' @ [x]\<rparr>)"
        using pos len by (simp add: delay_push_def q)
      moreover have n: "n = Suc (length q')" using len by (simp add: q)
      ultimately show ?thesis using Cons.IH [of "q' @ [x]"] by (auto simp: q split: prod.splits)
    qed
  qed simp
  have zero: "fst (delay_feed xs \<lparr>dl_delay_blocks = 0, dl_q = q\<rparr>) = xs" for q
    by (induction xs) (auto simp: delay_push_def split: prod.splits)
  show ?thesis using gen [of "[]"] zero by (cases "n = 0") auto
qed

text \<open>The audio timestamp: for every rate and every 64-bit time the split computation equals the
  exact 128-bit tick count modulo 2^32, even where its 64-bit product wraps.\<close>
theorem rtp_timestamp_audio_is_ticks:
  "rtp_timestamp_audio ns rate = ucast (rtp_ticks_abs ns rate)"
proof -
  let ?n = "unat ns" and ?r = "unat rate"
  have f: "unat (ns mod 1000000000 * ucast rate) = ?n mod 1000000000 * ?r"
  proof (subst unat_mult_noov)
    have "?n mod 1000000000 * ?r \<le> 1000000000 * 4294967295"
      by (intro mult_le_mono) simp_all
    then show "unat (ns mod 1000000000) * unat (ucast rate :: u64) < 2 ^ LENGTH(64)"
      by (simp add: unat_mod unat_ucast_up)
  qed (simp add: unat_mod unat_ucast_up)
  define W F where "W = ns div 1000000000 * ucast rate" and "F = ns mod 1000000000 * ucast rate div 1000000000"
  have F: "unat F = ?n mod 1000000000 * ?r div 1000000000"
    by (simp only: F_def unat_div f) simp
  have W: "unat W = (?n div 1000000000 * ?r) mod 2 ^ 64"
    by (simp add: W_def unat_word_ariths(2) unat_div unat_ucast_up)
  have "unat (ucast (W + F) :: u32) = (unat W + unat F) mod 2 ^ 64 mod 2 ^ 32"
    by (simp add: unat_ucast_mod unat_word_ariths(1))
  also have "\<dots> = (?n div 1000000000 * ?r + ?n mod 1000000000 * ?r div 1000000000) mod 2 ^ 64 mod 2 ^ 32"
    by (simp only: W F mod_add_left_eq)
  also have "?n div 1000000000 * ?r + ?n mod 1000000000 * ?r div 1000000000 = ?n * ?r div 1000000000"
  proof -
    have "?n * ?r = ?n mod 1000000000 * ?r + 1000000000 * (?n div 1000000000 * ?r)"
    proof -
      have "?n * ?r = (1000000000 * (?n div 1000000000) + ?n mod 1000000000) * ?r" by simp
      then show ?thesis by (simp only: algebra_simps)
    qed
    then show ?thesis by (simp only: div_mult_self2)
  qed
  also have "(?n * ?r div 1000000000) mod 2 ^ 64 mod 2 ^ 32 = unat (ucast (rtp_ticks_abs ns rate) :: u32)"
    by (simp add: unat_ucast_mod unat_rtp_ticks_abs_mod)
  finally have "ucast (W + F) = (ucast (rtp_ticks_abs ns rate) :: u32)" by (simp only: word_unat_eq_iff)
  then show ?thesis by (simp only: rtp_timestamp_audio_def Let_def W_def F_def)
qed

end
