(* ===== verification/Video_Format.thy ===== *)
theory Video_Format
  imports Spark_Prelude
begin

text \<open>
  Video formats and RFC 4175 pgroup geometry, \<open>engine/operators/st2110_tx/st2110_format.hpp\<close>.
  The geometry keeps the \<open>uint32_t\<close>/\<open>uint64_t\<close> widths of the code; \<open>fps\<close> is a double in the
  code and a rational here.  \<open>fmt_wf\<close> collects the sizes for which the 16-bit header fields can
  name every pixel group, and the lemmas read the word-level geometry as natural numbers.
\<close>

datatype sampling = YCbCr422_10 | YCbCr422_8

record video_format =
  width :: u32
  height :: u32
  fps :: rat
  sampling_of :: sampling

definition kPixelsPerPgroup :: u32 where "kPixelsPerPgroup = 2"

definition octets_per_pgroup :: "video_format \<Rightarrow> u32" where
  "octets_per_pgroup f = (if sampling_of f = YCbCr422_8 then 4 else 5)"

definition total_lines :: "video_format \<Rightarrow> u32" where
  "total_lines f =
     (if height f = 1080 then 1125 else if height f = 2160 then 2250
      else if height f = 720 then 750 else height f)"

definition pgroups_per_line :: "video_format \<Rightarrow> u32" where
  "pgroups_per_line f = width f div kPixelsPerPgroup"

definition octets_per_line :: "video_format \<Rightarrow> u32" where
  "octets_per_line f = pgroups_per_line f * octets_per_pgroup f"

definition octets_per_frame :: "video_format \<Rightarrow> u64" where
  "octets_per_frame f = ucast (octets_per_line f) * ucast (height f)"

definition byte_offset :: "video_format \<Rightarrow> u32 \<Rightarrow> u32 \<Rightarrow> u64" where
  "byte_offset f line offset_pixels =
     ucast line * ucast (octets_per_line f)
       + ucast ((offset_pixels div kPixelsPerPgroup) * octets_per_pgroup f)"

definition profile_1080p :: video_format where
  "profile_1080p = \<lparr>width = 1920, height = 1080, fps = 60000 / 1001, sampling_of = YCbCr422_10\<rparr>"

definition profile_2160p :: video_format where
  "profile_2160p = \<lparr>width = 3840, height = 2160, fps = 60000 / 1001, sampling_of = YCbCr422_10\<rparr>"

record video_frame =
  vf_data :: "bytes option"
  vf_format :: video_format
  vf_capture_ts_ns :: u64
  vf_frame_number :: u64

section \<open>Geometry as natural numbers\<close>

definition fmt_wf :: "video_format \<Rightarrow> bool" where
  "fmt_wf f \<longleftrightarrow> 2 \<le> width f \<and> width f \<le> 32768 \<and> 1 \<le> height f \<and> height f \<le> 32768"

definition pg_oct :: "video_format \<Rightarrow> nat" where "pg_oct f = unat (octets_per_pgroup f)"
definition line_oct :: "video_format \<Rightarrow> nat" where "line_oct f = unat (octets_per_line f)"
definition rows :: "video_format \<Rightarrow> nat" where "rows f = unat (height f)"
definition frame_oct :: "video_format \<Rightarrow> nat" where "frame_oct f = rows f * line_oct f"

lemma pg_oct_cases: "pg_oct f = 4 \<or> pg_oct f = 5"
  by (simp add: pg_oct_def octets_per_pgroup_def)

lemma pg_oct_pos [simp]: "0 < pg_oct f" and pg_oct_le: "pg_oct f \<le> 5"
  using pg_oct_cases [of f] by auto

lemma line_oct_wf:
  assumes "fmt_wf f"
  shows "line_oct f = unat (width f) div 2 * pg_oct f"
proof -
  have "unat (width f) \<le> 32768" using assms by (simp add: fmt_wf_def word_le_nat_alt)
  then have "unat (width f) div 2 * pg_oct f \<le> 16384 * 5"
    using pg_oct_le [of f] by (intro mult_le_mono) simp_all
  then have "unat (pgroups_per_line f) * unat (octets_per_pgroup f) < 2 ^ LENGTH(32)"
    by (simp add: pgroups_per_line_def kPixelsPerPgroup_def unat_div pg_oct_def)
  then show ?thesis
    by (simp add: line_oct_def octets_per_line_def unat_mult_noov pgroups_per_line_def
        kPixelsPerPgroup_def unat_div pg_oct_def)
qed

lemma line_oct_bounds:
  assumes "fmt_wf f"
  shows "pg_oct f dvd line_oct f" "0 < line_oct f" "line_oct f \<le> 81920"
proof -
  have w: "2 \<le> unat (width f)" "unat (width f) \<le> 32768"
    using assms by (simp_all add: fmt_wf_def word_le_nat_alt)
  show "pg_oct f dvd line_oct f" by (simp add: line_oct_wf [OF assms])
  have "0 < unat (width f) div 2" using w by simp
  then show "0 < line_oct f" by (simp add: line_oct_wf [OF assms])
  have "unat (width f) div 2 * pg_oct f \<le> 16384 * 5"
    using w pg_oct_le [of f] by (intro mult_le_mono) simp_all
  then show "line_oct f \<le> 81920" by (simp add: line_oct_wf [OF assms])
qed

lemma rows_bounds: "fmt_wf f \<Longrightarrow> 0 < rows f" "fmt_wf f \<Longrightarrow> rows f \<le> 32768"
  by (simp_all add: fmt_wf_def rows_def word_le_nat_alt)

lemma unat_octets_per_frame: "unat (octets_per_frame f) = frame_oct f"
proof -
  have "line_oct f * rows f < 2 ^ 32 * 2 ^ 32"
    using mult_strict_mono [of "line_oct f" "2 ^ 32" "rows f" "2 ^ 32"]
    by (simp add: line_oct_def rows_def)
  then show ?thesis
    by (simp add: octets_per_frame_def unat_mult_noov unat_ucast_up line_oct_def rows_def
        frame_oct_def mult.commute)
qed

text \<open>No format, however large, makes \<open>byte_offset\<close> wrap when the pixel offset is a 15-bit header
  field.\<close>

lemma unat_byte_offset:
  assumes "unat line < 2 ^ 31" "unat off \<le> 65535"
  shows "unat (byte_offset f line off) = unat line * line_oct f + unat off div 2 * pg_oct f"
proof -
  have "unat off div 2 * pg_oct f \<le> 32767 * 5"
    using assms(2) pg_oct_le [of f] by (intro mult_le_mono) simp_all
  then have a: "unat ((off div kPixelsPerPgroup) * octets_per_pgroup f) = unat off div 2 * pg_oct f"
    and b: "unat off div 2 * pg_oct f < 2 ^ 32"
    by (simp_all add: unat_mult_noov unat_div kPixelsPerPgroup_def pg_oct_def)
  have c: "unat line * line_oct f \<le> (2 ^ 31 - 1) * (2 ^ 32 - 1)"
    using assms(1) unat_u32_less [of "octets_per_line f"] by (intro mult_le_mono) (simp_all add: line_oct_def)
  then have d: "unat (ucast line * ucast (octets_per_line f) :: u64) = unat line * line_oct f"
    by (simp add: unat_mult_noov unat_ucast_up line_oct_def)
  show ?thesis
    using b c by (simp add: byte_offset_def unat_add_noov d a unat_ucast_up)
qed

end
