(* ===== verification/Rtp_St2110.thy ===== *)
theory Rtp_St2110
  imports Video_Format
begin

text \<open>
  ST 2110-20 / RFC 4175 packetization and depacketization,
  \<open>engine/operators/st2110_tx/rtp_st2110.hpp\<close> and \<open>rtp_st2110.cpp\<close>.  A \<open>PacketPlan\<close>'s fixed
  array of segments with its count \<open>nsrd\<close> is the list of its first \<open>nsrd\<close> entries.  The
  \<open>Packetizer\<close> object is a record; \<open>next\<close> returns the plan (or \<open>None\<close> for \<open>false\<close>) and the new
  object.  \<open>write_payload\<close>, \<open>parse\<close> and \<open>scatter\<close> work on byte buffers; their outer \<open>None\<close> is an
  access outside a buffer.
\<close>

section \<open>Data\<close>

record srd =
  srd_length :: u16
  srd_line_no :: u16
  srd_offset_pixels :: u16

definition kMaxSrd :: nat where "kMaxSrd = 3"

record packet_plan =
  pp_sequence :: u32
  pp_rtp_timestamp :: u32
  pp_marker :: bool
  pp_payload_len :: u32
  pp_srd :: "srd list"

record cursor =
  c_line :: u32
  c_octet :: u32

record packetizer =
  pk_fmt :: video_format
  pk_max_payload :: u32
  pk_pt :: u8
  pk_ssrc :: u32
  pk_seq :: u32
  pk_cur_line :: u32
  pk_cur_octet :: u32
  pk_rtp_ts :: u32
  pk_active :: bool

definition mk_packetizer :: "video_format \<Rightarrow> u32 \<Rightarrow> u8 \<Rightarrow> u32 \<Rightarrow> packetizer" where
  "mk_packetizer fmt max_payload_octets payload_type ssrc =
     \<lparr>pk_fmt = fmt, pk_max_payload = max_payload_octets, pk_pt = payload_type, pk_ssrc = ssrc,
      pk_seq = 0, pk_cur_line = 0, pk_cur_octet = 0, pk_rtp_ts = 0, pk_active = False\<rparr>"

section \<open>Planning a packet\<close>

definition seg_octets :: "video_format \<Rightarrow> int \<Rightarrow> cursor \<Rightarrow> u32" where
  "seg_octets fmt after_hdr c =
     (let left_in_line = octets_per_line fmt - c_octet c;
          seg = min left_in_line (word_of_int after_hdr)
      in (seg div octets_per_pgroup fmt) * octets_per_pgroup fmt)"

definition mk_srd :: "video_format \<Rightarrow> cursor \<Rightarrow> u32 \<Rightarrow> srd" where
  "mk_srd fmt c seg =
     \<lparr>srd_length = ucast seg, srd_line_no = ucast (c_line c),
      srd_offset_pixels = ucast ((c_octet c div octets_per_pgroup fmt) * kPixelsPerPgroup)\<rparr>"

definition advance :: "video_format \<Rightarrow> cursor \<Rightarrow> u32 \<Rightarrow> cursor" where
  "advance fmt c seg =
     (let octet = c_octet c + seg
      in if octet \<ge> octets_per_line fmt then \<lparr>c_line = c_line c + 1, c_octet = 0\<rparr>
         else c\<lparr>c_octet := octet\<rparr>)"

definition line_aligned :: "video_format \<Rightarrow> bool" where
  "line_aligned fmt = (sampling_of fmt = YCbCr422_8 \<or> height fmt \<ge> 2160)"

function plan_fill :: "video_format \<Rightarrow> int \<Rightarrow> cursor \<Rightarrow> srd list \<Rightarrow> cursor \<times> srd list" where
  "plan_fill fmt budget c srds =
     (if c_line c < height fmt \<and> length srds < kMaxSrd then
        let after_hdr = budget - 6 in
        if after_hdr < uint (octets_per_pgroup fmt) then (c, srds)
        else
          let seg = seg_octets fmt after_hdr c in
          if seg = 0 then (c, srds)
          else
            let srds' = srds @ [mk_srd fmt c seg];
                budget' = budget - sint (6 + seg);
                c' = advance fmt c seg
            in if line_aligned fmt then (c', srds') else plan_fill fmt budget' c' srds'
      else (c, srds))"
  by pat_completeness auto
termination
  by (relation "measure (\<lambda>(fmt, budget, c, srds). kMaxSrd - length srds)") auto

declare plan_fill.simps [simp del]

definition srd_data :: "srd list \<Rightarrow> u32" where
  "srd_data srds = sum_list (map (\<lambda>s. ucast (srd_length s)) srds)"

definition plan_one :: "video_format \<Rightarrow> u32 \<Rightarrow> cursor \<Rightarrow> (cursor \<times> srd list \<times> u32) option" where
  "plan_one fmt max_payload c =
     (if c_line c \<ge> height fmt then None
      else
        let (c', srds) = plan_fill fmt (sint max_payload - 12 - 2) c [];
            payload_len = 12 + 2 + 6 * of_nat (length srds) + srd_data srds
        in if srds = [] then None else Some (c', srds, payload_len))"

definition start_frame :: "u32 \<Rightarrow> packetizer \<Rightarrow> packetizer" where
  "start_frame rtp_timestamp pk =
     pk\<lparr>pk_cur_line := 0, pk_cur_octet := 0, pk_rtp_ts := rtp_timestamp, pk_active := True\<rparr>"

definition pk_next :: "packetizer \<Rightarrow> packet_plan option \<times> packetizer" where
  "pk_next pk =
     (if \<not> pk_active pk then (None, pk)
      else case plan_one (pk_fmt pk) (pk_max_payload pk)
                  \<lparr>c_line = pk_cur_line pk, c_octet = pk_cur_octet pk\<rparr> of
        None \<Rightarrow> (None, pk\<lparr>pk_active := False\<rparr>)
      | Some (c, srds, payload_len) \<Rightarrow>
          let marker = (c_line c \<ge> height (pk_fmt pk));
              plan = \<lparr>pp_sequence = pk_seq pk, pp_rtp_timestamp = pk_rtp_ts pk, pp_marker = marker,
                      pp_payload_len = payload_len, pp_srd = srds\<rparr>
          in (Some plan,
              pk\<lparr>pk_seq := pk_seq pk + 1, pk_cur_line := c_line c, pk_cur_octet := c_octet c,
                 pk_active := \<not> marker\<rparr>))"

partial_function (option) count_packets :: "video_format \<Rightarrow> u32 \<Rightarrow> cursor \<Rightarrow> u32 \<Rightarrow> u32 option" where
  "count_packets fmt max_payload c n =
     (case plan_one fmt max_payload c of
        None \<Rightarrow> Some n
      | Some (c', _) \<Rightarrow> count_packets fmt max_payload c' (n + 1))"

definition packets_per_frame :: "packetizer \<Rightarrow> u32 option" where
  "packets_per_frame pk =
     count_packets (pk_fmt pk) (pk_max_payload pk) \<lparr>c_line = 0, c_octet = 0\<rparr> 0"

section \<open>Serializing a plan\<close>

definition rtp_header :: "packetizer \<Rightarrow> packet_plan \<Rightarrow> bytes" where
  "rtp_header pk p =
     [0x80, (if pp_marker p then 0x80 else 0x00) OR (pk_pt pk AND 0x7f)]
       @ be16 (ucast (pp_sequence p AND 0xffff)) @ be32 (pp_rtp_timestamp p) @ be32 (pk_ssrc pk)"

fun srd_headers :: "srd list \<Rightarrow> bytes" where
  "srd_headers [] = []"
| "srd_headers (s # rest) =
     be16 (srd_length s) @ be16 (srd_line_no s AND 0x7fff)
       @ be16 ((if rest \<noteq> [] then 0x8000 else 0x0000) OR (srd_offset_pixels s AND 0x7fff))
       @ srd_headers rest"

definition srd_base :: "video_format \<Rightarrow> srd \<Rightarrow> nat" where
  "srd_base fmt s = unat (byte_offset fmt (ucast (srd_line_no s)) (ucast (srd_offset_pixels s)))"

fun srd_pixels :: "video_format \<Rightarrow> srd list \<Rightarrow> bytes \<Rightarrow> bytes option" where
  "srd_pixels fmt [] frame = Some []"
| "srd_pixels fmt (s # rest) frame = do {
     px \<leftarrow> mem_read frame (srd_base fmt s) (unat (srd_length s));
     more \<leftarrow> srd_pixels fmt rest frame;
     Some (px @ more)
   }"

text \<open>The stores of \<open>write_payload\<close> are sequential from \<open>dst\<close>, so they are one store of the
  concatenated bytes.\<close>

definition write_payload :: "packetizer \<Rightarrow> packet_plan \<Rightarrow> bytes \<Rightarrow> bytes \<Rightarrow> bytes option" where
  "write_payload pk p frame dst = do {
     px \<leftarrow> srd_pixels (pk_fmt pk) (pp_srd p) frame;
     mem_write dst 0
       (rtp_header pk p @ be16 (ucast (drop_bit 16 (pp_sequence p))) @ srd_headers (pp_srd p) @ px)
   }"

section \<open>The walk over a frame, as natural numbers\<close>

definition cur_pos :: "video_format \<Rightarrow> cursor \<Rightarrow> nat" where
  "cur_pos f c = unat (c_line c) * line_oct f + unat (c_octet c)"

definition cur_wf :: "video_format \<Rightarrow> cursor \<Rightarrow> bool" where
  "cur_wf f c \<longleftrightarrow>
     (unat (c_line c) < rows f \<and> unat (c_octet c) < line_oct f \<and> pg_oct f dvd unat (c_octet c)) \<or>
     (unat (c_line c) = rows f \<and> c_octet c = 0)"

definition srd_range :: "video_format \<Rightarrow> srd \<Rightarrow> nat list" where
  "srd_range f s = [srd_base f s ..< srd_base f s + unat (srd_length s)]"

definition srd_ok :: "video_format \<Rightarrow> srd \<Rightarrow> bool" where
  "srd_ok f s \<longleftrightarrow> 0 < unat (srd_length s) \<and> pg_oct f dvd unat (srd_length s) \<and>
     unat (srd_line_no s) < rows f \<and> unat (srd_line_no s) < 32768 \<and>
     unat (srd_offset_pixels s) < 32768 \<and>
     srd_base f s + unat (srd_length s) \<le> frame_oct f \<and>
     srd_base f s div line_oct f = unat (srd_line_no s) \<and>
     (srd_base f s + unat (srd_length s) - 1) div line_oct f = unat (srd_line_no s)"

definition srd_cost :: "srd list \<Rightarrow> int" where
  "srd_cost srds = (\<Sum>s\<leftarrow>srds. 6 + int (unat (srd_length s)))"

lemma unat_min: "unat (min a b) = min (unat a) (unat (b :: 'a::len word))"
  by (simp add: min_def word_le_nat_alt)

lemma unat_word_of_int_u32: "0 \<le> k \<Longrightarrow> k < 2 ^ 32 \<Longrightarrow> unat (word_of_int k :: u32) = nat k"
  by (simp add: unat_eq_nat_uint uint_word_of_int mod_pos_pos_trivial)

lemma unat_seg_octets:
  assumes cur: "cur_wf f c" and line: "unat (c_line c) < rows f"
    and ah: "int (pg_oct f) \<le> ah" "ah \<le> 65535"
  shows "unat (seg_octets f ah c) = min (line_oct f - unat (c_octet c)) (nat ah) div pg_oct f * pg_oct f"
proof -
  have oct: "unat (c_octet c) < line_oct f" using cur line by (auto simp: cur_wf_def)
  then have sub: "unat (octets_per_line f - c_octet c) = line_oct f - unat (c_octet c)"
    by (simp add: line_oct_def unat_sub_noov word_le_nat_alt)
  let ?m = "min (line_oct f - unat (c_octet c)) (nat ah)"
  have m: "unat (min (octets_per_line f - c_octet c) (word_of_int ah)) = ?m"
    using ah by (simp add: unat_min sub unat_word_of_int_u32)
  have "?m div pg_oct f * pg_oct f \<le> ?m" by (rule div_mult_bounds) simp
  also have "?m < 2 ^ 32" using ah by simp
  finally show ?thesis
    using m by (simp add: seg_octets_def Let_def unat_mult_noov unat_div m flip: pg_oct_def)
qed

lemma seg_octets_bounds:
  assumes wf: "fmt_wf f" and cur: "cur_wf f c" and line: "unat (c_line c) < rows f"
    and ah: "int (pg_oct f) \<le> ah" "ah \<le> 65535"
  shows "0 < unat (seg_octets f ah c)" "unat (seg_octets f ah c) \<le> line_oct f - unat (c_octet c)"
  "int (unat (seg_octets f ah c)) \<le> ah" "pg_oct f dvd unat (seg_octets f ah c)"
proof -
  let ?m = "min (line_oct f - unat (c_octet c)) (nat ah)"
  note unat_seg_octets = unat_seg_octets [OF cur line ah]
  have oct: "unat (c_octet c) < line_oct f" "pg_oct f dvd unat (c_octet c)"
    using cur line by (auto simp: cur_wf_def)
  have "pg_oct f dvd line_oct f - unat (c_octet c)"
    using oct line_oct_bounds(1) [OF wf] by (simp add: dvd_diff_nat)
  then have "pg_oct f \<le> ?m" using oct ah by (simp add: dvd_imp_le)
  then have "1 \<le> ?m div pg_oct f" by (metis div_greater_zero_iff less_eq_Suc_le One_nat_def pg_oct_pos)
  then show "0 < unat (seg_octets f ah c)" by (simp add: unat_seg_octets)
  have le: "?m div pg_oct f * pg_oct f \<le> ?m" by (rule div_mult_bounds) simp
  then show "unat (seg_octets f ah c) \<le> line_oct f - unat (c_octet c)"
    by (simp only: unat_seg_octets) simp
  show "int (unat (seg_octets f ah c)) \<le> ah" 
    using le ah min.cobounded2 [of "line_oct f - unat (c_octet c)" "nat ah"]
    by (simp only: unat_seg_octets) linarith
  show "pg_oct f dvd unat (seg_octets f ah c)" by (simp add: unat_seg_octets)
qed

lemma advance_step:
  assumes wf: "fmt_wf f" and cur: "cur_wf f c" and line: "unat (c_line c) < rows f"
    and seg: "unat seg \<le> line_oct f - unat (c_octet c)" "pg_oct f dvd unat seg"
  shows "cur_wf f (advance f c seg)" "cur_pos f (advance f c seg) = cur_pos f c + unat seg"
proof -
  have oct: "unat (c_octet c) < line_oct f" "pg_oct f dvd unat (c_octet c)"
    using cur line by (auto simp: cur_wf_def)
  have sum: "unat (c_octet c + seg) = unat (c_octet c) + unat seg"
    using oct seg line_oct_bounds(3) [OF wf] by (intro unat_add_noov) simp
  have ge: "octets_per_line f \<le> c_octet c + seg \<longleftrightarrow> line_oct f \<le> unat (c_octet c) + unat seg"
    by (simp add: word_le_nat_alt sum line_oct_def)
  have line': "unat (c_line c + 1) = unat (c_line c) + 1"
    using line rows_bounds(2) [OF wf] by (subst unat_add_noov) simp_all
  show "cur_wf f (advance f c seg)"
  proof (cases "line_oct f \<le> unat (c_octet c) + unat seg")
    case True
    then have "advance f c seg = \<lparr>c_line = c_line c + 1, c_octet = 0\<rparr>"
      by (simp add: advance_def Let_def ge)
    then show ?thesis
      using line line_oct_bounds(2) [OF wf] by (auto simp: cur_wf_def line')
  next
    case False
    then show ?thesis
      using line oct seg(2) by (simp add: advance_def Let_def ge cur_wf_def sum)
  qed
  show "cur_pos f (advance f c seg) = cur_pos f c + unat seg"
    using seg(1) oct by (auto simp: advance_def Let_def ge cur_pos_def sum line' split: if_splits)
qed

lemma mk_srd_ok:
  assumes wf: "fmt_wf f" and cur: "cur_wf f c" and line: "unat (c_line c) < rows f"
    and seg: "0 < unat seg" "unat seg \<le> line_oct f - unat (c_octet c)" "unat seg \<le> 65535"
      "pg_oct f dvd unat seg"
  shows "srd_ok f (mk_srd f c seg)" "unat (srd_length (mk_srd f c seg)) = unat seg"
    "srd_base f (mk_srd f c seg) = cur_pos f c"
proof -
  let ?s = "mk_srd f c seg"
  have oct: "unat (c_octet c) < line_oct f" "pg_oct f dvd unat (c_octet c)"
    using cur line by (auto simp: cur_wf_def)
  have len: "unat (srd_length ?s) = unat seg"
    using seg(3) by (simp add: mk_srd_def unat_ucast_mod)
  have lin: "unat (srd_line_no ?s) = unat (c_line c)"
    using line rows_bounds(2) [OF wf] by (simp add: mk_srd_def unat_ucast_mod)
  have "unat (width f) \<le> 32768"
    using wf by (simp add: fmt_wf_def word_le_nat_alt)
  then have half: "unat (width f) div 2 \<le> 16384" by simp
  obtain q where q: "unat (c_octet c) = pg_oct f * q" using oct(2) by (rule dvdE)
  have q_less: "q < unat (width f) div 2"
    using oct(1) by (simp add: q line_oct_wf [OF wf] mult.commute)
  have "unat (c_octet c div octets_per_pgroup f) = q"
    by (simp add: unat_div q flip: pg_oct_def)
  then have "unat ((c_octet c div octets_per_pgroup f) * kPixelsPerPgroup) = q * 2"
    using q_less half by (subst unat_mult_noov) (simp_all add: kPixelsPerPgroup_def)
  then have off: "unat (srd_offset_pixels ?s) = q * 2"
    using q_less half by (simp add: mk_srd_def unat_ucast_mod)
  have base: "srd_base f ?s = cur_pos f c"
    using line rows_bounds(2) [OF wf] q_less half
    by (simp add: srd_base_def unat_byte_offset unat_ucast_up lin off cur_pos_def q mult.commute)
  have "cur_pos f c + unat seg \<le> unat (c_line c) * line_oct f + line_oct f"
    using seg(2) oct(1) by (simp add: cur_pos_def)
  also have "\<dots> = (unat (c_line c) + 1) * line_oct f" by simp
  also have "\<dots> \<le> rows f * line_oct f" using line by (intro mult_le_mono) simp_all
  finally have "cur_pos f c + unat seg \<le> frame_oct f" by (simp add: frame_oct_def)
  moreover have "cur_pos f c div line_oct f = unat (c_line c)"
    using oct(1) by (simp add: cur_pos_def)
  moreover have "(cur_pos f c + unat seg - 1) div line_oct f = unat (c_line c)"
  proof -
    have "cur_pos f c + unat seg - 1 = (unat (c_octet c) + unat seg - 1) + unat (c_line c) * line_oct f"
      using seg(1) by (simp add: cur_pos_def)
    moreover have "unat (c_octet c) + unat seg - 1 < line_oct f" using seg oct(1) by simp
    ultimately show ?thesis using line_oct_bounds(2) [OF wf] by simp
  qed
  ultimately show "srd_ok f ?s"
    using line rows_bounds(2) [OF wf] q_less half seg by (simp add: srd_ok_def len lin base off)
  show "unat (srd_length ?s) = unat seg" "srd_base f ?s = cur_pos f c" by (fact len, fact base)
qed

lemma seg_cost_int:
  fixes seg :: u32
  assumes "unat seg \<le> 65535"
  shows "sint (6 + seg) = 6 + int (unat seg)"
proof -
  have "unat (6 + seg) = 6 + unat seg" using assms by (subst unat_add_noov) simp_all
  then show ?thesis using assms by (simp add: sint_small_u32)
qed

lemma srd_cost_simps [simp]: "srd_cost [] = 0" "srd_cost (s # srds) = 6 + int (unat (srd_length s)) + srd_cost srds"
  by (simp_all add: srd_cost_def)

lemma srd_cost_append [simp]: "srd_cost (xs @ ys) = srd_cost xs + srd_cost ys"
  by (simp add: srd_cost_def)

definition fill_ok :: "video_format \<Rightarrow> int \<Rightarrow> cursor \<Rightarrow> srd list \<Rightarrow> cursor \<Rightarrow> srd list \<Rightarrow> bool" where
  "fill_ok f budget c srds c' new \<longleftrightarrow>
     cur_wf f c' \<and> cur_pos f c \<le> cur_pos f c' \<and> (\<forall>s\<in>set new. srd_ok f s) \<and>
     concat (map (srd_range f) new) = [cur_pos f c ..< cur_pos f c'] \<and>
     (new \<noteq> [] \<longrightarrow> srd_cost new \<le> budget) \<and>
     (length srds \<le> kMaxSrd \<longrightarrow> length srds + length new \<le> kMaxSrd) \<and>
     (line_aligned f \<longrightarrow> length new \<le> 1) \<and>
     (c_line c < height f \<and> length srds < kMaxSrd \<and> 6 + int (pg_oct f) \<le> budget \<longrightarrow> new \<noteq> [])"

lemma plan_fill_ok:
  assumes wf: "fmt_wf f" and "cur_wf f c" and "budget \<le> 65535"
  shows "\<exists>new. snd (plan_fill f budget c srds) = srds @ new \<and>
    fill_ok f budget c srds (fst (plan_fill f budget c srds)) new"
  using assms
proof (induction f budget c srds rule: plan_fill.induct)
  case (1 f budget c srds)
  let ?ah = "budget - 6"
  let ?seg = "seg_octets f ?ah c"
  have pgi: "uint (octets_per_pgroup f) = int (pg_oct f)" by (simp add: pg_oct_def)
  show ?case
  proof (cases "c_line c < height f \<and> length srds < kMaxSrd \<and> int (pg_oct f) \<le> ?ah")
    case False
    then have "plan_fill f budget c srds = (c, srds)"
      by (subst plan_fill.simps) (auto simp: pgi)
    then show ?thesis using 1 False by (auto simp: fill_ok_def)
  next
    case True
    then have line: "unat (c_line c) < rows f" by (simp add: rows_def word_less_nat_alt)
    have ah: "int (pg_oct f) \<le> ?ah" "?ah \<le> 65535" using True 1(4) by simp_all
    note seg = seg_octets_bounds [OF 1(2,3) line ah]
    have seg_le: "unat ?seg \<le> 65535" using seg(3) ah(2) by linarith
    have seg0: "?seg \<noteq> 0" using seg(1) by auto
    note adv = advance_step [OF 1(2,3) line seg(2,4)]
    note mk = mk_srd_ok [OF 1(2,3) line seg(1,2) seg_le seg(4)]
    let ?c' = "advance f c ?seg" and ?s = "mk_srd f c ?seg"
    let ?b' = "budget - sint (6 + ?seg)"
    have cost: "srd_cost [?s] = sint (6 + ?seg)" using mk(2) by (simp add: seg_cost_int [OF seg_le])
    have range: "srd_range f ?s = [cur_pos f c ..< cur_pos f ?c']"
      by (simp add: srd_range_def mk adv)
    have room: "length srds < kMaxSrd" using True by simp
    have le: "sint (6 + ?seg) \<le> budget" using seg(3) by (simp add: seg_cost_int [OF seg_le])
    have b': "?b' \<le> 65535" using 1(4) by (simp only: seg_cost_int [OF seg_le])
    have step: "plan_fill f budget c srds =
        (if line_aligned f then (?c', srds @ [?s]) else plan_fill f ?b' ?c' (srds @ [?s]))"
      using True seg0 by (subst plan_fill.simps) (simp add: Let_def pgi)
    show ?thesis
    proof (cases "line_aligned f")
      case True
      have "fill_ok f budget c srds ?c' [?s]"
        using True adv mk(1) range cost le room by (auto simp: fill_ok_def)
      with step True show ?thesis by simp
    next
      case False
      have "\<exists>new. snd (plan_fill f ?b' ?c' (srds @ [?s])) = (srds @ [?s]) @ new \<and>
          fill_ok f ?b' ?c' (srds @ [?s]) (fst (plan_fill f ?b' ?c' (srds @ [?s]))) new"
        using 1(1) [of ?ah ?seg "srds @ [?s]" ?b' ?c'] True False seg0 1(2) adv(1) b'
        by (simp add: pgi)
      then obtain new where new: "snd (plan_fill f ?b' ?c' (srds @ [?s])) = (srds @ [?s]) @ new"
        "fill_ok f ?b' ?c' (srds @ [?s]) (fst (plan_fill f ?b' ?c' (srds @ [?s]))) new" by blast
      let ?cf = "fst (plan_fill f ?b' ?c' (srds @ [?s]))"
      have "concat (map (srd_range f) (?s # new)) = [cur_pos f c ..< cur_pos f ?cf]"
        using new(2) adv(2) by (simp add: fill_ok_def range upt_append)
      moreover have "srd_cost (?s # new) \<le> budget"
      proof (cases "new = []")
        case False
        then have "srd_cost new \<le> ?b'" using new(2) by (simp add: fill_ok_def)
        then show ?thesis using cost by simp
      qed (use cost le in simp)
      ultimately have "fill_ok f budget c srds ?cf (?s # new)"
        using new(2) mk(1) adv(2) False room by (auto simp: fill_ok_def kMaxSrd_def)
      with step False new(1) show ?thesis by (intro exI [of _ "?s # new"]) simp
    qed
  qed
qed

definition budget_ok :: "video_format \<Rightarrow> u32 \<Rightarrow> bool" where
  "budget_ok f mp \<longleftrightarrow> 20 + pg_oct f \<le> unat mp \<and> unat mp \<le> 65535"

definition srds_wf :: "video_format \<Rightarrow> u32 \<Rightarrow> srd list \<Rightarrow> u32 \<Rightarrow> bool" where
  "srds_wf f mp srds len \<longleftrightarrow>
     srds \<noteq> [] \<and> length srds \<le> kMaxSrd \<and> (line_aligned f \<longrightarrow> length srds = 1) \<and>
     (\<forall>s\<in>set srds. srd_ok f s) \<and>
     unat len = 14 + 6 * length srds + (\<Sum>s\<leftarrow>srds. unat (srd_length s)) \<and> len \<le> mp"

lemma cur_pos_le: "cur_wf f c \<Longrightarrow> cur_pos f c \<le> frame_oct f"
proof -
  assume "cur_wf f c"
  then consider "unat (c_line c) < rows f" "unat (c_octet c) < line_oct f" | "unat (c_line c) = rows f" "c_octet c = 0"
    by (auto simp: cur_wf_def)
  then show ?thesis
  proof cases
    case 1
    have "cur_pos f c \<le> (unat (c_line c) + 1) * line_oct f" using 1 by (simp add: cur_pos_def)
    also have "\<dots> \<le> rows f * line_oct f" using 1 by (intro mult_le_mono) simp_all
    finally show ?thesis by (simp add: frame_oct_def)
  qed (simp add: cur_pos_def frame_oct_def)
qed

lemma cur_end_iff:
  assumes "fmt_wf f" "cur_wf f c"
  shows "height f \<le> c_line c \<longleftrightarrow> cur_pos f c = frame_oct f"
proof
  assume "height f \<le> c_line c"
  then have "unat (c_line c) = rows f" "c_octet c = 0"
    using assms(2) by (auto simp: cur_wf_def rows_def word_le_nat_alt)
  then show "cur_pos f c = frame_oct f" by (simp add: cur_pos_def frame_oct_def)
next
  assume eq: "cur_pos f c = frame_oct f"
  show "height f \<le> c_line c"
  proof (rule ccontr)
    assume "\<not> height f \<le> c_line c"
    then have "unat (c_line c) < rows f" "unat (c_octet c) < line_oct f"
      using assms(2) by (auto simp: cur_wf_def rows_def word_le_nat_alt)
    then have "cur_pos f c < (unat (c_line c) + 1) * line_oct f" by (simp add: cur_pos_def)
    also have "\<dots> \<le> rows f * line_oct f"
      using \<open>unat (c_line c) < rows f\<close> by (intro mult_le_mono) simp_all
    finally show False using eq by (simp add: frame_oct_def)
  qed
qed

lemma srd_cost_sum: "srd_cost srds = int (6 * length srds + (\<Sum>s\<leftarrow>srds. unat (srd_length s)))"
  by (induction srds) simp_all

lemma unat_srd_data:
  "(\<Sum>s\<leftarrow>srds. unat (srd_length s)) < 2 ^ 32 \<Longrightarrow>
   unat (srd_data srds) = (\<Sum>s\<leftarrow>srds. unat (srd_length s))"
proof (induction srds)
  case (Cons s srds)
  then show ?case by (simp add: srd_data_def unat_add_noov unat_ucast_up)
qed (simp add: srd_data_def)

lemma plan_one_end: "height f \<le> c_line c \<Longrightarrow> plan_one f mp c = None"
  by (simp add: plan_one_def)

lemma plan_one_step:
  assumes wf: "fmt_wf f" and cur: "cur_wf f c" and line: "\<not> height f \<le> c_line c" and mp: "budget_ok f mp"
  obtains c' srds len where "plan_one f mp c = Some (c', srds, len)" "cur_wf f c'"
    "srds_wf f mp srds len" "concat (map (srd_range f) srds) = [cur_pos f c ..< cur_pos f c']"
    "cur_pos f c < cur_pos f c'"
proof -
  let ?b = "sint mp - 12 - 2"
  have mpn: "20 + pg_oct f \<le> unat mp" "unat mp \<le> 65535" using mp by (simp_all add: budget_ok_def)
  then have b: "?b = int (unat mp) - 14" by (subst sint_small_u32) simp_all
  have bi: "?b \<le> 65535" "6 + int (pg_oct f) \<le> ?b" using mpn by (simp_all only: b)
  obtain c' new where fill: "plan_fill f ?b c [] = (c', new)" "fill_ok f ?b c [] c' new"
    using plan_fill_ok [OF wf cur bi(1), of "[]"] by (metis append_Nil prod.collapse)
  let ?d = "\<Sum>s\<leftarrow>new. unat (srd_length s)"
  let ?len = "12 + 2 + 6 * of_nat (length new) + srd_data new :: u32"
  have new: "new \<noteq> []" using fill(2) line bi(2) by (auto simp: fill_ok_def kMaxSrd_def)
  then have "srd_cost new \<le> ?b" using fill(2) by (simp add: fill_ok_def)
  then have "int (6 * length new + ?d) \<le> int (unat mp) - 14" by (simp only: srd_cost_sum b)
  then have cost: "6 * length new + ?d + 14 \<le> unat mp" by linarith
  have n3: "length new \<le> 3" using fill(2) by (simp add: fill_ok_def kMaxSrd_def)
  have "unat (of_nat (length new) :: u32) = length new"
    using n3 by (simp add: unat_of_nat)
  then have six: "unat (6 * of_nat (length new) :: u32) = 6 * length new"
    using n3 by (subst unat_mult_noov) simp_all
  have "unat (12 + 2 + 6 * of_nat (length new) :: u32) = 14 + 6 * length new"
    using n3 by (subst unat_add_noov) (simp_all add: six)
  then have len: "unat ?len = 14 + 6 * length new + ?d"
    using cost mpn by (subst unat_add_noov) (simp_all add: unat_srd_data)
  have wfs: "srds_wf f mp new ?len"
    using fill(2) new n3 cost len
    by (auto simp: srds_wf_def fill_ok_def kMaxSrd_def word_le_nat_alt length_greater_0_conv
        le_antisym Suc_leI)
  have range: "concat (map (srd_range f) new) = [cur_pos f c ..< cur_pos f c']"
    using fill(2) by (simp add: fill_ok_def)
  moreover have "cur_pos f c < cur_pos f c'"
  proof -
    have "concat (map (srd_range f) new) \<noteq> []"
      using new wfs by (cases new) (auto simp: srds_wf_def srd_ok_def srd_range_def)
    then show ?thesis using range by (metis upt_conv_Nil not_le)
  qed
  moreover have "plan_one f mp c = Some (c', new, ?len)"
    using line new fill(1) by (simp add: plan_one_def)
  ultimately show thesis using that wfs fill(2) by (auto simp: fill_ok_def)
qed

section \<open>A whole frame\<close>

text \<open>The emit loop of the sender: \<open>while (next(plan))\<close>, collecting the plans.\<close>

partial_function (option) pk_drain :: "packetizer \<Rightarrow> (packet_plan list \<times> packetizer) option" where
  "pk_drain pk =
     (case pk_next pk of
        (None, pk') \<Rightarrow> Some ([], pk')
      | (Some p, pk') \<Rightarrow> do { (ps, pk'') \<leftarrow> pk_drain pk'; Some (p # ps, pk'') })"

definition pk_cursor :: "packetizer \<Rightarrow> cursor" where
  "pk_cursor pk = \<lparr>c_line = pk_cur_line pk, c_octet = pk_cur_octet pk\<rparr>"

definition plan_ranges :: "video_format \<Rightarrow> packet_plan list \<Rightarrow> nat list" where
  "plan_ranges f ps = concat (map (srd_range f) (concat (map pp_srd ps)))"

definition walk_ok :: "packetizer \<Rightarrow> packet_plan list \<Rightarrow> packetizer \<Rightarrow> bool" where
  "walk_ok pk ps pk' \<longleftrightarrow>
     ps \<noteq> [] \<and> plan_ranges (pk_fmt pk) ps = [cur_pos (pk_fmt pk) (pk_cursor pk) ..< frame_oct (pk_fmt pk)] \<and>
     (\<forall>i<length ps. pp_sequence (ps ! i) = pk_seq pk + of_nat i \<and>
        pp_rtp_timestamp (ps ! i) = pk_rtp_ts pk \<and> (pp_marker (ps ! i) \<longleftrightarrow> i + 1 = length ps) \<and>
        srds_wf (pk_fmt pk) (pk_max_payload pk) (pp_srd (ps ! i)) (pp_payload_len (ps ! i))) \<and>
     \<not> pk_active pk' \<and> pk_seq pk' = pk_seq pk + of_nat (length ps) \<and>
     pk_fmt pk' = pk_fmt pk \<and> pk_max_payload pk' = pk_max_payload pk \<and>
     pk_pt pk' = pk_pt pk \<and> pk_ssrc pk' = pk_ssrc pk"

lemma pk_drain_inactive: "\<not> pk_active pk \<Longrightarrow> pk_drain pk = Some ([], pk)"
  by (subst pk_drain.simps) (simp add: pk_next_def)

lemma pk_next_step:
  assumes "fmt_wf (pk_fmt pk)" "budget_ok (pk_fmt pk) (pk_max_payload pk)" "pk_active pk"
    and "cur_wf (pk_fmt pk) (pk_cursor pk)" "cur_pos (pk_fmt pk) (pk_cursor pk) < frame_oct (pk_fmt pk)"
  obtains p pk' where "pk_next pk = (Some p, pk')" "cur_wf (pk_fmt pk) (pk_cursor pk')"
    "pp_sequence p = pk_seq pk" "pp_rtp_timestamp p = pk_rtp_ts pk"
    "srds_wf (pk_fmt pk) (pk_max_payload pk) (pp_srd p) (pp_payload_len p)"
    "concat (map (srd_range (pk_fmt pk)) (pp_srd p)) =
       [cur_pos (pk_fmt pk) (pk_cursor pk) ..< cur_pos (pk_fmt pk) (pk_cursor pk')]"
    "cur_pos (pk_fmt pk) (pk_cursor pk) < cur_pos (pk_fmt pk) (pk_cursor pk')"
    "pp_marker p \<longleftrightarrow> cur_pos (pk_fmt pk) (pk_cursor pk') = frame_oct (pk_fmt pk)"
    "pk_active pk' \<longleftrightarrow> \<not> pp_marker p" "pk_seq pk' = pk_seq pk + 1"
    "pk_fmt pk' = pk_fmt pk" "pk_max_payload pk' = pk_max_payload pk" "pk_rtp_ts pk' = pk_rtp_ts pk"
    "pk_pt pk' = pk_pt pk" "pk_ssrc pk' = pk_ssrc pk"
proof -
  let ?f = "pk_fmt pk"
  have line: "\<not> height ?f \<le> c_line (pk_cursor pk)"
    using cur_end_iff [OF assms(1,4)] assms(5) by simp
  obtain c' srds len where one: "plan_one ?f (pk_max_payload pk) (pk_cursor pk) = Some (c', srds, len)"
    "cur_wf ?f c'" "srds_wf ?f (pk_max_payload pk) srds len"
    "concat (map (srd_range ?f) srds) = [cur_pos ?f (pk_cursor pk) ..< cur_pos ?f c']"
    "cur_pos ?f (pk_cursor pk) < cur_pos ?f c'"
    by (rule plan_one_step [OF assms(1,4) line assms(2)])
  define p where "p = \<lparr>pp_sequence = pk_seq pk, pp_rtp_timestamp = pk_rtp_ts pk,
    pp_marker = (c_line c' \<ge> height ?f), pp_payload_len = len, pp_srd = srds\<rparr>"
  define pk' where "pk' = pk\<lparr>pk_seq := pk_seq pk + 1, pk_cur_line := c_line c',
    pk_cur_octet := c_octet c', pk_active := \<not> (c_line c' \<ge> height ?f)\<rparr>"
  have nx: "pk_next pk = (Some p, pk')"
    using one(1) assms(3) by (simp add: pk_next_def p_def pk'_def pk_cursor_def Let_def)
  have cur: "pk_cursor pk' = c'" by (simp add: pk_cursor_def pk'_def)
  show thesis
    using nx one(2-5) cur_end_iff [OF assms(1) one(2)] by (intro that [of p pk'])
      (simp_all only: cur, simp_all add: p_def pk'_def)
qed

lemma pk_drain_ok:
  assumes "fmt_wf (pk_fmt pk)" "budget_ok (pk_fmt pk) (pk_max_payload pk)" "pk_active pk"
    and "cur_wf (pk_fmt pk) (pk_cursor pk)" "cur_pos (pk_fmt pk) (pk_cursor pk) < frame_oct (pk_fmt pk)"
  shows "\<exists>ps pk'. pk_drain pk = Some (ps, pk') \<and> walk_ok pk ps pk'"
  using assms
proof (induction "frame_oct (pk_fmt pk) - cur_pos (pk_fmt pk) (pk_cursor pk)" arbitrary: pk rule: less_induct)
  case less
  let ?f = "pk_fmt pk"
  obtain p pk1 where nx: "pk_next pk = (Some p, pk1)" "cur_wf ?f (pk_cursor pk1)"
    "pp_sequence p = pk_seq pk" "pp_rtp_timestamp p = pk_rtp_ts pk"
    "srds_wf ?f (pk_max_payload pk) (pp_srd p) (pp_payload_len p)"
    "concat (map (srd_range ?f) (pp_srd p)) = [cur_pos ?f (pk_cursor pk) ..< cur_pos ?f (pk_cursor pk1)]"
    "cur_pos ?f (pk_cursor pk) < cur_pos ?f (pk_cursor pk1)"
    "pp_marker p \<longleftrightarrow> cur_pos ?f (pk_cursor pk1) = frame_oct ?f"
    "pk_active pk1 \<longleftrightarrow> \<not> pp_marker p" "pk_seq pk1 = pk_seq pk + 1"
    and keep: "pk_fmt pk1 = pk_fmt pk" "pk_max_payload pk1 = pk_max_payload pk" "pk_rtp_ts pk1 = pk_rtp_ts pk"
    "pk_pt pk1 = pk_pt pk" "pk_ssrc pk1 = pk_ssrc pk"
    by (rule pk_next_step [OF less(2-6)])
  show ?case
  proof (cases "pp_marker p")
    case True
    then have "pk_drain pk = Some ([p], pk1)"
      using nx(1,9) by (subst pk_drain.simps) (simp add: pk_drain_inactive)
    moreover have "walk_ok pk [p] pk1"
      using nx True keep by (simp add: walk_ok_def plan_ranges_def)
    ultimately show ?thesis by blast
  next
    case False
    then have pos: "cur_pos ?f (pk_cursor pk1) < frame_oct ?f"
      using nx(8) cur_pos_le [OF nx(2)] by simp
    have "\<exists>ps pk'. pk_drain pk1 = Some (ps, pk') \<and> walk_ok pk1 ps pk'"
      using nx False less(2,3) pos keep by (intro less(1)) (simp_all add: keep)
    then obtain ps pk' where rec: "pk_drain pk1 = Some (ps, pk')" "walk_ok pk1 ps pk'" by blast
    then have "pk_drain pk = Some (p # ps, pk')"
      using nx(1) by (subst pk_drain.simps) simp
    moreover have "walk_ok pk (p # ps) pk'"
    proof -
      have "plan_ranges ?f (p # ps) = [cur_pos ?f (pk_cursor pk) ..< frame_oct ?f]"
        using rec(2) nx(6,7) pos by (simp add: walk_ok_def plan_ranges_def keep upt_append)
      then show ?thesis
        using rec(2) nx(3-5) False unfolding walk_ok_def
        by (auto simp: keep nx(10) nth_Cons split: nat.splits)
    qed
    ultimately show ?thesis by blast
  qed
qed

lemma start_frame_drain:
  assumes "fmt_wf (pk_fmt pk)" "budget_ok (pk_fmt pk) (pk_max_payload pk)"
  shows "\<exists>ps pk'. pk_drain (start_frame ts pk) = Some (ps, pk') \<and> walk_ok (start_frame ts pk) ps pk'"
    and "cur_pos (pk_fmt pk) (pk_cursor (start_frame ts pk)) = 0"
proof -
  let ?pk = "start_frame ts pk"
  have cur: "pk_cursor ?pk = \<lparr>c_line = 0, c_octet = 0\<rparr>" by (simp add: pk_cursor_def start_frame_def)
  show pos: "cur_pos (pk_fmt pk) (pk_cursor ?pk) = 0" by (simp add: cur cur_pos_def)
  have "0 < frame_oct (pk_fmt pk)"
    using rows_bounds(1) [OF assms(1)] line_oct_bounds(2) [OF assms(1)] by (simp add: frame_oct_def)
  moreover have "cur_wf (pk_fmt pk) (pk_cursor ?pk)"
    using rows_bounds(1) [OF assms(1)] line_oct_bounds(2) [OF assms(1)] by (simp add: cur cur_wf_def)
  ultimately show "\<exists>ps pk'. pk_drain ?pk = Some (ps, pk') \<and> walk_ok ?pk ps pk'"
    using assms pos by (intro pk_drain_ok) (simp_all add: start_frame_def)
qed

section \<open>Receive side: parse and scatter\<close>

record rx_packet_info =
  ri_sequence :: u32
  ri_rtp_timestamp :: u32
  ri_marker :: bool
  ri_data_offset :: nat
  ri_srd :: "srd list"

text \<open>The header loop of \<open>parse\<close>: \<open>None\<close> is an access outside the buffer, \<open>Some None\<close> is
  \<open>return false\<close>.  \<open>off\<close> stays below 33, far from the 32-bit wrap.\<close>

function parse_srds :: "bytes \<Rightarrow> nat \<Rightarrow> nat \<Rightarrow> srd list \<Rightarrow> (nat \<times> srd list) option option" where
  "parse_srds p len off srds =
     (if off + 6 > len then Some None
      else if kMaxSrd \<le> length srds then Some None
      else do {
        h \<leftarrow> mem_read p off 6;
        let f3 = rd16 (h ! 4) (h ! 5);
        let s = \<lparr>srd_length = rd16 (h ! 0) (h ! 1), srd_line_no = rd16 (h ! 2) (h ! 3) AND 0x7fff,
                 srd_offset_pixels = f3 AND 0x7fff\<rparr>;
        if f3 AND 0x8000 = 0 then Some (Some (off + 6, srds @ [s]))
        else parse_srds p len (off + 6) (srds @ [s])
      })"
  by pat_completeness auto
termination by (relation "measure (\<lambda>(p, len, off, srds). kMaxSrd - length srds)") auto

declare parse_srds.simps [simp del]

definition srd_in_frame :: "video_format \<Rightarrow> srd \<Rightarrow> bool" where
  "srd_in_frame f s \<longleftrightarrow>
     ucast (srd_length s) mod octets_per_pgroup f = 0 \<and> ucast (srd_line_no s) < height f \<and>
     byte_offset f (ucast (srd_line_no s)) (ucast (srd_offset_pixels s)) + ucast (srd_length s)
       \<le> octets_per_frame f"

definition parse :: "video_format \<Rightarrow> bytes \<Rightarrow> nat \<Rightarrow> rx_packet_info option option" where
  "parse f p len =
     (if len < 12 + 2 + 6 then Some None
      else do {
        h \<leftarrow> mem_read p 0 14;
        if h ! 0 AND 0xC0 \<noteq> 0x80 then Some None
        else do {
          let marker = (h ! 1 AND 0x80 \<noteq> 0);
          let seq_lo = rd16 (h ! 2) (h ! 3);
          let ts = rd32 (h ! 4) (h ! 5) (h ! 6) (h ! 7);
          let esn = rd16 (h ! 12) (h ! 13);
          let sequence = push_bit 16 (ucast esn) OR ucast seq_lo;
          r \<leftarrow> parse_srds p len 14 [];
          Some (case r of
              None \<Rightarrow> None
            | Some (off, srds) \<Rightarrow>
                if list_all (srd_in_frame f) srds \<and>
                   off + (\<Sum>s\<leftarrow>srds. unat (srd_length s)) \<le> len
                then Some \<lparr>ri_sequence = sequence, ri_rtp_timestamp = ts, ri_marker = marker,
                           ri_data_offset = off, ri_srd = srds\<rparr>
                else None)
        }
      })"

fun scatter_srds :: "video_format \<Rightarrow> srd list \<Rightarrow> nat \<Rightarrow> bytes \<Rightarrow> bytes \<Rightarrow> bytes option" where
  "scatter_srds f [] off p frame = Some frame"
| "scatter_srds f (s # rest) off p frame = do {
     px \<leftarrow> mem_read p off (unat (srd_length s));
     frame' \<leftarrow> mem_write frame (srd_base f s) px;
     scatter_srds f rest (off + unat (srd_length s)) p frame'
   }"

definition scatter :: "video_format \<Rightarrow> rx_packet_info \<Rightarrow> bytes \<Rightarrow> bytes \<Rightarrow> bytes option" where
  "scatter f info p frame = scatter_srds f (ri_srd info) (ri_data_offset info) p frame"

section \<open>Safety of parse and scatter against any input\<close>

lemma parse_srds_total:
  "len \<le> length p \<Longrightarrow> \<exists>r. parse_srds p len off srds = Some r"
proof (induction p len off srds rule: parse_srds.induct)
  case (1 p len off srds)
  show ?case
  proof (cases "off + 6 > len \<or> kMaxSrd \<le> length srds")
    case True
    then show ?thesis by (subst parse_srds.simps) auto
  next
    case False
    then have "mem_read p off 6 = Some (take 6 (drop off p))"
      using 1(2) by (simp add: mem_read_Some)
    with False show ?thesis
      using 1(1) [OF _ _ \<open>mem_read p off 6 = _\<close> refl refl] 1(2)
      by (subst parse_srds.simps) (auto simp: Let_def)
  qed
qed

lemma parse_srds_15bit:
  "parse_srds p len off srds = Some (Some (off', srds')) \<Longrightarrow>
   \<forall>s\<in>set srds. unat (srd_line_no s) < 32768 \<and> unat (srd_offset_pixels s) < 32768 \<Longrightarrow>
   \<forall>s\<in>set srds'. unat (srd_line_no s) < 32768 \<and> unat (srd_offset_pixels s) < 32768"
proof (induction p len off srds rule: parse_srds.induct)
  case (1 p len off srds)
  have m: "unat (w AND 0x7fff :: u16) < 32768" for w :: u16
    using unat_and_mask [of w 15] by (simp add: mask_eq_exp_minus_1)
  from 1(2) obtain h where room: "\<not> off + 6 > len" "\<not> kMaxSrd \<le> length srds" and h: "mem_read p off 6 = Some h"
    by (subst (asm) parse_srds.simps) (auto split: if_splits bind_splits)
  let ?s = "\<lparr>srd_length = rd16 (h ! 0) (h ! 1), srd_line_no = rd16 (h ! 2) (h ! 3) AND 0x7fff,
                 srd_offset_pixels = rd16 (h ! 4) (h ! 5) AND 0x7fff\<rparr>"
  have ok: "\<forall>s\<in>set (srds @ [?s]). unat (srd_line_no s) < 32768 \<and> unat (srd_offset_pixels s) < 32768"
    using 1(3) m by auto
  have eq: "parse_srds p len off srds = (if rd16 (h ! 4) (h ! 5) AND 0x8000 = 0
      then Some (Some (off + 6, srds @ [?s])) else parse_srds p len (off + 6) (srds @ [?s]))"
    using room h by (subst parse_srds.simps) (simp add: Let_def)
  show ?case
  proof (cases "rd16 (h ! 4) (h ! 5) AND 0x8000 = 0")
    case True
    then show ?thesis using eq 1(2) ok by auto
  next
    case False
    then show ?thesis using eq 1(1) [OF room h refl refl False] 1(2) ok by simp
  qed
qed

lemma srd_in_frame_bound:
  assumes "srd_in_frame f s" "unat (srd_line_no s) < 32768" "unat (srd_offset_pixels s) < 32768"
  shows "srd_base f s + unat (srd_length s) \<le> frame_oct f"
proof -
  let ?b = "byte_offset f (ucast (srd_line_no s)) (ucast (srd_offset_pixels s))"
  have base: "unat ?b = unat (srd_line_no s) * line_oct f + unat (srd_offset_pixels s) div 2 * pg_oct f"
    using assms(2,3) by (subst unat_byte_offset) (simp_all add: unat_ucast_up)
  have "unat (srd_line_no s) * line_oct f \<le> 32768 * 4294967295"
    using assms(2) by (intro mult_le_mono) (simp_all add: line_oct_def)
  moreover have "unat (srd_offset_pixels s) div 2 * pg_oct f \<le> 32768 * 5"
    using assms(3) pg_oct_le [of f] by (intro mult_le_mono) simp_all
  ultimately have "unat (?b + ucast (srd_length s)) = unat ?b + unat (srd_length s)"
    using unat_u16_less [of "srd_length s"]
    by (subst unat_add_noov) (simp_all add: base unat_ucast_up del: unat_u16_less)
  then show ?thesis
    using assms(1) by (simp add: srd_in_frame_def word_le_nat_alt unat_octets_per_frame srd_base_def)
qed

lemma scatter_srds_total:
  "\<forall>s\<in>set srds. srd_base f s + unat (srd_length s) \<le> length frame \<Longrightarrow>
   off + (\<Sum>s\<leftarrow>srds. unat (srd_length s)) \<le> length p \<Longrightarrow>
   \<exists>frame'. scatter_srds f srds off p frame = Some frame' \<and> length frame' = length frame"
proof (induction srds arbitrary: off frame)
  case (Cons s srds)
  let ?px = "take (unat (srd_length s)) (drop off p)"
  have px: "mem_read p off (unat (srd_length s)) = Some ?px" "length ?px = unat (srd_length s)"
    using Cons.prems(2) by (simp_all add: mem_read_Some)
  obtain fr where fr: "mem_write frame (srd_base f s) ?px = Some fr"
    using mem_write_Some_ex [of "srd_base f s" ?px frame] Cons.prems(1) px(2) by auto
  have "\<exists>frame'. scatter_srds f srds (off + unat (srd_length s)) p fr = Some frame' \<and> length frame' = length fr"
    using Cons.prems length_mem_write [OF fr] by (intro Cons.IH) simp_all
  then show ?case using px fr length_mem_write [OF fr] by auto
qed simp

lemma parse_accepts:
  assumes "parse f p len = Some (Some info)"
  shows "\<forall>s\<in>set (ri_srd info). srd_base f s + unat (srd_length s) \<le> frame_oct f"
    and "ri_data_offset info + (\<Sum>s\<leftarrow>ri_srd info. unat (srd_length s)) \<le> len"
proof -
  obtain off srds where r: "parse_srds p len 14 [] = Some (Some (off, srds))"
    "list_all (srd_in_frame f) srds" "off + (\<Sum>s\<leftarrow>srds. unat (srd_length s)) \<le> len"
    "ri_data_offset info = off" "ri_srd info = srds"
    using assms by (auto simp: parse_def Let_def split: if_splits bind_splits option.splits)
  have "\<forall>s\<in>set srds. unat (srd_line_no s) < 32768 \<and> unat (srd_offset_pixels s) < 32768"
    by (rule parse_srds_15bit [OF r(1)]) simp
  then show "\<forall>s\<in>set (ri_srd info). srd_base f s + unat (srd_length s) \<le> frame_oct f"
    using r(2,5) by (auto simp: list_all_iff intro: srd_in_frame_bound)
  show "ri_data_offset info + (\<Sum>s\<leftarrow>ri_srd info. unat (srd_length s)) \<le> len"
    using r(3-5) by simp
qed

lemma parse_total: "len \<le> length p \<Longrightarrow> \<exists>r. parse f p len = Some r"
proof (cases "len < 20")
  case False
  assume le: "len \<le> length p"
  obtain r where "parse_srds p len 14 [] = Some r" using parse_srds_total [OF le] by blast
  then show ?thesis using False le by (simp add: parse_def Let_def mem_read_Some)
qed (simp add: parse_def)

lemma scatter_accepted:
  assumes "parse f p len = Some (Some info)" "len \<le> length p'" "length frame = frame_oct f"
  shows "\<exists>frame'. scatter f info p' frame = Some frame' \<and> length frame' = length frame"
  using parse_accepts [OF assms(1)] assms(2,3)
    scatter_srds_total [of "ri_srd info" f frame "ri_data_offset info" p']
  by (simp add: scatter_def)

text \<open>C3 - Defensive against the open wire: for any format and any received bytes, with a claimed
  length no larger than the buffer, \<open>parse\<close> reads only inside the buffer; and whatever it accepts,
  \<open>scatter\<close> reads only inside the claimed length and writes only inside a frame buffer of
  \<open>octets_per_frame\<close> bytes.\<close>
theorem depacketizer_memory_safe:
  assumes "len \<le> length p" "length frame = unat (octets_per_frame f)"
  shows "\<exists>r. parse f p len = Some r \<and>
    (\<forall>info. r = Some info \<longrightarrow>
       (\<exists>frame'. scatter f info (take len p) frame = Some frame' \<and> length frame' = length frame))"
proof -
  obtain r where r: "parse f p len = Some r" using parse_total [OF assms(1)] by blast
  then show ?thesis
    using scatter_accepted [of f p len _ "take len p" frame] assms by (auto simp: unat_octets_per_frame)
qed

theorem depacketizer_memory_safe_witness:
  "\<exists>r. parse profile_1080p (replicate 40 0x80) 40 = Some r"
  using depacketizer_memory_safe
    [of 40 "replicate 40 0x80" "replicate (unat (octets_per_frame profile_1080p)) 0" profile_1080p]
  by auto

section \<open>Round trip\<close>

lemma and_7fff: "unat (w :: u16) < 32768 \<Longrightarrow> w AND 0x7fff = w"
proof -
  assume "unat w < 32768"
  then have "unat (w AND mask 15) = unat w" by (simp add: unat_and_mask)
  then show ?thesis by (simp only: word_unat_eq_iff) (simp add: mask_eq_exp_minus_1)
qed

lemma cont_field:
  fixes w :: u16
  assumes "unat w < 32768"
  shows "((if c then 0x8000 else 0) OR (w AND 0x7fff)) AND 0x7fff = w"
    "((if c then 0x8000 else 0) OR (w AND 0x7fff)) AND 0x8000 = 0 \<longleftrightarrow> \<not> c"
proof -
  have "((if c then 0x8000 else 0) OR (w AND 0x7fff)) AND 0x7fff = w AND 0x7fff"
    by (simp add: word_ao_dist and.assoc)
  then show "((if c then 0x8000 else 0) OR (w AND 0x7fff)) AND 0x7fff = w"
    by (simp add: and_7fff [OF assms])
  have "((if c then 0x8000 else 0) OR (w AND 0x7fff)) AND 0x8000 = (if c then 0x8000 else 0)"
    by (simp add: word_ao_dist and.assoc)
  then show "((if c then 0x8000 else 0) OR (w AND 0x7fff)) AND 0x8000 = 0 \<longleftrightarrow> \<not> c"
    by simp
qed

lemma length_srd_headers [simp]: "length (srd_headers srds) = 6 * length srds"
  by (induction srds) simp_all

lemma parse_srd_headers:
  assumes "p = pre @ srd_headers srds @ post" "length pre = off" "off + 6 * length srds \<le> len"
    "length acc + length srds \<le> kMaxSrd" "srds \<noteq> []"
    "\<forall>s\<in>set srds. unat (srd_line_no s) < 32768 \<and> unat (srd_offset_pixels s) < 32768"
  shows "parse_srds p len off acc = Some (Some (off + 6 * length srds, acc @ srds))"
  using assms
proof (induction srds arbitrary: pre off acc)
  case (Cons s rest)
  define h where "h = be16 (srd_length s) @ be16 (srd_line_no s AND 0x7fff) @
    be16 ((if rest \<noteq> [] then 0x8000 else 0x0000) OR (srd_offset_pixels s AND 0x7fff))"
  have p: "p = pre @ h @ srd_headers rest @ post" and h6: "length h = 6"
    using Cons.prems(1) by (simp_all add: h_def)
  have read: "mem_read p off 6 = Some h"
    using Cons.prems(2) h6 by (simp add: mem_read_Some p)
  have s: "rd16 (h ! 0) (h ! 1) = srd_length s" "rd16 (h ! 2) (h ! 3) AND 0x7fff = srd_line_no s"
    "rd16 (h ! 4) (h ! 5) AND 0x7fff = srd_offset_pixels s"
    "rd16 (h ! 4) (h ! 5) AND 0x8000 = 0 \<longleftrightarrow> rest = []"
    using Cons.prems(6) cont_field [of "srd_offset_pixels s" "rest \<noteq> []"]
    by (simp_all add: h_def nth_append and_7fff del: if_not_P)
  have rec: "\<lparr>srd_length = rd16 (h ! 0) (h ! 1), srd_line_no = rd16 (h ! 2) (h ! 3) AND 0x7fff,
      srd_offset_pixels = rd16 (h ! 4) (h ! 5) AND 0x7fff\<rparr> = s"
    using s(1-3) by simp
  have step: "parse_srds p len off acc = (if rest = [] then Some (Some (off + 6, acc @ [s]))
      else parse_srds p len (off + 6) (acc @ [s]))"
    using Cons.prems(3,4) read by (subst parse_srds.simps) (simp only: Let_def s(4) rec bind.bind_lunit, simp)
  show ?case
  proof (cases "rest = []")
    case False
    have "parse_srds p len (off + 6) (acc @ [s]) = Some (Some (off + 6 + 6 * length rest, (acc @ [s]) @ rest))"
      using Cons.prems False h6 p by (intro Cons.IH [of "pre @ h"]) simp_all
    then show ?thesis using step False by (simp add: add.assoc)
  qed (use step in simp)
qed simp

lemma srd_pixels_total:
  "\<forall>s\<in>set srds. srd_base f s + unat (srd_length s) \<le> length src \<Longrightarrow>
   \<exists>px. srd_pixels f srds src = Some px \<and> length px = (\<Sum>s\<leftarrow>srds. unat (srd_length s))"
  by (induction srds) (auto simp: mem_read_Some)

lemma scatter_srds_effect:
  assumes "srd_pixels f srds src = Some px" "drop off p = px @ post"
    and "\<forall>s\<in>set srds. srd_base f s + unat (srd_length s) \<le> length frame" "length src = length frame"
    and "off \<le> length p"
  shows "\<exists>frame'. scatter_srds f srds off p frame = Some frame' \<and> length frame' = length frame \<and>
    (\<forall>i<length frame. frame' ! i =
       (if i \<in> set (concat (map (srd_range f) srds)) then src ! i else frame ! i))"
  using assms
proof (induction srds arbitrary: off frame px)
  case (Cons s rest)
  let ?n = "unat (srd_length s)"
  obtain a b where px: "mem_read src (srd_base f s) ?n = Some a" "srd_pixels f rest src = Some b" "px = a @ b"
    using Cons.prems(1) by (auto split: bind_splits)
  have a: "length a = ?n" "a = take ?n (drop (srd_base f s) src)"
    using px(1) by (auto simp: mem_read_def split: if_splits)
  have "length (drop off p) = length a + length b + length post"
    using Cons.prems(2) px(3) by simp
  then have off: "off + ?n \<le> length p" using Cons.prems(5) a(1) by simp
  have read: "mem_read p off ?n = Some a"
    using off Cons.prems(2) px(3) a(1) by (simp add: mem_read_Some)
  obtain fr where fr: "mem_write frame (srd_base f s) a = Some fr"
    using mem_write_Some_ex [of "srd_base f s" a frame] Cons.prems(3) a(1) by auto
  have len: "length fr = length frame" by (rule length_mem_write [OF fr])
  have "drop (off + ?n) p = drop ?n (drop off p)" by (simp add: add.commute)
  also have "\<dots> = b @ post" using Cons.prems(2) px(3) a(1) by simp
  finally have tail: "drop (off + ?n) p = b @ post" .
  obtain fin where fin: "scatter_srds f rest (off + ?n) p fr = Some fin" "length fin = length fr"
    "\<forall>i<length fr. fin ! i = (if i \<in> set (concat (map (srd_range f) rest)) then src ! i else fr ! i)"
    using Cons.IH [OF px(2) tail, of fr] Cons.prems(3,4) len off by auto
  have "fr ! i = (if i \<in> set (srd_range f s) then src ! i else frame ! i)" if "i < length frame" for i
    using mem_write_nth [OF fr that] that a Cons.prems(3,4) by (auto simp: srd_range_def)
  then show ?case using read fr fin len by auto
qed simp

lemma plan_bytes:
  assumes "srds_wf (pk_fmt pk) mp (pp_srd p) (pp_payload_len p)" "length src = frame_oct (pk_fmt pk)"
  obtains px where "srd_pixels (pk_fmt pk) (pp_srd p) src = Some px"
    "length px = (\<Sum>s\<leftarrow>pp_srd p. unat (srd_length s))"
    "unat (pp_payload_len p) = 14 + 6 * length (pp_srd p) + length px"
  using srd_pixels_total [of "pp_srd p" "pk_fmt pk" src] assms
  by (auto simp: srds_wf_def srd_ok_def)

lemma seq_join:
  fixes s :: u32
  shows "push_bit 16 (ucast (ucast (drop_bit 16 s) :: u16)) OR ucast (ucast (s AND 0xffff) :: u16) = s"
proof -
  have m: "(0xffff :: u32) = mask 16" by (simp add: mask_eq_exp_minus_1)
  show ?thesis
  proof (unfold m, rule bit_word_eqI)
    fix n assume "n < LENGTH(32)"
    then show "bit (push_bit 16 (ucast (ucast (drop_bit 16 s) :: u16) :: u32) OR
        ucast (ucast (s AND mask 16) :: u16)) n = bit s n"
      by (cases "n < 16") (auto simp: bit_simps)
  qed
qed

lemma srd_ok_in_frame:
  assumes "fmt_wf f" "srd_ok f s"
  shows "srd_in_frame f s"
proof -
  have pg: "unat (ucast (srd_length s) mod octets_per_pgroup f) = 0"
    using assms(2) by (simp add: unat_mod unat_ucast_up srd_ok_def flip: pg_oct_def)
  have fr: "frame_oct f \<le> 32768 * 81920"
    using rows_bounds(2) [OF assms(1)] line_oct_bounds(3) [OF assms(1)]
      mult_le_mono [of "rows f" 32768 "line_oct f" 81920]
    by (simp add: frame_oct_def)
  let ?b = "byte_offset f (ucast (srd_line_no s)) (ucast (srd_offset_pixels s))"
  have "unat ?b + unat (srd_length s) \<le> frame_oct f"
    using assms(2) by (simp add: srd_ok_def srd_base_def)
  then have "unat (?b + ucast (srd_length s)) \<le> frame_oct f"
    using fr by (subst unat_add_noov) (simp_all add: unat_ucast_up)
  then show ?thesis
    using pg assms(2) by (simp add: srd_in_frame_def unat_eq_zero word_le_nat_alt word_less_nat_alt
        unat_octets_per_frame unat_ucast_up srd_ok_def rows_def)
qed

lemma write_parse:
  assumes wf: "fmt_wf (pk_fmt pk)"
    and plan: "srds_wf (pk_fmt pk) mp (pp_srd p) (pp_payload_len p)"
    and src: "length src = frame_oct (pk_fmt pk)"
    and cap: "unat (pp_payload_len p) \<le> length dst"
  obtains d px where "write_payload pk p src dst = Some d" "length d = length dst"
    "srd_pixels (pk_fmt pk) (pp_srd p) src = Some px"
    "parse (pk_fmt pk) d (unat (pp_payload_len p)) = Some (Some
       \<lparr>ri_sequence = pp_sequence p, ri_rtp_timestamp = pp_rtp_timestamp p, ri_marker = pp_marker p,
        ri_data_offset = 14 + 6 * length (pp_srd p), ri_srd = pp_srd p\<rparr>)"
    "drop (14 + 6 * length (pp_srd p)) d = px @ drop (unat (pp_payload_len p)) dst"
proof -
  let ?f = "pk_fmt pk"
  obtain px where px: "srd_pixels ?f (pp_srd p) src = Some px"
    "length px = (\<Sum>s\<leftarrow>pp_srd p. unat (srd_length s))"
    "unat (pp_payload_len p) = 14 + 6 * length (pp_srd p) + length px"
    by (rule plan_bytes [OF plan src])
  define h where "h = rtp_header pk p @ be16 (ucast (drop_bit 16 (pp_sequence p)))"
  define rest where "rest = drop (unat (pp_payload_len p)) dst"
  define d where "d = h @ srd_headers (pp_srd p) @ px @ rest"
  have h: "length h = 14" by (simp add: h_def rtp_header_def)
  have wr: "write_payload pk p src dst = Some d"
    using cap px h by (simp add: write_payload_def mem_write_def d_def rest_def h_def add.assoc)
  have len: "length d = length dst" using cap px h by (simp add: d_def rest_def)
  have n: "length (pp_srd p) \<le> kMaxSrd" "pp_srd p \<noteq> []" "\<forall>s\<in>set (pp_srd p). srd_ok ?f s"
    using plan by (simp_all add: srds_wf_def)
  have srds: "parse_srds d (unat (pp_payload_len p)) 14 [] =
      Some (Some (14 + 6 * length (pp_srd p), [] @ pp_srd p))"
    using n h px(3) by (intro parse_srd_headers [of d h]) (auto simp: d_def srd_ok_def)
  have hd: "mem_read d 0 14 = Some h" using h by (simp add: mem_read_Some d_def)
  have b0: "h ! 0 AND 0xC0 = 0x80" by (simp add: h_def rtp_header_def)
  have b1: "h ! Suc 0 AND 0x80 \<noteq> 0 \<longleftrightarrow> pp_marker p"
    by (simp add: h_def rtp_header_def word_ao_dist and.assoc)
  have seq: "push_bit 16 (ucast (rd16 (h ! 12) (h ! 13))) OR ucast (rd16 (h ! 2) (h ! 3)) = pp_sequence p"
  proof -
    have "rd16 (h ! 12) (h ! 13) = ucast (drop_bit 16 (pp_sequence p))"
      "rd16 (h ! 2) (h ! 3) = ucast (pp_sequence p AND 0xffff)"
      by (simp_all add: h_def rtp_header_def nth_append)
    then show ?thesis by (simp only: seq_join)
  qed
  have ts: "rd32 (h ! 4) (h ! 5) (h ! 6) (h ! 7) = pp_rtp_timestamp p"
    by (simp add: h_def rtp_header_def nth_append)
  have "20 \<le> unat (pp_payload_len p)" using px(3) n(2) by (cases "pp_srd p") simp_all
  then have "parse ?f d (unat (pp_payload_len p)) = Some (Some
       \<lparr>ri_sequence = pp_sequence p, ri_rtp_timestamp = pp_rtp_timestamp p, ri_marker = pp_marker p,
        ri_data_offset = 14 + 6 * length (pp_srd p), ri_srd = pp_srd p\<rparr>)"
    using hd b0 b1 srds px(2,3) n(3) seq ts srd_ok_in_frame [OF wf]
    by (auto simp: parse_def Let_def list_all_iff)
  moreover have "drop (14 + 6 * length (pp_srd p)) d = px @ rest" using h by (simp add: d_def)
  ultimately show thesis using that wr len px(1) by (simp add: rest_def)
qed

text \<open>The receive loop over a list of media payloads.\<close>

fun rx_payloads :: "video_format \<Rightarrow> bytes list \<Rightarrow> bytes \<Rightarrow> bytes option" where
  "rx_payloads f [] frame = Some frame"
| "rx_payloads f (d # ds) frame = do {
     r \<leftarrow> parse f d (length d);
     frame' \<leftarrow> (case r of None \<Rightarrow> Some frame | Some info \<Rightarrow> scatter f info d frame);
     rx_payloads f ds frame'
   }"

definition wire_payload :: "packetizer \<Rightarrow> bytes \<Rightarrow> packet_plan \<Rightarrow> bytes option" where
  "wire_payload pk src p = write_payload pk p src (replicate (unat (pp_payload_len p)) 0)"

lemma plan_received:
  assumes wf: "fmt_wf (pk_fmt pk)" and plan: "srds_wf (pk_fmt pk) mp (pp_srd p) (pp_payload_len p)"
    and src: "length src = frame_oct (pk_fmt pk)" and frame: "length frame = frame_oct (pk_fmt pk)"
  obtains d info frame' where "wire_payload pk src p = Some d" "length d = unat (pp_payload_len p)"
    "parse (pk_fmt pk) d (length d) = Some (Some info)" "ri_marker info = pp_marker p"
    "ri_rtp_timestamp info = pp_rtp_timestamp p" "scatter (pk_fmt pk) info d frame = Some frame'"
    "length frame' = length frame"
    "\<forall>i<length frame. frame' ! i = (if i \<in> set (plan_ranges (pk_fmt pk) [p]) then src ! i else frame ! i)"
proof -
  let ?f = "pk_fmt pk" and ?dst = "replicate (unat (pp_payload_len p)) (0 :: u8)"
  obtain d px where d: "write_payload pk p src ?dst = Some d" "length d = length ?dst"
    "srd_pixels ?f (pp_srd p) src = Some px"
    "parse ?f d (unat (pp_payload_len p)) = Some (Some
       \<lparr>ri_sequence = pp_sequence p, ri_rtp_timestamp = pp_rtp_timestamp p, ri_marker = pp_marker p,
        ri_data_offset = 14 + 6 * length (pp_srd p), ri_srd = pp_srd p\<rparr>)"
    "drop (14 + 6 * length (pp_srd p)) d = px @ drop (unat (pp_payload_len p)) ?dst"
    by (rule write_parse [OF wf plan src, of ?dst]) simp_all
  have ok: "\<forall>s\<in>set (pp_srd p). srd_base ?f s + unat (srd_length s) \<le> length frame"
    using plan frame by (simp add: srds_wf_def srd_ok_def)
  have "14 + 6 * length (pp_srd p) \<le> length d"
    using plan d(2) by (simp add: srds_wf_def)
  then obtain fr where fr: "scatter_srds ?f (pp_srd p) (14 + 6 * length (pp_srd p)) d frame = Some fr"
    "length fr = length frame"
    "\<forall>i<length frame. fr ! i =
       (if i \<in> set (concat (map (srd_range ?f) (pp_srd p))) then src ! i else frame ! i)"
    using scatter_srds_effect [OF d(3,5) ok] src frame by auto
  define info where "info = \<lparr>ri_sequence = pp_sequence p, ri_rtp_timestamp = pp_rtp_timestamp p,
    ri_marker = pp_marker p, ri_data_offset = 14 + 6 * length (pp_srd p), ri_srd = pp_srd p\<rparr>"
  have info: "ri_marker info = pp_marker p" "ri_rtp_timestamp info = pp_rtp_timestamp p"
    "scatter ?f info d frame = Some fr"
    using fr(1) by (simp_all add: info_def scatter_def)
  show thesis
    using d(1,2,4) fr(2,3) info
    by (intro that [of d info fr]) (simp_all add: wire_payload_def plan_ranges_def flip: info_def)
qed

lemma wire_payload_received:
  assumes wf: "fmt_wf (pk_fmt pk)" and plan: "srds_wf (pk_fmt pk) mp (pp_srd p) (pp_payload_len p)"
    and src: "length src = frame_oct (pk_fmt pk)" and frame: "length frame = frame_oct (pk_fmt pk)"
  obtains d frame' where "wire_payload pk src p = Some d"
    "\<forall>ds. rx_payloads (pk_fmt pk) (d # ds) frame = rx_payloads (pk_fmt pk) ds frame'"
    "length frame' = length frame"
    "\<forall>i<length frame. frame' ! i = (if i \<in> set (plan_ranges (pk_fmt pk) [p]) then src ! i else frame ! i)"
  by (rule plan_received [OF assms]) (auto intro: that)

lemma rx_payloads_effect:
  assumes "fmt_wf (pk_fmt pk)" "length src = frame_oct (pk_fmt pk)"
    and "\<forall>p\<in>set order. srds_wf (pk_fmt pk) mp (pp_srd p) (pp_payload_len p)"
    and "length frame = frame_oct (pk_fmt pk)"
  shows "\<exists>ds frame'. map (wire_payload pk src) order = map Some ds \<and>
    rx_payloads (pk_fmt pk) ds frame = Some frame' \<and> length frame' = length frame \<and>
    (\<forall>i<length frame. frame' ! i =
       (if i \<in> set (plan_ranges (pk_fmt pk) order) then src ! i else frame ! i))"
  using assms(3,4)
proof (induction order arbitrary: frame)
  case Nil
  then show ?case by (intro exI [of _ "[]"] exI [of _ frame]) (simp add: plan_ranges_def)
next
  case (Cons p order)
  have plan: "srds_wf (pk_fmt pk) mp (pp_srd p) (pp_payload_len p)" using Cons.prems(1) by simp
  obtain d fr where d: "wire_payload pk src p = Some d"
    "\<forall>ds. rx_payloads (pk_fmt pk) (d # ds) frame = rx_payloads (pk_fmt pk) ds fr"
    "length fr = length frame"
    "\<forall>i<length frame. fr ! i = (if i \<in> set (plan_ranges (pk_fmt pk) [p]) then src ! i else frame ! i)"
    by (rule wire_payload_received [OF assms(1) plan assms(2) Cons.prems(2)])
  obtain ds frame' where rec: "map (wire_payload pk src) order = map Some ds"
    "rx_payloads (pk_fmt pk) ds fr = Some frame'" "length frame' = length fr"
    "\<forall>i<length fr. frame' ! i = (if i \<in> set (plan_ranges (pk_fmt pk) order) then src ! i else fr ! i)"
    using Cons.IH [of fr] Cons.prems d(3) by auto
  have "set (plan_ranges (pk_fmt pk) (p # order)) =
      set (plan_ranges (pk_fmt pk) [p]) \<union> set (plan_ranges (pk_fmt pk) order)"
    by (simp add: plan_ranges_def)
  then show ?case
    using d rec by (intro exI [of _ "d # ds"]) auto
qed

section \<open>Properties of the packetizer\<close>

text \<open>C2 - One frame of packets: for every format the 16-bit header fields can address and any
  payload budget that fits a header and one pixel group, the emit loop terminates, and the
  segments of its packets, in order, cover every octet of the frame exactly once.\<close>
theorem packetizer_covers_frame:
  assumes "fmt_wf (pk_fmt pk)" "budget_ok (pk_fmt pk) (pk_max_payload pk)"
  shows "\<exists>ps pk'. pk_drain (start_frame ts pk) = Some (ps, pk') \<and>
    plan_ranges (pk_fmt pk) ps = [0 ..< unat (octets_per_frame (pk_fmt pk))]"
proof -
  obtain ps pk' where "pk_drain (start_frame ts pk) = Some (ps, pk')" "walk_ok (start_frame ts pk) ps pk'"
    using start_frame_drain(1) [OF assms] by blast
  moreover have "pk_fmt (start_frame ts pk) = pk_fmt pk" by (simp add: start_frame_def)
  ultimately show ?thesis
    using start_frame_drain(2) [OF assms, of ts] by (auto simp: walk_ok_def unat_octets_per_frame)
qed

theorem packetizer_covers_frame_witness:
  "\<exists>ps pk'. pk_drain (start_frame 7 (mk_packetizer profile_1080p 1420 96 1)) = Some (ps, pk') \<and>
    plan_ranges profile_1080p ps = [0 ..< 5184000]"
  using packetizer_covers_frame [of "mk_packetizer profile_1080p 1420 96 1" 7]
  by (simp add: mk_packetizer_def fmt_wf_def budget_ok_def profile_1080p_def pg_oct_def
      octets_per_pgroup_def octets_per_frame_def octets_per_line_def pgroups_per_line_def kPixelsPerPgroup_def)

text \<open>C5 - Framing of a frame's packets: consecutive sequence numbers continuing the object's
  counter, one timestamp, the marker on the last packet and only there, every payload within the
  budget and as long as announced, one to three segments per packet and exactly one when the
  format is sent line-aligned; afterwards the object is idle and its counter has advanced by the
  number of packets.\<close>
theorem packetizer_framing:
  assumes "fmt_wf (pk_fmt pk)" "budget_ok (pk_fmt pk) (pk_max_payload pk)"
    and "pk_drain (start_frame ts pk) = Some (ps, pk')"
  shows "(\<forall>i<length ps. pp_sequence (ps ! i) = pk_seq pk + of_nat i \<and>
      pp_rtp_timestamp (ps ! i) = ts \<and> (pp_marker (ps ! i) \<longleftrightarrow> i + 1 = length ps) \<and>
      pp_payload_len (ps ! i) \<le> pk_max_payload pk \<and>
      unat (pp_payload_len (ps ! i)) = 14 + 6 * length (pp_srd (ps ! i)) +
        (\<Sum>s\<leftarrow>pp_srd (ps ! i). unat (srd_length s)) \<and>
      1 \<le> length (pp_srd (ps ! i)) \<and> length (pp_srd (ps ! i)) \<le> kMaxSrd \<and>
      (line_aligned (pk_fmt pk) \<longrightarrow> length (pp_srd (ps ! i)) = 1)) \<and>
    \<not> pk_active pk' \<and> pk_seq pk' = pk_seq pk + of_nat (length ps) \<and> ps \<noteq> []"
proof -
  have "walk_ok (start_frame ts pk) ps pk'"
    using start_frame_drain(1) [OF assms(1,2), of ts] assms(3) by auto
  then show ?thesis
    by (auto simp: walk_ok_def srds_wf_def start_frame_def Suc_le_eq)
qed

theorem packetizer_framing_witness:
  "\<exists>ps pk'. pk_drain (start_frame 7 (mk_packetizer profile_2160p 1420 96 1)) = Some (ps, pk') \<and>
    pk_seq pk' = of_nat (length ps)"
proof -
  let ?pk = "mk_packetizer profile_2160p 1420 96 1"
  have ok: "fmt_wf (pk_fmt ?pk)" "budget_ok (pk_fmt ?pk) (pk_max_payload ?pk)" "pk_seq ?pk = 0"
    by (simp_all add: mk_packetizer_def fmt_wf_def budget_ok_def profile_2160p_def pg_oct_def
        octets_per_pgroup_def)
  obtain ps pk' where "pk_drain (start_frame 7 ?pk) = Some (ps, pk')"
    using start_frame_drain(1) [OF ok(1,2), of 7] by blast
  with packetizer_framing [OF ok(1,2) this] ok(3) show ?thesis by simp
qed

text \<open>Round trip of one packet: what \<open>write_payload\<close> serializes, into any buffer with room for
  it, \<open>parse\<close> reads back field for field, and the pixel octets follow the headers.\<close>
theorem write_payload_parse_roundtrip:
  assumes "fmt_wf (pk_fmt pk)" "budget_ok (pk_fmt pk) (pk_max_payload pk)"
    and "pk_drain (start_frame ts pk) = Some (ps, pk')" "p \<in> set ps"
    and "length src = unat (octets_per_frame (pk_fmt pk))" "unat (pp_payload_len p) \<le> length dst"
  shows "\<exists>d info px. write_payload pk p src dst = Some d \<and>
    parse (pk_fmt pk) d (unat (pp_payload_len p)) = Some (Some info) \<and>
    ri_sequence info = pp_sequence p \<and> ri_rtp_timestamp info = pp_rtp_timestamp p \<and>
    ri_marker info = pp_marker p \<and> ri_srd info = pp_srd p \<and>
    srd_pixels (pk_fmt pk) (pp_srd p) src = Some px \<and>
    take (length px) (drop (ri_data_offset info) d) = px"
proof -
  have "walk_ok (start_frame ts pk) ps pk'"
    using start_frame_drain(1) [OF assms(1,2), of ts] assms(3) by auto
  then have plan: "srds_wf (pk_fmt pk) (pk_max_payload pk) (pp_srd p) (pp_payload_len p)"
    using assms(4) by (auto simp: walk_ok_def in_set_conv_nth start_frame_def)
  have "length src = frame_oct (pk_fmt pk)" using assms(5) by (simp add: unat_octets_per_frame)
  from write_parse [OF assms(1) plan this assms(6)] show ?thesis by fastforce
qed

definition tiny_pk :: packetizer where
  "tiny_pk = mk_packetizer \<lparr>width = 4, height = 2, fps = 50, sampling_of = YCbCr422_10\<rparr> 40 96 1"

lemma tiny_pk_ok:
  "fmt_wf (pk_fmt tiny_pk)" "budget_ok (pk_fmt tiny_pk) (pk_max_payload tiny_pk)"
  "unat (octets_per_frame (pk_fmt tiny_pk)) = 20"
  by (simp_all add: tiny_pk_def mk_packetizer_def fmt_wf_def budget_ok_def pg_oct_def
      octets_per_pgroup_def octets_per_frame_def octets_per_line_def pgroups_per_line_def kPixelsPerPgroup_def)

theorem write_payload_parse_roundtrip_witness:
  "\<exists>p d info. write_payload tiny_pk p (replicate 20 9) (replicate 100 0) = Some d \<and>
    parse (pk_fmt tiny_pk) d (unat (pp_payload_len p)) = Some (Some info) \<and> ri_srd info = pp_srd p"
proof -
  obtain ps pk' where d: "pk_drain (start_frame 7 tiny_pk) = Some (ps, pk')" "walk_ok (start_frame 7 tiny_pk) ps pk'"
    using start_frame_drain(1) [OF tiny_pk_ok(1,2), of 7] by blast
  then have p: "hd ps \<in> set ps" "pp_payload_len (ps ! 0) \<le> pk_max_payload tiny_pk"
    by (auto simp: walk_ok_def srds_wf_def start_frame_def)
  then have "unat (pp_payload_len (hd ps)) \<le> 40"
    using d(2) by (simp add: walk_ok_def tiny_pk_def mk_packetizer_def hd_conv_nth word_le_nat_alt)
  then have "\<exists>e info px. write_payload tiny_pk (hd ps) (replicate 20 9) (replicate 100 0) = Some e \<and>
      parse (pk_fmt tiny_pk) e (unat (pp_payload_len (hd ps))) = Some (Some info) \<and>
      ri_sequence info = pp_sequence (hd ps) \<and> ri_rtp_timestamp info = pp_rtp_timestamp (hd ps) \<and>
      ri_marker info = pp_marker (hd ps) \<and> ri_srd info = pp_srd (hd ps) \<and>
      srd_pixels (pk_fmt tiny_pk) (pp_srd (hd ps)) (replicate 20 9) = Some px \<and>
      take (length px) (drop (ri_data_offset info) e) = px"
    by (intro write_payload_parse_roundtrip [OF tiny_pk_ok(1,2) d(1) p(1)]) (simp_all add: tiny_pk_ok(3))
  then show ?thesis by blast
qed

text \<open>C1 - Reassembly: a frame sent by the packetizer and received through \<open>parse\<close> and
  \<open>scatter\<close> is restored byte for byte when every packet arrives at least once, in any order and
  with any duplicates, whatever the receive buffer held before.\<close>
theorem frame_reassembled_any_order:
  assumes "fmt_wf (pk_fmt pk)" "budget_ok (pk_fmt pk) (pk_max_payload pk)"
    and "pk_drain (start_frame ts pk) = Some (ps, pk')" "set order = set ps"
    and "length src = unat (octets_per_frame (pk_fmt pk))" "length frame = length src"
  shows "\<exists>ds. map (wire_payload pk src) order = map Some ds \<and>
    rx_payloads (pk_fmt pk) ds frame = Some src"
proof -
  have walk: "walk_ok (start_frame ts pk) ps pk'"
    using start_frame_drain(1) [OF assms(1,2), of ts] assms(3) by auto
  then have "\<forall>p\<in>set ps. srds_wf (pk_fmt pk) (pk_max_payload pk) (pp_srd p) (pp_payload_len p)"
    by (auto simp: walk_ok_def in_set_conv_nth start_frame_def)
  then obtain ds frame' where r: "map (wire_payload pk src) order = map Some ds"
    "rx_payloads (pk_fmt pk) ds frame = Some frame'" "length frame' = length frame"
    "\<forall>i<length frame. frame' ! i =
       (if i \<in> set (plan_ranges (pk_fmt pk) order) then src ! i else frame ! i)"
    using rx_payloads_effect [OF assms(1), of src order "pk_max_payload pk" frame] assms(4-6)
    by (auto simp: unat_octets_per_frame)
  have "set (plan_ranges (pk_fmt pk) order) = set (plan_ranges (pk_fmt pk) ps)"
    by (simp add: plan_ranges_def assms(4))
  also have "plan_ranges (pk_fmt pk) ps = [0 ..< frame_oct (pk_fmt pk)]"
    using walk start_frame_drain(2) [OF assms(1,2), of ts] by (simp add: walk_ok_def start_frame_def)
  finally have "frame' = src"
    using r(3,4) assms(5,6) by (intro nth_equalityI) (auto simp: unat_octets_per_frame)
  with r show ?thesis by blast
qed

theorem frame_reassembled_any_order_witness:
  "\<exists>ps pk' ds. pk_drain (start_frame 7 tiny_pk) = Some (ps, pk') \<and>
    map (wire_payload tiny_pk (replicate 20 9)) (rev ps @ ps) = map Some ds \<and>
    rx_payloads (pk_fmt tiny_pk) ds (replicate 20 0) = Some (replicate 20 9)"
proof -
  obtain ps pk' where d: "pk_drain (start_frame 7 tiny_pk) = Some (ps, pk')"
    using start_frame_drain(1) [OF tiny_pk_ok(1,2), of 7] by blast
  have "\<exists>ds. map (wire_payload tiny_pk (replicate 20 9)) (rev ps @ ps) = map Some ds \<and>
      rx_payloads (pk_fmt tiny_pk) ds (replicate 20 0) = Some (replicate 20 9)"
    by (intro frame_reassembled_any_order [OF tiny_pk_ok(1,2) d]) (simp_all add: tiny_pk_ok(3))
  with d show ?thesis by blast
qed

lemma count_packets_drain:
  assumes "fmt_wf (pk_fmt pk)" "budget_ok (pk_fmt pk) (pk_max_payload pk)" "pk_active pk"
    and "cur_wf (pk_fmt pk) (pk_cursor pk)" "cur_pos (pk_fmt pk) (pk_cursor pk) < frame_oct (pk_fmt pk)"
    and "pk_drain pk = Some (ps, pk')"
  shows "count_packets (pk_fmt pk) (pk_max_payload pk) (pk_cursor pk) n = Some (n + of_nat (length ps))"
  using assms
proof (induction "frame_oct (pk_fmt pk) - cur_pos (pk_fmt pk) (pk_cursor pk)" arbitrary: pk ps n rule: less_induct)
  case less
  let ?f = "pk_fmt pk"
  have line: "\<not> height ?f \<le> c_line (pk_cursor pk)"
    using cur_end_iff [OF less(2,5)] less(6) by simp
  obtain c srds len where one: "plan_one ?f (pk_max_payload pk) (pk_cursor pk) = Some (c, srds, len)"
    "cur_wf ?f c" "cur_pos ?f (pk_cursor pk) < cur_pos ?f c"
    using plan_one_step [OF less(2,5) line less(3)] by metis
  define pk1 where "pk1 = pk\<lparr>pk_seq := pk_seq pk + 1, pk_cur_line := c_line c,
    pk_cur_octet := c_octet c, pk_active := \<not> (c_line c \<ge> height ?f)\<rparr>"
  have cur: "pk_cursor pk1 = c" and keep: "pk_fmt pk1 = ?f" "pk_max_payload pk1 = pk_max_payload pk"
    by (simp_all add: pk1_def pk_cursor_def)
  obtain p where nx: "pk_next pk = (Some p, pk1)"
    using one(1) less(4) by (simp add: pk_next_def pk1_def pk_cursor_def Let_def)
  have count: "count_packets ?f (pk_max_payload pk) (pk_cursor pk) n =
      count_packets ?f (pk_max_payload pk) c (n + 1)"
    using one(1) by (subst count_packets.simps) simp
  show ?case
  proof (cases "pk_active pk1")
    case False
    then have "ps = [p]"
      using less(7) nx by (subst (asm) pk_drain.simps) (simp add: pk_drain_inactive)
    moreover have "plan_one ?f (pk_max_payload pk) c = None"
      using False by (intro plan_one_end) (simp add: pk1_def)
    ultimately show ?thesis using count by (simp add: count_packets.simps [of _ _ c])
  next
    case True
    then have pos: "cur_pos ?f c < frame_oct ?f"
      using cur_pos_le [OF one(2)] cur_end_iff [OF less(2) one(2)] by (simp add: pk1_def)
    obtain ps1 where ps1: "pk_drain pk1 = Some (ps1, pk')" "ps = p # ps1"
      using less(7) nx by (subst (asm) pk_drain.simps) (auto split: bind_splits)
    have "count_packets (pk_fmt pk1) (pk_max_payload pk1) (pk_cursor pk1) (n + 1) =
        Some (n + 1 + of_nat (length ps1))"
      using less(2,3) one(2,3) True pos ps1(1)
      by (intro less(1)) (simp_all add: keep cur less_diff_conv2 diff_less_mono2)
    then show ?thesis using count by (simp add: keep cur ps1(2) add.assoc)
  qed
qed

text \<open>The pre-sizing count agrees with the packets actually emitted, for every frame.\<close>
theorem packets_per_frame_exact:
  assumes "fmt_wf (pk_fmt pk)" "budget_ok (pk_fmt pk) (pk_max_payload pk)"
    and "pk_drain (start_frame ts pk) = Some (ps, pk')"
  shows "packets_per_frame pk = Some (of_nat (length ps))"
proof -
  let ?pk = "start_frame ts pk"
  have cur: "pk_cursor ?pk = \<lparr>c_line = 0, c_octet = 0\<rparr>" by (simp add: pk_cursor_def start_frame_def)
  have keep: "pk_fmt ?pk = pk_fmt pk" "pk_max_payload ?pk = pk_max_payload pk" "pk_active ?pk"
    by (simp_all add: start_frame_def)
  have "0 < frame_oct (pk_fmt pk)"
    using rows_bounds(1) [OF assms(1)] line_oct_bounds(2) [OF assms(1)] by (simp add: frame_oct_def)
  then have "count_packets (pk_fmt ?pk) (pk_max_payload ?pk) (pk_cursor ?pk) 0 = Some (0 + of_nat (length ps))"
    using rows_bounds(1) [OF assms(1)] line_oct_bounds(2) [OF assms(1)] assms
    by (intro count_packets_drain) (simp_all add: keep cur cur_wf_def cur_pos_def)
  then show ?thesis by (simp add: packets_per_frame_def keep cur)
qed

theorem packets_per_frame_exact_witness:
  "\<exists>ps pk'. pk_drain (start_frame 0 tiny_pk) = Some (ps, pk') \<and>
    packets_per_frame tiny_pk = Some (of_nat (length ps))"
proof -
  obtain ps pk' where d: "pk_drain (start_frame 0 tiny_pk) = Some (ps, pk')"
    using start_frame_drain(1) [OF tiny_pk_ok(1,2), of 0] by blast
  with packets_per_frame_exact [OF tiny_pk_ok(1,2) d] show ?thesis by blast
qed

end
