(* ===== verification/Net_Addr.thy ===== *)
theory Net_Addr
  imports Spark_Prelude
begin

text \<open>
  Multicast addressing and the IGMPv3 membership report, \<open>engine/operators/common/net_addr.hpp\<close>.
  \<open>put_be16\<close> and \<open>put_be32\<close> write through a pointer: here they overwrite bytes of a buffer at an
  offset.  The buffer of \<open>build_igmpv3_join\<close> is a byte list, every store is a \<open>mem_write\<close>, and the
  result is \<open>None\<close> when a store would fall outside it.
\<close>

section \<open>Addresses and checksum\<close>

definition ipv4_is_multicast :: "u32 \<Rightarrow> bool" where
  "ipv4_is_multicast ip_host = (ip_host AND 0xf0000000 = 0xe0000000)"

definition multicast_mac :: "u32 \<Rightarrow> bytes" where
  "multicast_mac group_host =
     [0x01, 0x00, 0x5e,
      ucast (drop_bit 16 group_host AND 0x7f),
      ucast (drop_bit 8 group_host AND 0xff),
      ucast (group_host AND 0xff)]"

fun inet_sum :: "u32 \<Rightarrow> bytes \<Rightarrow> u32" where
  "inet_sum s (a # b # rest) = inet_sum (s + (push_bit 8 (ucast a) OR ucast b)) rest"
| "inet_sum s [a] = s + push_bit 8 (ucast a)"
| "inet_sum s [] = s"

function inet_fold :: "u32 \<Rightarrow> u32" where
  "inet_fold s = (if drop_bit 16 s = 0 then s else inet_fold ((s AND 0xffff) + drop_bit 16 s))"
  by auto

definition inet_checksum :: "bytes \<Rightarrow> u16" where
  "inet_checksum dat = ucast (NOT (inet_fold (inet_sum 0 dat)) AND 0xffff)"

definition put_be16 :: "nat \<Rightarrow> u16 \<Rightarrow> bytes \<Rightarrow> bytes option" where
  "put_be16 p v buf = mem_write buf p [ucast (drop_bit 8 v), ucast v]"

definition put_be32 :: "nat \<Rightarrow> u32 \<Rightarrow> bytes \<Rightarrow> bytes option" where
  "put_be32 p v buf =
     mem_write buf p [ucast (drop_bit 24 v), ucast (drop_bit 16 v), ucast (drop_bit 8 v), ucast v]"

lemma drop16_unat: "unat (drop_bit 16 (s :: u32)) = unat s div 65536"
  by (simp only: unat_drop_bit) simp

lemma low16_unat: "unat (s AND 0xffff :: u32) = unat s mod 65536"
  using unat_and_mask [of s 16] by (simp add: mask_eq_exp_minus_1)

lemma fold_step_unat:
  "unat ((s AND 0xffff) + drop_bit 16 s :: u32) = unat s mod 65536 + unat s div 65536"
proof -
  have "unat s mod 65536 + unat s div 65536 < 2 ^ LENGTH(32)"
    using unat_u32_less [of s] mod_less_divisor [of 65536 "unat s"] by (simp del: mod_less_divisor; linarith)
  then show ?thesis
    by (subst unat_add_noov) (simp_all add: drop16_unat low16_unat)
qed

termination inet_fold
proof (relation "measure unat")
  fix s :: u32 assume "drop_bit 16 s \<noteq> 0"
  then have "unat s div 65536 \<noteq> 0" by (metis drop16_unat unat_eq_zero)
  then have "0 < unat s div 65536" by simp
  moreover have "unat s = unat s div 65536 * 65536 + unat s mod 65536" by simp
  ultimately have "unat s mod 65536 + unat s div 65536 < unat s" by linarith
  then show "((s AND 0xffff) + drop_bit 16 s, s) \<in> measure unat"
    by (simp add: fold_step_unat)
qed simp

declare inet_fold.simps [simp del]

section \<open>The membership report\<close>

definition kIgmpChangeToInclude :: u8 where "kIgmpChangeToInclude = 3"
definition kIgmpChangeToExclude :: u8 where "kIgmpChangeToExclude = 4"
definition kReportDst :: u32 where "kReportDst = 0xe0000016"

definition igmp_nsrc :: "u32 \<Rightarrow> nat" where
  "igmp_nsrc source_host = (if source_host \<noteq> 0 then 1 else 0)"

definition igmp_report_len :: "u32 \<Rightarrow> nat" where
  "igmp_report_len source_host = 8 + 8 + 4 * igmp_nsrc source_host"

definition igmp_eth_ip_stores :: "bytes \<Rightarrow> u32 \<Rightarrow> u32 \<Rightarrow> (nat \<times> bytes) list" where
  "igmp_eth_ip_stores src_mac iface_ip_host source_host =
     [(0, multicast_mac kReportDst), (6, take 6 src_mac), (12, be16 0x0800),
      (14, [0x46]), (15, [0xc0]), (16, be16 (of_nat (24 + igmp_report_len source_host))),
      (18, be16 0), (20, be16 0x4000), (22, [1]), (23, [2]), (24, be16 0),
      (26, be32 iface_ip_host), (30, be32 kReportDst), (34, [0x94, 0x04, 0x00, 0x00])]"

definition igmp_report_stores :: "u32 \<Rightarrow> u32 \<Rightarrow> (nat \<times> bytes) list" where
  "igmp_report_stores group_host source_host =
     [(38, [0x22]), (39, [0]), (40, be16 0), (42, be16 0), (44, be16 1),
      (46, [if source_host \<noteq> 0 then kIgmpChangeToInclude else kIgmpChangeToExclude]), (47, [0]),
      (48, be16 (of_nat (igmp_nsrc source_host))), (50, be32 group_host)] @
     (if source_host \<noteq> 0 then [(54, be32 source_host)] else [])"

definition build_igmpv3_join :: "bytes \<Rightarrow> bytes \<Rightarrow> u32 \<Rightarrow> u32 \<Rightarrow> u32 \<Rightarrow> (bytes \<times> nat) option" where
  "build_igmpv3_join buf src_mac iface_ip_host group_host source_host = do {
     b1 \<leftarrow> mem_stores buf (igmp_eth_ip_stores src_mac iface_ip_host source_host);
     ip \<leftarrow> mem_read b1 14 24;
     b2 \<leftarrow> put_be16 24 (inet_checksum ip) b1;
     b3 \<leftarrow> mem_stores b2 (igmp_report_stores group_host source_host);
     ig \<leftarrow> mem_read b3 38 (igmp_report_len source_host);
     b4 \<leftarrow> put_be16 40 (inet_checksum ig) b3;
     Some (b4, 14 + 24 + igmp_report_len source_host)
   }"

section \<open>The checksum as arithmetic modulo 65535\<close>

fun wsum :: "bytes \<Rightarrow> nat" where
  "wsum (a # b # rest) = unat a * 256 + unat b + wsum rest"
| "wsum [a] = unat a * 256"
| "wsum [] = 0"

lemma unat_be_pair: "unat (push_bit 8 (ucast a) OR ucast b :: u32) = unat (a :: u8) * 256 + unat (b :: u8)"
proof -
  have "push_bit 8 (ucast a) OR ucast b = (push_bit 8 (ucast a) + ucast b :: u32)"
    by (rule disjunctive_add [symmetric]) (auto simp: bit_simps dest: bit_imp_le_length)
  moreover have "unat (push_bit 8 (ucast a :: u32)) = unat a * 256"
  proof -
    have "unat (ucast a * 256 :: u32) = unat a * 256"
      using unsigned_less [of a, where ?'a = nat]
      by (subst unat_mult_noov) (simp_all add: unat_ucast_up)
    then show ?thesis by (simp add: push_bit_eq_mult)
  qed
  ultimately show ?thesis
    using unsigned_less [of a, where ?'a = nat] unsigned_less [of b, where ?'a = nat]
    by (simp add: unat_add_noov unat_ucast_up)
qed

lemma unat_inet_sum:
  "unat s + wsum d < 2 ^ 32 \<Longrightarrow> unat (inet_sum s d) = unat s + wsum d"
proof (induction s d rule: inet_sum.induct)
  case (1 s a b rest)
  have "unat (s + (push_bit 8 (ucast a) OR ucast b)) = unat s + (unat a * 256 + unat b)"
    using 1 by (subst unat_add_noov) (simp_all add: unat_be_pair)
  then show ?case using 1 by simp
next
  case (2 s a)
  then show ?case using unat_be_pair [of a 0] by (subst inet_sum.simps, subst unat_add_noov) simp_all
qed simp

lemma wsum_bound: "wsum d \<le> length d * 65280 + 65535"
proof (induction d rule: wsum.induct)
  case (1 a b rest)
  then show ?case using unsigned_less [of a, where ?'a = nat] unsigned_less [of b, where ?'a = nat] by simp
next
  case (2 a)
  then show ?case using unsigned_less [of a, where ?'a = nat] by simp
qed simp

lemma wsum_append: "even (length xs) \<Longrightarrow> wsum (xs @ ys) = wsum xs + wsum ys"
  by (induction xs rule: wsum.induct) simp_all

lemma wsum_be16 [simp]: "wsum (be16 v) = unat v"
proof -
  have "unat v div 256 < 256" using unat_u16_less [of v] by linarith
  then show ?thesis
    by (simp add: be16_def unat_ucast_mod unat_drop_bit)
qed

lemma inet_fold_spec:
  "unat (inet_fold s) = (if s = 0 then 0 else Suc ((unat s - 1) mod 65535))"
proof (induction s rule: inet_fold.induct)
  case (1 s)
  show ?case
  proof (cases "drop_bit 16 s = 0")
    case True
    then have "unat s div 65536 = 0" by (metis drop16_unat unat_0)
    then have lt: "unat s < 65536" by simp
    then show ?thesis
      using True by (subst inet_fold.simps) (auto simp: unat_gt_0 Suc_pred')
  next
    case False
    let ?t = "(s AND 0xffff) + drop_bit 16 s"
    have q: "unat s div 65536 \<noteq> 0" using False by (metis drop16_unat unat_eq_zero)
    have eq: "unat s = unat s div 65536 * 65535 + unat ?t"
      by (simp add: fold_step_unat)
    have "unat ?t \<noteq> 0" using q by (simp add: fold_step_unat)
    then have "?t \<noteq> 0" "s \<noteq> 0" using q by auto
    moreover have "(unat s - 1) mod 65535 = (unat ?t - 1) mod 65535"
    proof -
      have "unat s - 1 = unat s div 65536 * 65535 + (unat ?t - 1)"
        using eq \<open>unat ?t \<noteq> 0\<close> by linarith
      then show ?thesis by (metis mod_mult_self3)
    qed
    ultimately show ?thesis
      using 1 [OF False] False by (subst inet_fold.simps) simp
  qed
qed

lemma unat_inet_checksum:
  assumes "wsum d < 2 ^ 32"
  shows "unat (inet_checksum d) = (if wsum d = 0 then 65535 else 65534 - (wsum d - 1) mod 65535)"
proof -
  let ?f = "inet_fold (inet_sum 0 d)"
  have sum: "unat (inet_sum 0 d) = wsum d" using unat_inet_sum [of 0 d] assms by simp
  then have fold: "unat ?f = (if wsum d = 0 then 0 else Suc ((wsum d - 1) mod 65535))"
    by (auto simp: inet_fold_spec simp flip: unat_eq_zero)
  have "unat (inet_checksum d) = unat (NOT ?f AND mask 16) mod 65536"
    by (simp add: inet_checksum_def unat_ucast_mod mask_eq_exp_minus_1)
  also have "\<dots> = unat (NOT ?f) mod 65536"
    by (simp only: unat_and_mask) simp
  also have "unat (NOT ?f) = 4294967295 - unat ?f"
  proof -
    have "NOT ?f = - 1 - ?f" by (simp add: not_eq_complement)
    then have "unat (NOT ?f) = unat (- 1 :: u32) - unat ?f"
      by (simp only: unat_sub_noov [OF word_n1_ge])
    then show ?thesis by (simp add: unsigned_minus_1_eq_mask mask_eq_exp_minus_1)
  qed
  also have "(4294967295 - unat ?f) mod 65536 = 65535 - unat ?f"
  proof -
    have le: "unat ?f \<le> 65535"
      using mod_less_divisor [of 65535 "wsum d - 1"] by (simp add: fold del: mod_less_divisor; linarith)
    then have "4294967295 - unat ?f = (65535 - unat ?f) + 65535 * 65536" by simp
    then have "(4294967295 - unat ?f) mod 65536 = (65535 - unat ?f) mod 65536"
      by (simp only: mod_mult_self1)
    then show ?thesis by simp
  qed
  finally show ?thesis by (simp add: fold)
qed

lemma checksum_verifies:
  assumes "even c" "c + 2 \<le> length d" "d ! c = 0" "d ! (c + 1) = 0" "length d \<le> 60000"
  shows "inet_checksum (take c d @ be16 (inet_checksum d) @ drop (c + 2) d) = 0"
proof -
  let ?d = "take c d @ be16 (inet_checksum d) @ drop (c + 2) d"
  have split: "d = take c d @ [0, 0] @ drop (c + 2) d"
    using assms(2-4) id_take_nth_drop [of c d] Cons_nth_drop_Suc [of "Suc c" d] by simp
  have even: "even (length (take c d))" using assms(1,2) by simp
  have "wsum d = wsum (take c d) + wsum (drop (c + 2) d)"
    by (subst split, simp only: wsum_append [OF even]) simp
  moreover have "wsum ?d = wsum (take c d) + (unat (inet_checksum d) + wsum (drop (c + 2) d))"
    by (simp only: wsum_append [OF even] wsum_append [of "be16 (inet_checksum d)"] length_be16
        wsum_be16 even_numeral)
  ultimately have sum: "wsum ?d = wsum d + unat (inet_checksum d)" by simp
  have "wsum d < 2 ^ 32" using wsum_bound [of d] assms(5) by simp
  note cks = unat_inet_checksum [OF this]
  have "length ?d = length d" using assms(2) by simp
  then have "wsum ?d < 2 ^ 32" using wsum_bound [of ?d] assms(5) by simp
  note cks' = unat_inet_checksum [OF this]
  define S' r q where "S' = wsum ?d" and "r = (wsum d - 1) mod 65535" and "q = (wsum d - 1) div 65535"
  have r: "r < 65535" by (simp add: r_def)
  have S': "S' = wsum d + (if wsum d = 0 then 65535 else 65534 - r)"
    by (simp only: S'_def sum cks r_def)
  have "S' \<noteq> 0 \<and> (S' - 1) mod 65535 = 65534"
  proof (cases "wsum d = 0")
    case False
    then have "wsum d - 1 = q * 65535 + r" by (simp add: q_def r_def)
    then have "S' - 1 = q * 65535 + 65534" using False r by (simp add: S')
    then show ?thesis using False by (simp add: S')
  qed (simp add: S')
  then have "unat (inet_checksum ?d) = 0" by (simp only: cks' flip: S'_def) simp
  then show ?thesis by (simp only: unat_eq_zero)
qed

section \<open>Properties\<close>

lemma igmp_eth_ip_contiguous:
  "length src_mac = 6 \<Longrightarrow> contiguous 0 (igmp_eth_ip_stores src_mac iface source)"
  "length src_mac = 6 \<Longrightarrow> length (concat (map snd (igmp_eth_ip_stores src_mac iface source))) = 38"
  by (simp_all add: igmp_eth_ip_stores_def multicast_mac_def be16_def be32_def)

lemma igmp_report_contiguous:
  "contiguous 38 (igmp_report_stores grp source)"
  "length (concat (map snd (igmp_report_stores grp source))) = igmp_report_len source"
  by (simp_all add: igmp_report_stores_def be16_def be32_def igmp_report_len_def igmp_nsrc_def)

text \<open>Overwriting the zeroed checksum field of a region with the region's own checksum.\<close>

lemma put_checksum:
  assumes "off + n \<le> length b" "even c" "c + 2 \<le> n" "n \<le> 60000"
    "b ! (off + c) = 0" "b ! (off + c + 1) = 0"
  obtains b' where "put_be16 (off + c) (inet_checksum (take n (drop off b))) b = Some b'"
    "length b' = length b" "inet_checksum (take n (drop off b')) = 0"
    "take (off + c) b' = take (off + c) b" "drop (off + c + 2) b' = drop (off + c + 2) b"
proof -
  define p q z where "p = take off b" and "q = take n (drop off b)" and "z = drop (off + n) b"
  define v where "v = be16 (inet_checksum q)"
  define q' where "q' = take c q @ v @ drop (c + 2) q"
  have b: "b = p @ q @ z" using append_take_drop_id [of off b] append_take_drop_id [of n "drop off b"]
    by (simp add: p_def q_def z_def add.commute)
  have len: "length p = off" "length q = n" "length v = 2" "length q' = n"
    using assms(1,3) by (simp_all add: p_def q_def v_def q'_def)
  have q: "q ! c = 0" "q ! (c + 1) = 0"
    using assms(3,5,6) len by (simp_all add: b nth_append)
  have put: "put_be16 (off + c) (inet_checksum q) b = Some (p @ q' @ z)"
    using len assms(3) by (simp add: put_be16_def mem_write_def b q'_def v_def be16_def)
  have "inet_checksum q' = 0"
    unfolding q'_def v_def using assms(2-4) q len by (intro checksum_verifies) simp_all
  with put show ?thesis
    using len assms(3) that [of "p @ q' @ z"]
    by (simp add: b q'_def)
qed

lemma igmp_eth_ip_bytes:
  fixes iface source :: u32
  assumes "length src_mac = 6"
  defines "h \<equiv> concat (map snd (igmp_eth_ip_stores src_mac iface source))"
  shows "h ! 24 = 0" "h ! 25 = 0" "take 6 h = multicast_mac kReportDst"
proof -
  obtain m0 m1 m2 m3 m4 m5 where "src_mac = [m0, m1, m2, m3, m4, m5]"
    using assms(1) by (auto simp: length_Suc_conv eval_nat_numeral)
  then show "h ! 24 = 0" "h ! 25 = 0" "take 6 h = multicast_mac kReportDst"
    by (simp_all add: h_def igmp_eth_ip_stores_def multicast_mac_def be16_def be32_def)
qed

lemma igmp_report_bytes:
  fixes grp source :: u32
  defines "r \<equiv> concat (map snd (igmp_report_stores grp source))"
  shows "r ! 2 = 0" "r ! 3 = 0" "take 4 (drop 12 r) = be32 grp"
  by (simp_all add: r_def igmp_report_stores_def be16_def be32_def)

text \<open>C27 - The membership report: into any buffer of at least 58 bytes the routine stores only
  within the buffer and only the returned prefix (54 bytes any-source, 58 source-specific), the
  frame is addressed to 224.0.0.22's MAC and names the group, and both the IPv4 header checksum
  (with the router-alert option) and the IGMP checksum verify.\<close>
theorem igmp_join_wellformed:
  assumes "58 \<le> length buf" "length src_mac = 6"
  shows "\<exists>b. build_igmpv3_join buf src_mac iface grp source =
      Some (b, if source = 0 then 54 else 58) \<and> length b = length buf \<and>
    take 6 b = multicast_mac kReportDst \<and> take 4 (drop 50 b) = be32 grp \<and>
    inet_checksum (take 24 (drop 14 b)) = 0 \<and>
    inet_checksum (take (igmp_report_len source) (drop 38 b)) = 0 \<and>
    drop (if source = 0 then 54 else 58) b = drop (if source = 0 then 54 else 58) buf"
proof -
  define h where "h = concat (map snd (igmp_eth_ip_stores src_mac iface source))"
  define r where "r = concat (map snd (igmp_report_stores grp source))"
  define k where "k = igmp_report_len source"
  have k: "38 + k = (if source = 0 then 54 else 58)" "even (2 :: nat)" "16 \<le> k" "k \<le> 20"
    by (simp_all add: k_def igmp_report_len_def igmp_nsrc_def)
  have h: "length h = 38" "h ! 24 = 0" "h ! 25 = 0" "take 6 h = multicast_mac kReportDst"
    using igmp_eth_ip_bytes [OF assms(2)] by (simp_all only: h_def igmp_eth_ip_contiguous [OF assms(2)])
  have r: "length r = k" "r ! 2 = 0" "r ! 3 = 0" "take 4 (drop 12 r) = be32 grp"
    by (simp_all only: r_def k_def igmp_report_contiguous igmp_report_bytes)
  define b1 where "b1 = h @ drop 38 buf"
  have s1: "mem_stores buf (igmp_eth_ip_stores src_mac iface source) = Some b1"
    using mem_stores_contiguous [OF igmp_eth_ip_contiguous(1) [OF assms(2)], of iface source buf] assms h(1)
    by (simp add: b1_def flip: h_def)
  have b1: "length b1 = length buf" using assms(1) h(1) by (simp add: b1_def)
  have p1: "14 + 24 \<le> length b1" "b1 ! (14 + 10) = 0" "b1 ! (14 + 10 + 1) = 0"
    using assms(1) b1 h by (simp_all add: b1_def nth_append)
  obtain b2 where b2: "put_be16 (14 + 10) (inet_checksum (take 24 (drop 14 b1))) b1 = Some b2"
    "length b2 = length b1" "inet_checksum (take 24 (drop 14 b2)) = 0"
    "take (14 + 10) b2 = take (14 + 10) b1" "drop (14 + 10 + 2) b2 = drop (14 + 10 + 2) b1"
    by (rule put_checksum [OF p1(1) _ _ _ p1(2,3)]) simp_all
  define b3 where "b3 = take 38 b2 @ r @ drop (38 + k) b2"
  have s3: "mem_stores b2 (igmp_report_stores grp source) = Some b3"
    using mem_stores_contiguous [OF igmp_report_contiguous(1), of grp source b2] assms(1) b1 b2(2) k
    by (simp add: b3_def r(1) flip: r_def)
  have b3: "length b3 = length buf" using assms(1) b1 b2(2) r(1) k by (simp add: b3_def)
  have p3: "38 + k \<le> length b3" "b3 ! (38 + 2) = 0" "b3 ! (38 + 2 + 1) = 0" "2 + 2 \<le> k" "k \<le> 60000"
    using assms(1) b1 b2(2) b3 r k by (simp_all add: b3_def nth_append split: if_splits)
  obtain b4 where b4: "put_be16 (38 + 2) (inet_checksum (take k (drop 38 b3))) b3 = Some b4"
    "length b4 = length b3" "inet_checksum (take k (drop 38 b4)) = 0"
    "take (38 + 2) b4 = take (38 + 2) b3" "drop (38 + 2 + 2) b4 = drop (38 + 2 + 2) b3"
    by (rule put_checksum [OF p3(1) k(2) p3(4,5,2,3)]) simp_all
  have build: "build_igmpv3_join buf src_mac iface grp source = Some (b4, 38 + k)"
    using s1 b2(1,2) s3 b4(1) assms(1) b1 b3 k
    by (simp add: build_igmpv3_join_def mem_read_Some flip: k_def)
  have pre: "take 38 b4 = take 38 b2"
  proof -
    have "take 38 b4 = take 38 (take (38 + 2) b4)" by simp
    also have "\<dots> = take 38 (take (38 + 2) b3)" by (simp only: b4(4))
    also have "\<dots> = take 38 b2" using b2(2) b1 assms(1) by (simp add: b3_def)
    finally show ?thesis .
  qed
  have "take 24 (drop 14 b4) = take 24 (drop 14 b2)"
    using arg_cong [OF pre, of "drop 14"] by (simp add: drop_take)
  moreover have "take 6 b4 = multicast_mac kReportDst"
  proof -
    have "take 6 b4 = take 6 (take 38 b4)" by simp
    also have "\<dots> = take 6 (take (14 + 10) b2)" by (simp add: pre)
    also have "\<dots> = take 6 h" using h(1) by (simp only: b2(4)) (simp add: b1_def)
    finally show ?thesis by (simp only: h(4))
  qed
  moreover have post: "drop 42 b4 = drop 4 r @ drop (38 + k) b2"
    using b4(5) b2(2) b1 assms(1) r(1) k(3) by (simp add: b3_def)
  have "take 4 (drop 50 b4) = be32 grp"
    using arg_cong [OF post, of "drop 8"] r k(3) by simp
  moreover have "drop (38 + k) b4 = drop (38 + k) buf"
  proof -
    have "drop (38 + k) b4 = drop (k - 4) (drop 42 b4)" using k(3) by simp
    also have "\<dots> = drop (38 + k) b2" using r(1) by (simp add: post)
    also have "\<dots> = drop (12 + k) (drop (14 + 10 + 2) b2)" by simp
    also have "\<dots> = drop (38 + k) buf" using h(1) by (simp only: b2(5)) (simp add: b1_def add.commute)
    finally show ?thesis .
  qed
  ultimately show ?thesis
    using build b2(3) b4(2,3) b3 by (simp add: k_def [symmetric] k(1))
qed

theorem igmp_join_wellformed_witness:
  "\<exists>b. build_igmpv3_join (replicate 60 0xaa) [2, 0, 0, 0, 0, 1] 0 0xef010203 0x0a000001 = Some (b, 58)
     \<and> inet_checksum (take 24 (drop 14 b)) = 0"
  using igmp_join_wellformed [of "replicate 60 0xaa" "[2, 0, 0, 0, 0, 1]" 0 "0xef010203" "0x0a000001"] by auto

lemma mac_low23:
  fixes g :: u32
  shows "drop 3 (multicast_mac g) =
    [ucast (drop_bit 16 (g AND 0x7fffff)), ucast (drop_bit 8 (g AND 0x7fffff)), ucast (g AND 0x7fffff)]"
proof -
  have m: "(0x7fffff :: u32) = mask 23" "(0x7f :: u32) = mask 7" "(0xff :: u32) = mask 8"
    by (simp_all add: mask_eq_exp_minus_1)
  have "ucast (drop_bit 16 g AND 0x7f) = (ucast (drop_bit 16 (g AND 0x7fffff)) :: u8)"
    "ucast (drop_bit 8 g AND 0xff) = (ucast (drop_bit 8 (g AND 0x7fffff)) :: u8)"
    "ucast (g AND 0xff) = (ucast (g AND 0x7fffff) :: u8)"
    unfolding m by (rule bit_word_eqI, auto simp: bit_simps)+
  then show ?thesis by (simp add: multicast_mac_def)
qed

text \<open>The RFC 1112 mapping is exactly the low 23 bits: two groups map to the same Ethernet
  address if and only if their low 23 bits agree (so 32 groups share one address), and the
  prefix is always 01:00:5e with the top bit of the fourth byte clear.\<close>
theorem multicast_mac_low_bits:
  "(multicast_mac g = multicast_mac g' \<longleftrightarrow> g AND 0x7fffff = g' AND 0x7fffff) \<and>
   take 3 (multicast_mac g) = [0x01, 0x00, 0x5e] \<and> \<not> bit (multicast_mac g ! 3) 7"
proof (intro conjI)
  have inj: "x = y" if "drop 3 (multicast_mac x) = drop 3 (multicast_mac y)"
      "x AND 0x7fffff = x" "y AND 0x7fffff = y" for x y :: u32
  proof -
    have m: "(0x7fffff :: u32) = mask 23" by (simp add: mask_eq_exp_minus_1)
    have hi: "\<not> bit x n" "\<not> bit y n" if "23 \<le> n" for n
      using that \<open>x AND 0x7fffff = x\<close> \<open>y AND 0x7fffff = y\<close> unfolding m
      by (metis bit_and_iff bit_mask_iff not_le)+
    have eq: "ucast (drop_bit 16 x) = (ucast (drop_bit 16 y) :: u8)"
      "ucast (drop_bit 8 x) = (ucast (drop_bit 8 y) :: u8)" "ucast x = (ucast y :: u8)"
      using that by (simp_all only: mac_low23) simp_all
    show ?thesis
    proof (rule bit_word_eqI)
      fix n :: nat assume "n < LENGTH(32)"
      consider "n < 8" | "8 \<le> n" "n < 16" | "16 \<le> n" "n < 23" | "23 \<le> n" by linarith
      then show "bit x n = bit y n"
      proof cases
        case 1 then show ?thesis using arg_cong [OF eq(3), of "\<lambda>w. bit w n"] by (simp add: bit_simps)
      next
        case 2
        then have "n - 8 < 8" by simp
        then show ?thesis using 2 arg_cong [OF eq(2), of "\<lambda>w. bit w (n - 8)"] by (simp add: bit_simps)
      next
        case 3
        then have "n - 16 < 8" by simp
        then show ?thesis using 3 arg_cong [OF eq(1), of "\<lambda>w. bit w (n - 16)"] by (simp add: bit_simps)
      next
        case 4 then show ?thesis using hi by blast
      qed
    qed
  qed
  have idem: "(w AND 0x7fffff) AND 0x7fffff = w AND 0x7fffff" for w :: u32
    by (simp add: and.assoc)
  have low: "multicast_mac w = multicast_mac (w AND 0x7fffff)" for w
  proof -
    have "take 3 (multicast_mac w) = take 3 (multicast_mac (w AND 0x7fffff))"
      by (simp add: multicast_mac_def)
    moreover have "drop 3 (multicast_mac w) = drop 3 (multicast_mac (w AND 0x7fffff))"
      by (simp only: mac_low23 idem)
    ultimately show ?thesis by (metis append_take_drop_id)
  qed
  show "multicast_mac g = multicast_mac g' \<longleftrightarrow> g AND 0x7fffff = g' AND 0x7fffff"
    using inj [of "g AND 0x7fffff" "g' AND 0x7fffff"] low idem by metis
  show "take 3 (multicast_mac g) = [0x01, 0x00, 0x5e]" "\<not> bit (multicast_mac g ! 3) 7"
    by (simp_all add: multicast_mac_def bit_simps)
qed

end
