(* ===== verification/Dpdk_Common.thy ===== *)
theory Dpdk_Common
  imports Net_Addr
begin

text \<open>
  What the two DPDK backends share: integers in network byte order held in native words, errors
  (\<open>die\<close> throws, here the left of a sum), the port search, and the process-wide EAL of
  \<open>engine/operators/common/dpdk_eal.cpp\<close>.  The hosts are little-endian.  DPDK itself is a library:
  each call the code makes is a parameter, its result given by the caller of the definition.
\<close>

section \<open>Network order in native words\<close>

definition le16 :: "u16 \<Rightarrow> bytes" where
  "le16 v = [ucast v, ucast (drop_bit 8 v)]"

definition le32 :: "u32 \<Rightarrow> bytes" where
  "le32 v = [ucast v, ucast (drop_bit 8 v), ucast (drop_bit 16 v), ucast (drop_bit 24 v)]"

definition ld16 :: "bytes \<Rightarrow> u16" where
  "ld16 b = rd16 (b ! 1) (b ! 0)"

definition ld32 :: "bytes \<Rightarrow> u32" where
  "ld32 b = rd32 (b ! 3) (b ! 2) (b ! 1) (b ! 0)"

definition bswap16 :: "u16 \<Rightarrow> u16" where
  "bswap16 v = rd16 (ucast v) (ucast (drop_bit 8 v))"

definition bswap32 :: "u32 \<Rightarrow> u32" where
  "bswap32 v = rd32 (ucast v) (ucast (drop_bit 8 v)) (ucast (drop_bit 16 v)) (ucast (drop_bit 24 v))"

lemma length_le16 [simp]: "length (le16 v) = 2"
  by (simp add: le16_def)

lemma length_le32 [simp]: "length (le32 v) = 4"
  by (simp add: le32_def)

lemma ld16_le16 [simp]: "ld16 (le16 v) = v"
  by (simp add: ld16_def le16_def)

lemma ld32_le32 [simp]: "ld32 (le32 v) = v"
  by (simp add: ld32_def le32_def)

lemma rd16_bytes [simp]:
  "ucast (rd16 a b) = b" "ucast (drop_bit 8 (rd16 a b)) = a"
  unfolding rd16_def by (rule bit_word_eqI; auto simp: bit_simps dest: bit_imp_le_length)+

lemma rd32_bytes [simp]:
  "ucast (rd32 a b c d) = d" "ucast (drop_bit 8 (rd32 a b c d)) = c"
  "ucast (drop_bit 16 (rd32 a b c d)) = b" "ucast (drop_bit 24 (rd32 a b c d)) = a"
  unfolding rd32_def by (rule bit_word_eqI; auto simp: bit_simps dest: bit_imp_le_length)+

lemma bswap16_bswap16 [simp]: "bswap16 (bswap16 v) = v"
  by (simp add: bswap16_def)

lemma bswap32_bswap32 [simp]: "bswap32 (bswap32 v) = v"
  by (simp add: bswap32_def)

lemma le16_bswap16 [simp]: "le16 (bswap16 v) = be16 v"
  by (simp add: le16_def bswap16_def be16_def)

lemma le32_bswap32 [simp]: "le32 (bswap32 v) = be32 v"
  by (simp add: le32_def bswap32_def be32_def)

section \<open>Errors\<close>

definition ebind :: "'e + 'a \<Rightarrow> ('a \<Rightarrow> 'e + 'b) \<Rightarrow> 'e + 'b" where
  "ebind m f = (case m of Inl e \<Rightarrow> Inl e | Inr a \<Rightarrow> f a)"

definition need :: "bool \<Rightarrow> string \<Rightarrow> string + unit" where
  "need ok msg = (if ok then Inr () else Inl msg)"

definition need_some :: "'a option \<Rightarrow> string \<Rightarrow> string + 'a" where
  "need_some r msg = (case r of Some a \<Rightarrow> Inr a | None \<Rightarrow> Inl msg)"

lemma ebind_simps [simp]: "ebind (Inl e) f = Inl e" "ebind (Inr a) f = f a"
  by (simp_all add: ebind_def)

lemma ebind_Inr_iff: "ebind m f = Inr b \<longleftrightarrow> (\<exists>a. m = Inr a \<and> f a = Inr b)"
  by (cases m) simp_all

lemma need_Inr_iff [simp]: "need ok msg = Inr u \<longleftrightarrow> ok"
  by (simp add: need_def)

lemma need_some_Inr_iff [simp]: "need_some r msg = Inr a \<longleftrightarrow> r = Some a"
  by (cases r) (simp_all add: need_some_def)

lemma need_simps [simp]: "need True msg = Inr ()" "need False msg = Inl msg"
  "need_some (Some a) msg = Inr a" "need_some None msg = Inl msg"
  by (simp_all add: need_def need_some_def)

section \<open>Ports\<close>

text \<open>The ports in enumeration order, each with its device name when the port has one.\<close>

fun find_port_by_pci :: "(u16 \<times> string option) list \<Rightarrow> string \<Rightarrow> u16 option" where
  "find_port_by_pci [] pci = None"
| "find_port_by_pci ((p, name) # ps) pci =
     (if name = Some pci then Some p else find_port_by_pci ps pci)"

section \<open>The shared EAL\<close>

record dpdk_eal =
  el_allow :: "string list"
  el_inited :: bool

definition eal_new :: dpdk_eal where
  "eal_new = \<lparr>el_allow = [], el_inited = False\<rparr>"

definition add_device :: "string \<Rightarrow> string \<Rightarrow> dpdk_eal \<Rightarrow> dpdk_eal" where
  "add_device pci devargs e =
     (if el_inited e then e
      else e\<lparr>el_allow := el_allow e @ [if devargs = '''' then pci else pci @ '','' @ devargs]\<rparr>)"

fun eal_allow_args :: "string list \<Rightarrow> string list" where
  "eal_allow_args [] = []"
| "eal_allow_args (a # as) = ''-a'' # a # eal_allow_args as"

definition eal_args :: "string \<Rightarrow> string \<Rightarrow> dpdk_eal \<Rightarrow> string list" where
  "eal_args core_list file_prefix e =
     [''spark'', ''-l'', core_list, ''--file-prefix'', file_prefix] @ eal_allow_args (el_allow e)"

text \<open>\<open>eal_up\<close> is whether \<open>rte_eal_init\<close> accepts an argument list.\<close>

definition eal_init :: "(string list \<Rightarrow> bool) \<Rightarrow> string \<Rightarrow> string \<Rightarrow> dpdk_eal \<Rightarrow> string + dpdk_eal" where
  "eal_init eal_up core_list file_prefix e =
     (if el_inited e then Inr e
      else if eal_up (eal_args core_list file_prefix e) then Inr (e\<lparr>el_inited := True\<rparr>)
      else Inl ''rte_eal_init failed'')"

end
