(* ===== verification/Tx_Backend.thy ===== *)
theory Tx_Backend
  imports Dpdk_Common "HOL-Library.Multiset" "HOL-Library.Sublist"
begin

text \<open>
  The transmit backend, \<open>engine/operators/st2110_tx/tx_backend.hpp\<close> and \<open>dpdk_tx_backend.cpp\<close>: bring-up,
  packet reservation with its header cache, the pending array and its drain, and the audio queue.
  A mbuf is its data room (the bytes from the data pointer on) with the fields the code sets.  The
  results of DPDK calls are parameters: \<open>tx_env\<close> for bring-up, the data room an allocation returns,
  \<open>cksum\<close> for \<open>rte_ipv4_cksum\<close>, and for \<open>rte_eth_tx_burst\<close> an oracle from the number of the call and
  the packets offered to the packets taken.
\<close>

section \<open>State\<close>

record tx_backend_config =
  tc_pci_addr :: string
  tc_dst_mac :: bytes
  tc_src_ip :: string
  tc_dst_ip :: string
  tc_udp_port :: u16
  tc_tx_pp_ns :: u32
  tc_txd :: u16
  tc_mtu :: u16
  tc_eal_core_list :: string
  tc_file_prefix :: string
  tc_pacing :: bool
  tc_manage_eal :: bool
  tc_audio_dst_ip :: string
  tc_audio_udp_port :: u16

definition default_tx_config :: tx_backend_config where
  "default_tx_config =
     \<lparr>tc_pci_addr = '''', tc_dst_mac = replicate 6 0, tc_src_ip = ''192.168.50.10'',
      tc_dst_ip = ''239.0.0.1'', tc_udp_port = 20000, tc_tx_pp_ns = 500, tc_txd = 2048, tc_mtu = 1500,
      tc_eal_core_list = ''0,1'', tc_file_prefix = ''spark_tx'', tc_pacing = True, tc_manage_eal = True,
      tc_audio_dst_ip = '''', tc_audio_udp_port = 0\<rparr>"

record tx_stats =
  ts_tx_packets :: u64
  ts_tx_bytes :: u64
  ts_future_errors :: u64
  ts_past_errors :: u64
  ts_jitter_ns :: u64
  ts_wander_ns :: u64
  ts_sync_lost :: u64

record tx_mbuf =
  mb_data :: bytes
  mb_data_len :: u16
  mb_pkt_len :: u32
  mb_timestamp :: u64
  mb_ol_flags :: u64

record tx_backend =
  tb_cfg :: tx_backend_config
  tb_eal_inited :: bool
  tb_port :: "u16 option"
  tb_src_mac :: bytes
  tb_dst_mac :: bytes
  tb_src_ip_be :: u32
  tb_dst_ip_be :: u32
  tb_udp_port_be :: u16
  tb_hdr_cache :: bytes
  tb_hdr_cache_len :: u32
  tb_want_audio :: bool
  tb_audio_ok :: bool
  tb_audio_dst_mac :: bytes
  tb_audio_dst_ip_be :: u32
  tb_audio_port_be :: u16
  tb_audio_hdr_cache :: bytes
  tb_audio_hdr_cache_len :: u32
  tb_audio_dropped :: u64
  tb_ts_field_off :: int
  tb_ts_flag :: u64
  tb_have_ts :: bool
  tb_pending :: "tx_mbuf list"
  tb_spin :: u64
  tb_dropped :: u64
  tb_calls :: nat

definition kL2L3L4Hdr :: nat where "kL2L3L4Hdr = 14 + 20 + 8"
definition kTxBurst :: nat where "kTxBurst = 32"

definition tx_backend_new :: tx_backend where
  "tx_backend_new =
     \<lparr>tb_cfg = default_tx_config, tb_eal_inited = False, tb_port = None, tb_src_mac = replicate 6 0,
      tb_dst_mac = replicate 6 0, tb_src_ip_be = 0, tb_dst_ip_be = 0, tb_udp_port_be = 0,
      tb_hdr_cache = replicate kL2L3L4Hdr 0, tb_hdr_cache_len = 0, tb_want_audio = False,
      tb_audio_ok = False, tb_audio_dst_mac = replicate 6 0, tb_audio_dst_ip_be = 0,
      tb_audio_port_be = 0, tb_audio_hdr_cache = replicate kL2L3L4Hdr 0, tb_audio_hdr_cache_len = 0,
      tb_audio_dropped = 0, tb_ts_field_off = -1, tb_ts_flag = 0, tb_have_ts = False, tb_pending = [],
      tb_spin = 0, tb_dropped = 0, tb_calls = 0\<rparr>"

section \<open>Bring-up\<close>

text \<open>The results of the library calls \<open>init\<close> makes.  What the driver says of a port may depend on what was
  asked of it before: a configuration on the queue counts refused so far, the descriptor adjustment and
  a queue's set-up on the number of queues configured, the start on that number and on whether the audio
  queue is set up.\<close>

record tx_env =
  te_eal_up :: "string list \<Rightarrow> bool"
  te_pool_ok :: bool
  te_inet_pton :: "string \<Rightarrow> u32 option"
  te_ports :: "(u16 \<times> string option) list"
  te_send_on_timestamp :: "u16 \<Rightarrow> bool option"
  te_configure_ok :: "u16 \<Rightarrow> nat list \<Rightarrow> nat \<Rightarrow> bool"
  te_adjust_txd :: "u16 \<Rightarrow> nat \<Rightarrow> u16 \<Rightarrow> u16 option"
  te_tx_queue_ok :: "u16 \<Rightarrow> nat \<Rightarrow> nat \<Rightarrow> u16 \<Rightarrow> bool"
  te_dynfield :: int
  te_dynflag :: int
  te_dev_start_ok :: "u16 \<Rightarrow> nat \<Rightarrow> bool \<Rightarrow> bool"
  te_macaddr :: "u16 \<Rightarrow> bytes"

text \<open>\<open>std::to_string\<close> of an unsigned number.\<close>

fun to_digits :: "nat \<Rightarrow> string" where
  "to_digits n = (if n < 10 then [char_of (48 + n)] else to_digits (n div 10) @ [char_of (48 + n mod 10)])"

declare to_digits.simps [simp del]

definition tx_eal_args :: "tx_backend_config \<Rightarrow> string list" where
  "tx_eal_args cfg =
     (let allow = tc_pci_addr cfg @
            (if tc_pacing cfg then '',tx_pp='' @ to_digits (unat (tc_tx_pp_ns cfg)) else '''')
      in [''spark_tx'', ''-l'', tc_eal_core_list cfg, ''-a'', allow, ''--file-prefix'', tc_file_prefix cfg])"

definition own_eal_init :: "tx_env \<Rightarrow> tx_backend \<Rightarrow> string + tx_backend" where
  "own_eal_init env s =
     (if te_eal_up env (tx_eal_args (tb_cfg s)) then Inr (s\<lparr>tb_eal_inited := True\<rparr>)
      else Inl ''rte_eal_init failed'')"

definition want_audio_addrs :: "tx_env \<Rightarrow> tx_backend \<Rightarrow> string + tx_backend" where
  "want_audio_addrs env s =
     (if tc_audio_dst_ip (tb_cfg s) \<noteq> '''' \<and> tc_audio_udp_port (tb_cfg s) \<noteq> 0 then
        ebind (need_some (te_inet_pton env (tc_audio_dst_ip (tb_cfg s))) ''bad audio_dst_ip'') (\<lambda>adst.
        Inr (s\<lparr>tb_audio_dst_ip_be := adst, tb_audio_port_be := bswap16 (tc_audio_udp_port (tb_cfg s)),
               tb_audio_dst_mac := (if ipv4_is_multicast (bswap32 adst) then multicast_mac (bswap32 adst)
                                    else tc_dst_mac (tb_cfg s)),
               tb_want_audio := True\<rparr>))
      else Inr s)"

definition resolve_dst_mac :: "tx_backend \<Rightarrow> tx_backend" where
  "resolve_dst_mac s =
     (let mac_set = (\<exists>b\<in>set (tc_dst_mac (tb_cfg s)). b \<noteq> 0);
          dst_ip_host = bswap32 (tb_dst_ip_be s)
      in if \<not> mac_set \<and> ipv4_is_multicast dst_ip_host then s\<lparr>tb_dst_mac := multicast_mac dst_ip_host\<rparr>
         else s\<lparr>tb_dst_mac := tc_dst_mac (tb_cfg s)\<rparr>)"

definition create_pool_and_addrs :: "tx_env \<Rightarrow> tx_backend \<Rightarrow> string + tx_backend" where
  "create_pool_and_addrs env s =
     ebind (need (te_pool_ok env) ''rte_pktmbuf_pool_create failed'') (\<lambda>_.
     ebind (need_some (te_inet_pton env (tc_src_ip (tb_cfg s))) ''bad src_ip'') (\<lambda>src.
     ebind (need_some (te_inet_pton env (tc_dst_ip (tb_cfg s))) ''bad dst_ip'') (\<lambda>dst.
     ebind (want_audio_addrs env (s\<lparr>tb_src_ip_be := src, tb_dst_ip_be := dst,
               tb_udp_port_be := bswap16 (tc_udp_port (tb_cfg s))\<rparr>)) (\<lambda>s1.
     Inr (resolve_dst_mac s1)))))"

text \<open>The two-queue configuration with its video-only fallback, with the number of queues configured; then
  the queues.\<close>

definition configure_queues :: "tx_env \<Rightarrow> u16 \<Rightarrow> tx_backend \<Rightarrow> string + nat \<times> tx_backend" where
  "configure_queues env port s =
     (let nb_txq = (if tb_want_audio s then 2 else 1) in
      if te_configure_ok env port [] nb_txq then Inr (nb_txq, s)
      else if \<not> tb_want_audio s then Inl ''rte_eth_dev_configure failed''
      else if te_configure_ok env port [2] 1 then Inr (1, s\<lparr>tb_want_audio := False\<rparr>)
      else Inl ''rte_eth_dev_configure failed'')"

definition audio_queue :: "tx_env \<Rightarrow> u16 \<Rightarrow> nat \<Rightarrow> tx_backend \<Rightarrow> tx_backend" where
  "audio_queue env port nb_txq s =
     (if tb_want_audio s then
        if te_tx_queue_ok env port nb_txq 1 512 then s\<lparr>tb_audio_ok := True\<rparr> else s\<lparr>tb_want_audio := False\<rparr>
      else s)"

text \<open>The number of queues configured is the port's, not the backend's.\<close>

definition setup_port :: "tx_env \<Rightarrow> u16 \<Rightarrow> tx_backend \<Rightarrow> string + nat \<times> tx_backend" where
  "setup_port env port s =
     ebind (need_some (te_send_on_timestamp env port) ''rte_eth_dev_info_get failed'') (\<lambda>capable.
     ebind (need (tc_pacing (tb_cfg s) \<longrightarrow> capable) ''NIC lacks SEND_ON_TIMESTAMP offload'') (\<lambda>_.
     ebind (configure_queues env port s) (\<lambda>(nb_txq, s1).
     ebind (need_some (te_adjust_txd env port nb_txq (tc_txd (tb_cfg s1))) ''adjust_nb_rx_tx_desc failed'') (\<lambda>nb_txd.
     ebind (need (te_tx_queue_ok env port nb_txq 0 nb_txd) ''rte_eth_tx_queue_setup failed'') (\<lambda>_.
     Inr (nb_txq, audio_queue env port nb_txq (s1\<lparr>tb_cfg := (tb_cfg s1)\<lparr>tc_txd := nb_txd\<rparr>\<rparr>)))))))"

definition lookup_timestamp_dynfield :: "tx_env \<Rightarrow> tx_backend \<Rightarrow> tx_backend" where
  "lookup_timestamp_dynfield env s =
     (if \<not> tc_pacing (tb_cfg s) then s
      else
        let s1 = s\<lparr>tb_ts_field_off := te_dynfield env\<rparr>
        in if te_dynfield env < 0 \<or> te_dynflag env < 0 then s1\<lparr>tb_have_ts := False\<rparr>
           else s1\<lparr>tb_ts_flag := push_bit (nat (te_dynflag env)) 1, tb_have_ts := True\<rparr>)"

definition tx_init :: "tx_env \<Rightarrow> dpdk_eal \<Rightarrow> tx_backend_config \<Rightarrow> tx_backend \<Rightarrow> string + tx_backend" where
  "tx_init env eal cfg s =
     ebind (let s0 = s\<lparr>tb_cfg := cfg\<rparr> in
            if tc_manage_eal cfg then own_eal_init env s0
            else if \<not> el_inited eal then Inl ''manage_eal=false but shared EAL is not initialized''
            else Inr s0) (\<lambda>s1.
     ebind (create_pool_and_addrs env s1) (\<lambda>s2.
     ebind (need_some (find_port_by_pci (te_ports env) (tc_pci_addr cfg)) ''no DPDK port matches PCI'') (\<lambda>port.
     ebind (setup_port env port (s2\<lparr>tb_port := Some port\<rparr>)) (\<lambda>(nb_txq, s3).
     let s4 = lookup_timestamp_dynfield env s3 in
     ebind (need (te_dev_start_ok env port nb_txq (tb_audio_ok s4)) ''rte_eth_dev_start failed'') (\<lambda>_.
     Inr (s4\<lparr>tb_src_mac := te_macaddr env port\<rparr>))))))"

definition tx_shutdown :: "tx_backend \<Rightarrow> tx_backend" where
  "tx_shutdown s = s\<lparr>tb_port := None, tb_eal_inited := False\<rparr>"

section \<open>Headers and reservation\<close>

text \<open>The stores of \<open>build_headers\<close> up to the checksum, then the checksum over the header as stored,
  then the UDP header.\<close>

definition eth_ip_stores :: "u32 \<Rightarrow> bytes \<Rightarrow> u32 \<Rightarrow> tx_backend \<Rightarrow> (nat \<times> bytes) list" where
  "eth_ip_stores payload_len dmac dip_be s =
     [(0, take 6 dmac), (6, take 6 (tb_src_mac s)), (12, le16 (bswap16 0x0800)),
      (14, [0x45]), (15, [0xb8]), (16, le16 (bswap16 (ucast (20 + 8 + payload_len)))),
      (18, le16 0), (20, le16 0), (22, [64]), (23, [17]), (24, le16 0),
      (26, le32 (tb_src_ip_be s)), (30, le32 dip_be)]"

definition udp_stores :: "u32 \<Rightarrow> u16 \<Rightarrow> (nat \<times> bytes) list" where
  "udp_stores payload_len port_be =
     [(34, le16 port_be), (36, le16 port_be), (38, le16 (bswap16 (ucast (8 + payload_len)))), (40, le16 0)]"

definition build_headers ::
  "(bytes \<Rightarrow> u16) \<Rightarrow> bytes \<Rightarrow> u32 \<Rightarrow> bytes \<Rightarrow> u32 \<Rightarrow> u16 \<Rightarrow> tx_backend \<Rightarrow> bytes option" where
  "build_headers cksum p payload_len dmac dip_be port_be s = do {
     p1 \<leftarrow> mem_stores p (eth_ip_stores payload_len dmac dip_be s);
     ip \<leftarrow> mem_read p1 14 20;
     p2 \<leftarrow> mem_write p1 24 (le16 (cksum ip));
     mem_stores p2 (udp_stores payload_len port_be)
   }"

definition mk_mbuf :: "u32 \<Rightarrow> bytes \<Rightarrow> tx_mbuf" where
  "mk_mbuf payload_len p =
     \<lparr>mb_data = p, mb_data_len = ucast (of_nat kL2L3L4Hdr + payload_len :: u32),
      mb_pkt_len = of_nat kL2L3L4Hdr + payload_len, mb_timestamp = 0, mb_ol_flags = 0\<rparr>"

text \<open>The result is undefined when a store leaves the data room, and an error when the pool is empty.\<close>

definition reserve_packet ::
  "(bytes \<Rightarrow> u16) \<Rightarrow> bytes option \<Rightarrow> u32 \<Rightarrow> tx_backend \<Rightarrow> (string + tx_mbuf \<times> tx_backend) option" where
  "reserve_packet cksum room payload_len s =
     (case room of
        None \<Rightarrow> Some (Inl ''mbuf pool exhausted'')
      | Some p \<Rightarrow>
          if payload_len = tb_hdr_cache_len s then do {
            p1 \<leftarrow> mem_write p 0 (tb_hdr_cache s);
            Some (Inr (mk_mbuf payload_len p1, s))
          } else do {
            p1 \<leftarrow> build_headers cksum p payload_len (tb_dst_mac s) (tb_dst_ip_be s) (tb_udp_port_be s) s;
            Some (Inr (mk_mbuf payload_len p1,
                       s\<lparr>tb_hdr_cache := take kL2L3L4Hdr p1, tb_hdr_cache_len := payload_len\<rparr>))
          })"

definition reserve_audio ::
  "(bytes \<Rightarrow> u16) \<Rightarrow> bytes option \<Rightarrow> u32 \<Rightarrow> tx_backend \<Rightarrow> (string + tx_mbuf \<times> tx_backend) option" where
  "reserve_audio cksum room payload_len s =
     (if \<not> tb_audio_ok s then Some (Inl ''reserve_audio without an audio channel'')
      else case room of
        None \<Rightarrow> Some (Inl ''mbuf pool exhausted (audio)'')
      | Some p \<Rightarrow>
          if payload_len = tb_audio_hdr_cache_len s then do {
            p1 \<leftarrow> mem_write p 0 (tb_audio_hdr_cache s);
            Some (Inr (mk_mbuf payload_len p1, s))
          } else do {
            p1 \<leftarrow> build_headers cksum p payload_len (tb_audio_dst_mac s) (tb_audio_dst_ip_be s)
                   (tb_audio_port_be s) s;
            Some (Inr (mk_mbuf payload_len p1,
                       s\<lparr>tb_audio_hdr_cache := take kL2L3L4Hdr p1, tb_audio_hdr_cache_len := payload_len\<rparr>))
          })"

section \<open>Submission\<close>

definition stamp_mbuf :: "u64 \<Rightarrow> tx_backend \<Rightarrow> tx_mbuf \<Rightarrow> tx_mbuf" where
  "stamp_mbuf send_ts_ns s m =
     (if tc_pacing (tb_cfg s) \<and> tb_have_ts s \<and> send_ts_ns \<noteq> 0
      then m\<lparr>mb_timestamp := send_ts_ns, mb_ol_flags := mb_ol_flags m OR tb_ts_flag s\<rparr> else m)"

definition spin_room :: "u64 \<Rightarrow> nat" where
  "spin_room spin = (if spin + 1 = 0 then 1000002 else 1000001 - unat spin)"

lemma spin_room_step:
  assumes "spin + 1 \<le> 1000000"
  shows "spin_room (spin + 1) < spin_room spin"
proof (cases "spin + 1 = 0")
  case False
  then have "unat (spin + 1) = unat spin + 1" by (metis add.commute unatSuc Suc_eq_plus1)
  moreover have "unat (spin + 1) \<le> 1000000" using assms by (simp add: word_le_nat_alt)
  moreover from \<open>unat (spin + 1) \<le> 1000000\<close> have "unat (spin + 1 + 1) = unat (spin + 1) + 1"
    by (subst unat_add_noov) simp_all
  then have "spin + 1 + 1 \<noteq> 0" by (metis add_is_0 unat_0 zero_neq_one)
  ultimately show ?thesis using False by (simp add: spin_room_def)
qed (simp add: spin_room_def)

text \<open>The loop of \<open>drain_pending\<close> on the packets not yet sent: the packets the NIC took, those freed
  after the spin limit, and the counters.\<close>

function drain_loop ::
  "(nat \<Rightarrow> nat \<Rightarrow> nat) \<Rightarrow> nat \<Rightarrow> u64 \<Rightarrow> 'm list \<Rightarrow> 'm list \<times> 'm list \<times> nat \<times> u64" where
  "drain_loop burst calls spin rest =
     (if rest = [] then ([], [], calls, spin)
      else
        let n = burst calls (length rest) in
        if n = 0 then
          if spin + 1 > 1000000 then ([], rest, calls + 1, spin + 1)
          else drain_loop burst (calls + 1) (spin + 1) rest
        else
          let (sent, freed, calls', spin') = drain_loop burst (calls + 1) 0 (drop n rest)
          in (take n rest @ sent, freed, calls', spin'))"
  by auto
termination
  by (relation "measures [\<lambda>(_, _, _, rest). length rest, \<lambda>(_, _, spin, _). spin_room spin]")
    (auto simp: spin_room_step)

declare drain_loop.simps [simp del]

definition drain_pending ::
  "(nat \<Rightarrow> nat \<Rightarrow> nat) \<Rightarrow> tx_backend \<Rightarrow> tx_mbuf list \<times> tx_mbuf list \<times> tx_backend" where
  "drain_pending burst s =
     (let (sent, freed, calls, spin) = drain_loop burst (tb_calls s) (tb_spin s) (tb_pending s)
      in (sent, freed, s\<lparr>tb_pending := [], tb_calls := calls, tb_spin := spin,
                        tb_dropped := tb_dropped s + of_nat (length freed)\<rparr>))"

text \<open>\<open>submit\<close> stores past the end of \<open>pending_\<close> when the array is full.\<close>

definition submit ::
  "(nat \<Rightarrow> nat \<Rightarrow> nat) \<Rightarrow> tx_mbuf \<Rightarrow> u64 \<Rightarrow> tx_backend \<Rightarrow> (tx_mbuf list \<times> tx_mbuf list \<times> tx_backend) option" where
  "submit burst m send_ts_ns s =
     (if length (tb_pending s) \<ge> kTxBurst then None
      else
        let s1 = s\<lparr>tb_pending := tb_pending s @ [stamp_mbuf send_ts_ns s m]\<rparr>
        in Some (if length (tb_pending s1) = kTxBurst then drain_pending burst s1 else ([], [], s1)))"

definition tx_flush ::
  "(nat \<Rightarrow> nat \<Rightarrow> nat) \<Rightarrow> tx_backend \<Rightarrow> tx_mbuf list \<times> tx_mbuf list \<times> tx_backend" where
  "tx_flush burst s = drain_pending burst s"

fun burst_retry :: "(nat \<Rightarrow> nat \<Rightarrow> nat) \<Rightarrow> nat \<Rightarrow> nat \<Rightarrow> bool" where
  "burst_retry burst calls 0 = False"
| "burst_retry burst calls (Suc tries) =
     (burst calls 1 = 1 \<or> burst_retry burst (calls + 1) tries)"

definition submit_audio ::
  "(nat \<Rightarrow> nat \<Rightarrow> nat) \<Rightarrow> tx_mbuf \<Rightarrow> u64 \<Rightarrow> tx_backend \<Rightarrow> tx_mbuf option \<times> tx_backend" where
  "submit_audio burst m send_ts_ns s =
     (if burst_retry burst 0 1000 then (Some (stamp_mbuf send_ts_ns s m), s)
      else (None, s\<lparr>tb_audio_dropped := tb_audio_dropped s + 1\<rparr>))"

text \<open>A frame's worth of submissions, in order.\<close>

fun submit_all ::
  "(nat \<Rightarrow> nat \<Rightarrow> nat) \<Rightarrow> (tx_mbuf \<times> u64) list \<Rightarrow> tx_backend \<Rightarrow>
   (tx_mbuf list \<times> tx_mbuf list \<times> tx_backend) option" where
  "submit_all burst [] s = Some ([], [], s)"
| "submit_all burst ((m, ts) # ms) s = do {
     (sent1, freed1, s1) \<leftarrow> submit burst m ts s;
     (sent2, freed2, s2) \<leftarrow> submit_all burst ms s1;
     Some (sent1 @ sent2, freed1 @ freed2, s2)
   }"


section \<open>The header bytes\<close>

text \<open>What \<open>build_headers\<close> stores, as one byte string.\<close>

definition ip_bytes :: "u32 \<Rightarrow> u32 \<Rightarrow> u16 \<Rightarrow> tx_backend \<Rightarrow> bytes" where
  "ip_bytes payload_len dip_be ck s =
     [0x45, 0xb8] @ be16 (ucast (28 + payload_len)) @ [0, 0, 0, 0, 64, 17] @ le16 ck @
     le32 (tb_src_ip_be s) @ le32 dip_be"

definition header_bytes :: "(bytes \<Rightarrow> u16) \<Rightarrow> u32 \<Rightarrow> bytes \<Rightarrow> u32 \<Rightarrow> u16 \<Rightarrow> tx_backend \<Rightarrow> bytes" where
  "header_bytes cksum payload_len dmac dip_be port_be s =
     dmac @ tb_src_mac s @ [0x08, 0x00] @
     ip_bytes payload_len dip_be (cksum (ip_bytes payload_len dip_be 0 s)) s @
     le16 port_be @ le16 port_be @ be16 (ucast (8 + payload_len)) @ [0, 0]"

lemma length_ip_bytes [simp]: "length (ip_bytes payload_len dip_be ck s) = 20"
  by (simp add: ip_bytes_def)

lemma length_header_bytes:
  "length dmac = 6 \<Longrightarrow> length (tb_src_mac s) = 6 \<Longrightarrow>
   length (header_bytes cksum payload_len dmac dip_be port_be s) = kL2L3L4Hdr"
  by (simp add: header_bytes_def kL2L3L4Hdr_def)

lemma ip_bytes_checksum:
  "take 10 (ip_bytes payload_len dip_be 0 s) @ le16 ck @ drop 12 (ip_bytes payload_len dip_be 0 s) =
   ip_bytes payload_len dip_be ck s"
  by (simp add: ip_bytes_def be16_def le16_def le32_def)

lemma eth_ip_stores_bytes:
  assumes "length dmac = 6" "length (tb_src_mac s) = 6" "34 \<le> length p"
  shows "mem_stores p (eth_ip_stores payload_len dmac dip_be s) =
    Some ((dmac @ tb_src_mac s @ [0x08, 0x00]) @ ip_bytes payload_len dip_be 0 s @ drop 34 p)"
proof -
  let ?ws = "eth_ip_stores payload_len dmac dip_be s"
  have c: "contiguous 0 ?ws" using assms(1,2) by (simp add: eth_ip_stores_def)
  have e: "le16 (bswap16 0x0800) = [0x08, 0x00]" by (simp add: be16_def)
  have "concat (map snd ?ws) = (dmac @ tb_src_mac s @ [0x08, 0x00]) @ ip_bytes payload_len dip_be 0 s"
    using assms(1,2) unfolding eth_ip_stores_def e by (simp add: ip_bytes_def) (simp add: le16_def)
  then show ?thesis
    using mem_stores_contiguous [OF c, of p] assms by (simp add: add.commute)
qed

lemma build_headers_eq:
  assumes "length dmac = 6" "length (tb_src_mac s) = 6" "kL2L3L4Hdr \<le> length p"
  shows "build_headers cksum p payload_len dmac dip_be port_be s =
    Some (header_bytes cksum payload_len dmac dip_be port_be s @ drop kL2L3L4Hdr p)"
proof -
  let ?eth = "dmac @ tb_src_mac s @ [0x08, 0x00]" and ?ip = "ip_bytes payload_len dip_be"
  let ?ck = "cksum (?ip 0 s)" and ?us = "udp_stores payload_len port_be"
  have eth: "length ?eth = 14" using assms by simp
  have r: "mem_read (?eth @ ?ip 0 s @ drop 34 p) 14 20 = Some (?ip 0 s)"
    using eth by (simp add: mem_read_def)
  let ?A = "?eth @ take 10 (?ip 0 s)" and ?B = "drop 12 (?ip 0 s) @ drop 34 p"
  have e1: "?eth @ ?ip 0 s @ drop 34 p = ?A @ [0, 0] @ ?B"
    by (subst ip_bytes_checksum [of payload_len dip_be s 0, symmetric]) (simp add: le16_def)
  have e2: "?A @ le16 ?ck @ ?B = ?eth @ ?ip ?ck s @ drop 34 p"
    by (subst ip_bytes_checksum [of payload_len dip_be s ?ck, symmetric]) simp
  have "mem_write (?A @ [0, 0] @ ?B) 24 (le16 ?ck) = Some (?A @ le16 ?ck @ ?B)"
    using eth by (intro mem_write_append) simp_all
  then have w: "mem_write (?eth @ ?ip 0 s @ drop 34 p) 24 (le16 ?ck) =
      Some (?eth @ ?ip ?ck s @ drop 34 p)"
    by (simp only: e1 e2)
  have c: "contiguous 34 ?us" by (simp add: udp_stores_def)
  have u: "concat (map snd ?us) = le16 port_be @ le16 port_be @ be16 (ucast (8 + payload_len)) @ [0, 0]"
    by (simp add: udp_stores_def) (simp add: le16_def)
  have "mem_stores (?eth @ ?ip ?ck s @ drop 34 p) ?us =
      Some (take 34 (?eth @ ?ip ?ck s @ drop 34 p) @ concat (map snd ?us) @ drop 42 (?eth @ ?ip ?ck s @ drop 34 p))"
    using mem_stores_contiguous [OF c, of "?eth @ ?ip ?ck s @ drop 34 p"] assms
    by (simp add: u kL2L3L4Hdr_def)
  also have "\<dots> = Some (header_bytes cksum payload_len dmac dip_be port_be s @ drop kL2L3L4Hdr p)"
    using assms by (simp add: u header_bytes_def kL2L3L4Hdr_def)
  finally show ?thesis
    using eth_ip_stores_bytes [of dmac s p payload_len dip_be] assms r w
    by (simp add: build_headers_def kL2L3L4Hdr_def)
qed


section \<open>The header cache\<close>

definition hdr_cache_ok :: "(bytes \<Rightarrow> u16) \<Rightarrow> tx_backend \<Rightarrow> bool" where
  "hdr_cache_ok cksum s \<longleftrightarrow> length (tb_src_mac s) = 6 \<and> length (tb_dst_mac s) = 6 \<and>
     (tb_hdr_cache_len s \<noteq> 0 \<longrightarrow> tb_hdr_cache s =
        header_bytes cksum (tb_hdr_cache_len s) (tb_dst_mac s) (tb_dst_ip_be s) (tb_udp_port_be s) s)"

fun reserve_many :: "(bytes \<Rightarrow> u16) \<Rightarrow> (bytes \<times> u32) list \<Rightarrow> tx_backend \<Rightarrow> (tx_mbuf list \<times> tx_backend) option" where
  "reserve_many cksum [] s = Some ([], s)"
| "reserve_many cksum ((room, len) # rs) s =
     (case reserve_packet cksum (Some room) len s of
        Some (Inr (m, s1)) \<Rightarrow> map_option (\<lambda>(ms, s2). (m # ms, s2)) (reserve_many cksum rs s1)
      | _ \<Rightarrow> None)"

lemma header_bytes_cache [simp]:
  "header_bytes cksum n dmac dip port (s\<lparr>tb_hdr_cache := c, tb_hdr_cache_len := l\<rparr>) =
   header_bytes cksum n dmac dip port s"
  by (simp add: header_bytes_def ip_bytes_def)

lemma reserve_packet_builds:
  assumes "hdr_cache_ok cksum s" "len \<noteq> 0" "kL2L3L4Hdr \<le> length room"
  obtains s' where "reserve_packet cksum (Some room) len s =
      Some (Inr (mk_mbuf len (header_bytes cksum len (tb_dst_mac s) (tb_dst_ip_be s) (tb_udp_port_be s) s
        @ drop kL2L3L4Hdr room), s'))"
    "hdr_cache_ok cksum s'" "\<exists>c l. s' = s\<lparr>tb_hdr_cache := c, tb_hdr_cache_len := l\<rparr>"
proof (cases "len = tb_hdr_cache_len s")
  case True
  let ?h = "header_bytes cksum len (tb_dst_mac s) (tb_dst_ip_be s) (tb_udp_port_be s) s"
  have h: "tb_hdr_cache s = ?h" "length ?h = kL2L3L4Hdr"
    using assms(1,2) True by (auto simp: hdr_cache_ok_def length_header_bytes)
  have "mem_write room 0 (tb_hdr_cache s) = Some (?h @ drop kL2L3L4Hdr room)"
    using h assms(3) by (simp add: mem_write_def)
  then have "reserve_packet cksum (Some room) len s = Some (Inr (mk_mbuf len (?h @ drop kL2L3L4Hdr room), s))"
    using True by (simp add: reserve_packet_def)
  then show thesis by (rule that) (use assms(1) in simp, rule exI [of _ "tb_hdr_cache s"], rule exI [of _ "tb_hdr_cache_len s"], simp)
next
  case False
  let ?h = "header_bytes cksum len (tb_dst_mac s) (tb_dst_ip_be s) (tb_udp_port_be s) s"
  let ?s = "s\<lparr>tb_hdr_cache := ?h, tb_hdr_cache_len := len\<rparr>"
  have m: "length (tb_src_mac s) = 6" "length (tb_dst_mac s) = 6"
    using assms(1) by (auto simp: hdr_cache_ok_def)
  have "reserve_packet cksum (Some room) len s = Some (Inr (mk_mbuf len (?h @ drop kL2L3L4Hdr room), ?s))"
    using False build_headers_eq [OF m(2,1) assms(3)] length_header_bytes [OF m(2,1)]
    by (simp add: reserve_packet_def)
  then show thesis by (rule that) (use m in \<open>auto simp: hdr_cache_ok_def\<close>)
qed

lemma reserve_many_builds:
  "hdr_cache_ok cksum s \<Longrightarrow> \<forall>(room, len)\<in>set rs. len \<noteq> 0 \<and> kL2L3L4Hdr \<le> length room \<Longrightarrow>
   \<exists>ms s'. reserve_many cksum rs s = Some (ms, s') \<and>
     map mb_data ms = map (\<lambda>(room, len). header_bytes cksum len (tb_dst_mac s) (tb_dst_ip_be s)
       (tb_udp_port_be s) s @ drop kL2L3L4Hdr room) rs"
proof (induction rs arbitrary: s)
  case (Cons r rs)
  obtain room len where r: "r = (room, len)" by (cases r)
  then have "len \<noteq> 0" "kL2L3L4Hdr \<le> length room" using Cons.prems(2) by auto
  then obtain s1 where s1: "reserve_packet cksum (Some room) len s =
      Some (Inr (mk_mbuf len (header_bytes cksum len (tb_dst_mac s) (tb_dst_ip_be s) (tb_udp_port_be s) s
        @ drop kL2L3L4Hdr room), s1))"
    "hdr_cache_ok cksum s1" "\<exists>c l. s1 = s\<lparr>tb_hdr_cache := c, tb_hdr_cache_len := l\<rparr>"
    by (rule reserve_packet_builds [OF Cons.prems(1)])
  have "\<forall>(room, len)\<in>set rs. len \<noteq> 0 \<and> kL2L3L4Hdr \<le> length room" using Cons.prems(2) by simp
  from Cons.IH [OF s1(2) this] show ?case
    using s1(3) by (auto simp: r s1(1) mk_mbuf_def)
qed simp

text \<open>The header cache is invisible: from a fresh backend, for any sequence of non-empty payload
  sizes, every reserved packet holds exactly the bytes \<open>build_headers\<close> would store for its own size,
  and nothing outside the 42 header bytes of its data room changes.\<close>
theorem tx_header_cache_transparent:
  assumes "tb_hdr_cache_len s = 0" "length (tb_src_mac s) = 6" "length (tb_dst_mac s) = 6"
    and "\<forall>(room, len)\<in>set rs. len \<noteq> 0 \<and> kL2L3L4Hdr \<le> length room"
  shows "\<exists>ms s'. reserve_many cksum rs s = Some (ms, s') \<and>
    map (\<lambda>m. Some (mb_data m)) ms = map (\<lambda>(room, len). build_headers cksum room len (tb_dst_mac s)
      (tb_dst_ip_be s) (tb_udp_port_be s) s) rs \<and>
    (\<forall>m\<in>set ms. \<exists>(room, len)\<in>set rs. drop kL2L3L4Hdr (mb_data m) = drop kL2L3L4Hdr room)"
proof -
  have ok: "hdr_cache_ok cksum s" using assms(1-3) by (simp add: hdr_cache_ok_def)
  let ?f = "\<lambda>(room, len). header_bytes cksum len (tb_dst_mac s) (tb_dst_ip_be s) (tb_udp_port_be s) s
    @ drop kL2L3L4Hdr room"
  obtain ms s' where ms: "reserve_many cksum rs s = Some (ms, s')" "map mb_data ms = map ?f rs"
    using reserve_many_builds [OF ok assms(4)] by blast
  have "map Some (map mb_data ms) = map (\<lambda>(room, len). build_headers cksum room len (tb_dst_mac s)
      (tb_dst_ip_be s) (tb_udp_port_be s) s) rs"
    using assms(4) build_headers_eq [OF assms(3,2)] unfolding ms(2) by auto
  then have "map (\<lambda>m. Some (mb_data m)) ms = map (\<lambda>(room, len). build_headers cksum room len
      (tb_dst_mac s) (tb_dst_ip_be s) (tb_udp_port_be s) s) rs" by (simp add: comp_def)
  moreover have "\<exists>(room, len)\<in>set rs. drop kL2L3L4Hdr (mb_data m) = drop kL2L3L4Hdr room"
    if m: "m \<in> set ms" for m
  proof -
    have "mb_data m \<in> set (map mb_data ms)" using m by simp
    then have "mb_data m \<in> ?f ` set rs" unfolding ms(2) by simp
    then show ?thesis using length_header_bytes [OF assms(3,2)] by force
  qed
  ultimately show ?thesis using ms(1) by (intro exI [of _ ms] exI [of _ s'] conjI) auto
qed

theorem tx_header_cache_transparent_witness:
  "\<exists>ms s'. reserve_many (\<lambda>_. 7) [(replicate 100 1, 20), (replicate 100 2, 20), (replicate 100 3, 8)]
     tx_backend_new = Some (ms, s') \<and> length ms = 3"
  using tx_header_cache_transparent [of tx_backend_new
      "[(replicate 100 1, 20), (replicate 100 2, 20), (replicate 100 3, 8)]" "\<lambda>_. 7"]
  by (auto simp: tx_backend_new_def kL2L3L4Hdr_def dest: arg_cong [of _ _ length])

section \<open>Submission order\<close>

definition split_of :: "'m list \<Rightarrow> 'm list \<Rightarrow> 'm list \<Rightarrow> bool" where
  "split_of taken sent freed \<longleftrightarrow> mset taken = mset sent + mset freed \<and> subseq sent taken"

lemma split_of_append:
  "split_of a s f \<Longrightarrow> split_of b s' f' \<Longrightarrow> split_of (a @ b) (s @ s') (f @ f')"
  by (simp add: split_of_def list_emb_append_mono)

lemma split_of_Nil: "split_of taken sent [] \<longleftrightarrow> sent = taken"
proof
  assume "split_of taken sent []"
  then have "subseq sent taken" "length taken = length sent"
    by (auto simp: split_of_def dest: mset_eq_length)
  then show "sent = taken" by (simp add: subseq_same_length)
qed (simp add: split_of_def)

lemma drain_loop_split:
  "drain_loop burst c spin rest = (sent, freed, c', spin') \<Longrightarrow>
   rest = sent @ freed \<and> ((\<forall>c k. 0 < k \<longrightarrow> 0 < burst c k) \<longrightarrow> freed = [])"
proof (induction burst c spin rest arbitrary: sent freed c' spin' rule: drain_loop.induct)
  case (1 burst c spin rest)
  show ?case
  proof (cases "rest = []")
    case False
    let ?n = "burst c (length rest)"
    obtain a b d e where r: "drain_loop burst (c + 1) 0 (drop ?n rest) = (a, b, d, e)"
      by (cases "drain_loop burst (c + 1) 0 (drop ?n rest)")
    show ?thesis
    proof (cases "?n = 0")
      case True
      then show ?thesis using 1(1) [OF False refl True] 1(3) False
        by (auto simp: drain_loop.simps [of burst c spin rest] split: if_splits)
    next
      case n: False
      have "sent = take ?n rest @ a" "freed = b"
        using 1(3) False n r by (auto simp: drain_loop.simps [of burst c spin rest])
      then show ?thesis using 1(2) [OF False refl n r] by (metis append.assoc append_take_drop_id)
    qed
  qed (use 1(3) in \<open>simp add: drain_loop.simps\<close>)
qed

lemma drain_pending_split:
  assumes "drain_pending burst s = (sent, freed, s')"
  shows "split_of (tb_pending s) sent freed" "tb_pending s' = []"
    "tb_dropped s' = tb_dropped s + of_nat (length freed)"
    "(\<forall>c k. 0 < k \<longrightarrow> 0 < burst c k) \<Longrightarrow> freed = []"
    "stamp_mbuf ts s' m = stamp_mbuf ts s m"
proof -
  obtain a b c d where l: "drain_loop burst (tb_calls s) (tb_spin s) (tb_pending s) = (a, b, c, d)"
    by (cases "drain_loop burst (tb_calls s) (tb_spin s) (tb_pending s)")
  then have eq: "sent = a" "freed = b" "s' = s\<lparr>tb_pending := [], tb_calls := c, tb_spin := d,
      tb_dropped := tb_dropped s + of_nat (length b)\<rparr>"
    using assms by (auto simp: drain_pending_def)
  from drain_loop_split [OF l] show "split_of (tb_pending s) sent freed"
    "(\<forall>c k. 0 < k \<longrightarrow> 0 < burst c k) \<Longrightarrow> freed = []"
    by (simp_all add: split_of_def eq list_emb_prefix)
  show "tb_pending s' = []" "tb_dropped s' = tb_dropped s + of_nat (length freed)"
    "stamp_mbuf ts s' m = stamp_mbuf ts s m"
    by (simp_all add: eq stamp_mbuf_def)
qed

text \<open>What one or more submissions do to the pending packets.\<close>

definition progressed ::
  "(nat \<Rightarrow> nat \<Rightarrow> nat) \<Rightarrow> tx_mbuf list \<Rightarrow> tx_backend \<Rightarrow> tx_mbuf list \<times> tx_mbuf list \<times> tx_backend \<Rightarrow> bool" where
  "progressed burst ms s r \<longleftrightarrow> (case r of (sent, freed, s') \<Rightarrow>
     (\<exists>taken. tb_pending s @ ms = taken @ tb_pending s' \<and> split_of taken sent freed) \<and>
     tb_dropped s' = tb_dropped s + of_nat (length freed) \<and>
     ((\<forall>c k. 0 < k \<longrightarrow> 0 < burst c k) \<longrightarrow> freed = []) \<and>
     (\<forall>ts m. stamp_mbuf ts s' m = stamp_mbuf ts s m))"

lemma progressed_trans:
  assumes "progressed burst ms s (sent, freed, s1)" "progressed burst ms' s1 (sent', freed', s2)"
  shows "progressed burst (ms @ ms') s (sent @ sent', freed @ freed', s2)"
proof -
  obtain t1 where t1: "tb_pending s @ ms = t1 @ tb_pending s1" "split_of t1 sent freed"
    using assms(1) by (auto simp: progressed_def)
  obtain t2 where t2: "tb_pending s1 @ ms' = t2 @ tb_pending s2" "split_of t2 sent' freed'"
    using assms(2) by (auto simp: progressed_def)
  have "tb_pending s @ ms @ ms' = (t1 @ t2) @ tb_pending s2"
    using t1(1) t2(1) by (metis append.assoc)
  then show ?thesis
    using split_of_append [OF t1(2) t2(2)] assms by (auto simp: progressed_def)
qed

lemma submit_progressed:
  assumes "length (tb_pending s) < kTxBurst"
  obtains r where "submit burst m ts s = Some r" "progressed burst [stamp_mbuf ts s m] s r"
    "length (tb_pending (snd (snd r))) < kTxBurst"
proof -
  let ?s = "s\<lparr>tb_pending := tb_pending s @ [stamp_mbuf ts s m]\<rparr>"
  have stamp: "stamp_mbuf a ?s b = stamp_mbuf a s b" for a b by (simp add: stamp_mbuf_def)
  show thesis
  proof (cases "length (tb_pending ?s) = kTxBurst")
    case True
    obtain a b s' where d: "drain_pending burst ?s = (a, b, s')" by (cases "drain_pending burst ?s")
    note D = drain_pending_split [OF d]
    have "progressed burst [stamp_mbuf ts s m] s (a, b, s')"
      using D(1-5) stamp by (auto simp: progressed_def)
    moreover have "submit burst m ts s = Some (a, b, s')"
      using assms True d by (simp add: submit_def Let_def)
    ultimately show thesis using D(2) by (intro that) (auto simp: kTxBurst_def)
  next
    case False
    then have "submit burst m ts s = Some ([], [], ?s)" "length (tb_pending ?s) < kTxBurst"
      using assms by (simp_all add: submit_def Let_def)
    then show thesis
      by (intro that) (auto simp: progressed_def split_of_def stamp)
  qed
qed

lemma submit_all_progressed:
  "length (tb_pending s) < kTxBurst \<Longrightarrow>
   \<exists>r. submit_all burst ms s = Some r \<and> progressed burst (map (\<lambda>(m, ts). stamp_mbuf ts s m) ms) s r \<and>
     length (tb_pending (snd (snd r))) < kTxBurst"
proof (induction ms arbitrary: s)
  case Nil
  then show ?case by (simp add: progressed_def split_of_def)
next
  case (Cons x ms)
  obtain m ts where x: "x = (m, ts)" by (cases x)
  obtain r where r: "submit burst m ts s = Some r" "progressed burst [stamp_mbuf ts s m] s r"
    "length (tb_pending (snd (snd r))) < kTxBurst"
    by (rule submit_progressed [OF Cons.prems])
  obtain a b s1 where abs: "r = (a, b, s1)" by (cases r)
  obtain a' b' s2 where r2: "submit_all burst ms s1 = Some (a', b', s2)"
    "progressed burst (map (\<lambda>(m, ts). stamp_mbuf ts s1 m) ms) s1 (a', b', s2)"
    "length (tb_pending s2) < kTxBurst"
    using Cons.IH [of s1] r(3) abs by auto
  have "\<forall>ts m. stamp_mbuf ts s1 m = stamp_mbuf ts s m" using r(2) by (simp add: abs progressed_def)
  then have "map (\<lambda>(m, ts). stamp_mbuf ts s1 m) ms = map (\<lambda>(m, ts). stamp_mbuf ts s m) ms"
    by (simp only:)
  then have "progressed burst ([stamp_mbuf ts s m] @ map (\<lambda>(m, ts). stamp_mbuf ts s m) ms) s (a @ a', b @ b', s2)"
    using progressed_trans [OF r(2) [unfolded abs] r2(2)] by (simp only:)
  then show ?case using r2(1,3) r(1) by (simp add: x abs)
qed

definition submit_frame ::
  "(nat \<Rightarrow> nat \<Rightarrow> nat) \<Rightarrow> (tx_mbuf \<times> u64) list \<Rightarrow> tx_backend \<Rightarrow>
   (tx_mbuf list \<times> tx_mbuf list \<times> tx_backend) option" where
  "submit_frame burst ms s = do {
     (sent1, freed1, s1) \<leftarrow> submit_all burst ms s;
     let (sent2, freed2, s2) = tx_flush burst s1;
     Some (sent1 @ sent2, freed1 @ freed2, s2)
   }"

text \<open>C34 - A frame through the transmit queue, against any NIC: the pending array is never overrun and
  the drain always ends; after the flush every packet has been given to the NIC or freed, exactly
  once, the given ones in submission order, the freed ones counted; and a NIC that takes at least
  one packet per call gets the whole frame in order.\<close>
theorem tx_submission_fifo:
  assumes "length (tb_pending s) < kTxBurst"
  shows "\<exists>sent freed s'. submit_frame burst ms s = Some (sent, freed, s') \<and> tb_pending s' = [] \<and>
    tb_dropped s' = tb_dropped s + of_nat (length freed) \<and>
    (let submitted = tb_pending s @ map (\<lambda>(m, ts). stamp_mbuf ts s m) ms
     in mset submitted = mset sent + mset freed \<and> subseq sent submitted \<and>
        ((\<forall>c k. 0 < k \<longrightarrow> 0 < burst c k) \<longrightarrow> sent = submitted))"
proof -
  obtain a b s1 where r: "submit_all burst ms s = Some (a, b, s1)"
    "progressed burst (map (\<lambda>(m, ts). stamp_mbuf ts s m) ms) s (a, b, s1)"
    using submit_all_progressed [OF assms] by force
  obtain c d s2 where f: "drain_pending burst s1 = (c, d, s2)" by (cases "drain_pending burst s1")
  note F = drain_pending_split [OF f]
  have "progressed burst [] s1 (c, d, s2)" using F by (auto simp: progressed_def)
  from progressed_trans [OF r(2) this]
  have p: "progressed burst (map (\<lambda>(m, ts). stamp_mbuf ts s m) ms) s (a @ c, b @ d, s2)" by simp
  let ?sub = "tb_pending s @ map (\<lambda>(m, ts). stamp_mbuf ts s m) ms"
  have "split_of ?sub (a @ c) (b @ d)" using p F(2) by (auto simp: progressed_def)
  moreover have "(\<forall>c k. 0 < k \<longrightarrow> 0 < burst c k) \<longrightarrow> b @ d = []" "tb_dropped s2 = tb_dropped s + of_nat (length (b @ d))"
    using p by (auto simp: progressed_def)
  ultimately show ?thesis
    using r(1) f F(2) split_of_Nil [of ?sub "a @ c"]
    by (auto simp: submit_frame_def tx_flush_def split_of_def)
qed

theorem tx_submission_fifo_witness:
  "\<exists>sent freed s'. submit_frame (\<lambda>c k. if c = 0 then 0 else 1) [(mk_mbuf 1 [1], 5), (mk_mbuf 1 [2], 0)]
     tx_backend_new = Some (sent, freed, s') \<and> length sent + length freed = 2"
proof -
  have "length (tb_pending tx_backend_new) < kTxBurst" by (simp add: tx_backend_new_def kTxBurst_def)
  from tx_submission_fifo [OF this, of "\<lambda>c k. if c = 0 then 0 else 1" "[(mk_mbuf 1 [1], 5), (mk_mbuf 1 [2], 0)]"]
  obtain sent freed s' where r: "submit_frame (\<lambda>c k. if c = 0 then 0 else 1) [(mk_mbuf 1 [1], 5), (mk_mbuf 1 [2], 0)]
      tx_backend_new = Some (sent, freed, s')"
    "mset (tb_pending tx_backend_new @ map (\<lambda>(m, ts). stamp_mbuf ts tx_backend_new m)
       [(mk_mbuf 1 [1], 5), (mk_mbuf 1 [2], 0)]) = mset sent + mset freed"
    unfolding Let_def by blast
  from arg_cong [OF r(2), of size] have "length sent + length freed = 2"
    by (simp add: tx_backend_new_def)
  with r(1) show ?thesis by blast
qed

text \<open>The spin count survives a give-up: once the limit has been reached, later bursts are freed at
  their first refusal, with no retry.\<close>
lemma drain_gives_up_at_once:
  assumes "1000000 \<le> spin" "unat spin < 2 ^ 63" "rest \<noteq> []" "burst c (length rest) = 0"
  shows "drain_loop burst c spin rest = ([], rest, c + 1, spin + 1)"
proof -
  have "unat spin + 1 < 2 ^ LENGTH(64)" using assms(2) by simp
  then have "unat (spin + 1) = unat spin + 1" by (subst unat_add_noov) simp_all
  then have "spin + 1 > 1000000" using assms(1) by (simp add: word_less_nat_alt word_le_nat_alt)
  then show ?thesis using assms by (simp add: drain_loop.simps [of burst c spin rest])
qed


section \<open>The audio channel never costs the video path\<close>

definition without_audio :: "tx_backend_config \<Rightarrow> tx_backend_config" where
  "without_audio cfg = cfg\<lparr>tc_audio_dst_ip := ''''\<rparr>"

definition asks_audio :: "tx_backend_config \<Rightarrow> bool" where
  "asks_audio cfg \<longleftrightarrow> tc_audio_dst_ip cfg \<noteq> '''' \<and> tc_audio_udp_port cfg \<noteq> 0"

text \<open>The state the video path uses.\<close>

definition video_state :: "tx_backend \<Rightarrow> tx_backend" where
  "video_state s = s\<lparr>tb_cfg := without_audio (tb_cfg s), tb_want_audio := False, tb_audio_ok := False,
     tb_audio_dst_mac := [], tb_audio_dst_ip_be := 0, tb_audio_port_be := 0\<rparr>"

lemma video_state_update [simp]:
  "video_state (s\<lparr>tb_cfg := c\<rparr>) = (video_state s)\<lparr>tb_cfg := without_audio c\<rparr>"
  "video_state (s\<lparr>tb_eal_inited := e\<rparr>) = (video_state s)\<lparr>tb_eal_inited := e\<rparr>"
  "video_state (s\<lparr>tb_port := p\<rparr>) = (video_state s)\<lparr>tb_port := p\<rparr>"
  "video_state (s\<lparr>tb_src_mac := m\<rparr>) = (video_state s)\<lparr>tb_src_mac := m\<rparr>"
  "video_state (s\<lparr>tb_dst_mac := m\<rparr>) = (video_state s)\<lparr>tb_dst_mac := m\<rparr>"
  "video_state (s\<lparr>tb_src_ip_be := i\<rparr>) = (video_state s)\<lparr>tb_src_ip_be := i\<rparr>"
  "video_state (s\<lparr>tb_dst_ip_be := i\<rparr>) = (video_state s)\<lparr>tb_dst_ip_be := i\<rparr>"
  "video_state (s\<lparr>tb_udp_port_be := u\<rparr>) = (video_state s)\<lparr>tb_udp_port_be := u\<rparr>"
  "video_state (s\<lparr>tb_ts_field_off := z\<rparr>) = (video_state s)\<lparr>tb_ts_field_off := z\<rparr>"
  "video_state (s\<lparr>tb_ts_flag := f\<rparr>) = (video_state s)\<lparr>tb_ts_flag := f\<rparr>"
  "video_state (s\<lparr>tb_have_ts := h\<rparr>) = (video_state s)\<lparr>tb_have_ts := h\<rparr>"
  "video_state (s\<lparr>tb_want_audio := w\<rparr>) = video_state s"
  "video_state (s\<lparr>tb_audio_ok := w\<rparr>) = video_state s"
  "video_state (s\<lparr>tb_audio_dst_mac := m\<rparr>) = video_state s"
  "video_state (s\<lparr>tb_audio_dst_ip_be := i\<rparr>) = video_state s"
  "video_state (s\<lparr>tb_audio_port_be := u\<rparr>) = video_state s"
  by (simp_all add: video_state_def)
lemma pool_video:
  assumes v: "create_pool_and_addrs env v1 = Inr v2"
    and s: "video_state s1 = video_state v1" "tb_cfg v1 = without_audio (tb_cfg s1)"
      "tb_want_audio s1 = False" "tb_want_audio v1 = False"
    and a: "asks_audio (tb_cfg s1) \<longrightarrow> te_inet_pton env (tc_audio_dst_ip (tb_cfg s1)) \<noteq> None"
  obtains s2 where "create_pool_and_addrs env s1 = Inr s2" "video_state s2 = video_state v2"
    "tb_cfg s2 = tb_cfg s1" "tb_cfg v2 = tb_cfg v1" "tb_want_audio v2 = False"
    "tb_want_audio s2 = (tc_audio_dst_ip (tb_cfg s1) \<noteq> '''' \<and> tc_audio_udp_port (tb_cfg s1) \<noteq> 0)"
proof -
  obtain src dst where i: "te_pool_ok env" "te_inet_pton env (tc_src_ip (tb_cfg s1)) = Some src"
    "te_inet_pton env (tc_dst_ip (tb_cfg s1)) = Some dst"
    and v2: "v2 = resolve_dst_mac (v1\<lparr>tb_src_ip_be := src, tb_dst_ip_be := dst,
      tb_udp_port_be := bswap16 (tc_udp_port (tb_cfg s1))\<rparr>)"
    using v s(2) by (auto simp: create_pool_and_addrs_def ebind_Inr_iff want_audio_addrs_def without_audio_def)
  let ?s = "s1\<lparr>tb_src_ip_be := src, tb_dst_ip_be := dst, tb_udp_port_be := bswap16 (tc_udp_port (tb_cfg s1))\<rparr>"
  let ?want = "tc_audio_dst_ip (tb_cfg s1) \<noteq> '''' \<and> tc_audio_udp_port (tb_cfg s1) \<noteq> 0"
  obtain s2 where w: "want_audio_addrs env ?s = Inr s2" and w2: "\<exists>ai ap am. s2 = ?s\<lparr>tb_audio_dst_ip_be := ai,
      tb_audio_port_be := ap, tb_audio_dst_mac := am, tb_want_audio := ?want\<rparr>"
  proof (cases ?want)
    case True
    then obtain adst where "te_inet_pton env (tc_audio_dst_ip (tb_cfg s1)) = Some adst" using a by (auto simp: asks_audio_def)
    then have "want_audio_addrs env ?s = Inr (?s\<lparr>tb_audio_dst_ip_be := adst,
        tb_audio_port_be := bswap16 (tc_audio_udp_port (tb_cfg s1)),
        tb_audio_dst_mac := (if ipv4_is_multicast (bswap32 adst) then multicast_mac (bswap32 adst)
                             else tc_dst_mac (tb_cfg s1)), tb_want_audio := ?want\<rparr>)"
      using True by (simp add: want_audio_addrs_def)
    then show thesis by (rule that) (intro exI, rule refl)
  next
    case False
    then have "want_audio_addrs env ?s = Inr ?s" by (auto simp: want_audio_addrs_def)
    moreover have "?s = ?s\<lparr>tb_audio_dst_ip_be := tb_audio_dst_ip_be s1,
        tb_audio_port_be := tb_audio_port_be s1, tb_audio_dst_mac := tb_audio_dst_mac s1, tb_want_audio := ?want\<rparr>"
      using False s(3) by simp
    ultimately show thesis by (intro that [of ?s] exI)
  qed
  have c: "create_pool_and_addrs env s1 = Inr (resolve_dst_mac s2)"
    using i w by (simp add: create_pool_and_addrs_def)
  show thesis
  proof (rule that [OF c])
    have "tc_dst_mac (tb_cfg v1) = tc_dst_mac (tb_cfg s1)" by (simp add: s(2) without_audio_def)
    then show "video_state (resolve_dst_mac s2) = video_state v2"
      using w2 s(1) by (auto simp: v2 resolve_dst_mac_def Let_def)
    show "tb_cfg (resolve_dst_mac s2) = tb_cfg s1" "tb_cfg v2 = tb_cfg v1" "tb_want_audio v2 = False"
      "tb_want_audio (resolve_dst_mac s2) = (tc_audio_dst_ip (tb_cfg s1) \<noteq> '''' \<and> tc_audio_udp_port (tb_cfg s1) \<noteq> 0)"
      using w2 s(4) by (auto simp: v2 resolve_dst_mac_def Let_def)
  qed
qed

lemma resolve_dst_mac_keeps [simp]:
  "tb_audio_ok (resolve_dst_mac s) = tb_audio_ok s" "tb_want_audio (resolve_dst_mac s) = tb_want_audio s"
  "tb_cfg (resolve_dst_mac s) = tb_cfg s"
  by (simp_all add: resolve_dst_mac_def Let_def)

lemma want_audio_keeps_ok:
  assumes "want_audio_addrs env s = Inr s'"
  shows "tb_audio_ok s' = tb_audio_ok s"
proof (cases "tc_audio_dst_ip (tb_cfg s) \<noteq> '''' \<and> tc_audio_udp_port (tb_cfg s) \<noteq> 0")
  case True
  with assms obtain a where "te_inet_pton env (tc_audio_dst_ip (tb_cfg s)) = Some a"
    by (cases "te_inet_pton env (tc_audio_dst_ip (tb_cfg s))") (simp_all add: want_audio_addrs_def)
  with True assms have "s' = s\<lparr>tb_audio_dst_ip_be := a, tb_audio_port_be := bswap16 (tc_audio_udp_port (tb_cfg s)),
      tb_audio_dst_mac := (if ipv4_is_multicast (bswap32 a) then multicast_mac (bswap32 a)
                           else tc_dst_mac (tb_cfg s)), tb_want_audio := True\<rparr>"
    by (simp only: want_audio_addrs_def if_True need_simps ebind_simps simp_thms sum.inject)
  then show ?thesis by simp
next
  case False
  with assms have "Inr s = (Inr s' :: string + tx_backend)" by (simp only: want_audio_addrs_def if_False)
  then show ?thesis by simp
qed

lemma pool_keeps_ok:
 "create_pool_and_addrs env s = Inr s' \<Longrightarrow> \<not> tb_audio_ok s \<Longrightarrow> tb_audio_ok s' = False"
  unfolding create_pool_and_addrs_def by (auto simp: ebind_Inr_iff dest: want_audio_keeps_ok)

text \<open>The port with audio asked for, where it comes up without: the same but for the number of queues
  configured, and it fails only where two are.\<close>

definition two_queues :: "tx_env \<Rightarrow> u16 \<Rightarrow> tx_backend \<Rightarrow> bool" where
  "two_queues env port s \<longleftrightarrow> tb_want_audio s \<and> te_configure_ok env port [] 2"

definition with_txd :: "u16 \<Rightarrow> tx_backend \<Rightarrow> tx_backend" where
  "with_txd n s = s\<lparr>tb_cfg := (tb_cfg s)\<lparr>tc_txd := n\<rparr>\<rparr>"

lemma setup_port_video:
  assumes v: "setup_port env port v2 = Inr (q, v3)"
    and s: "video_state s2 = video_state v2" "tb_cfg v2 = without_audio (tb_cfg s2)" "tb_want_audio v2 = False"
    and refused: "te_configure_ok env port [2] 1 = te_configure_ok env port [] 1"
  obtains nb_txd where "q = 1" "v3 = with_txd nb_txd v2"
    "two_queues env port s2 \<Longrightarrow> setup_port env port s2 =
       ebind (need_some (te_adjust_txd env port 2 (tc_txd (tb_cfg s2))) ''adjust_nb_rx_tx_desc failed'') (\<lambda>n.
       ebind (need (te_tx_queue_ok env port 2 0 n) ''rte_eth_tx_queue_setup failed'') (\<lambda>_.
       Inr (2, audio_queue env port 2 (with_txd n s2))))"
    "\<not> two_queues env port s2 \<Longrightarrow>
       setup_port env port s2 = Inr (1, with_txd nb_txd (s2\<lparr>tb_want_audio := False\<rparr>))"
proof -
  obtain capable nb_txd where i: "te_send_on_timestamp env port = Some capable" "tc_pacing (tb_cfg s2) \<longrightarrow> capable"
    "te_configure_ok env port [] 1" "te_adjust_txd env port 1 (tc_txd (tb_cfg s2)) = Some nb_txd"
    "te_tx_queue_ok env port 1 0 nb_txd" "q = 1"
    and v3: "v3 = with_txd nb_txd v2"
    using v s(2,3) by (auto simp: setup_port_def ebind_Inr_iff configure_queues_def audio_queue_def Let_def
        without_audio_def with_txd_def split: if_splits)
  have "setup_port env port s2 =
       ebind (need_some (te_adjust_txd env port 2 (tc_txd (tb_cfg s2))) ''adjust_nb_rx_tx_desc failed'') (\<lambda>n.
       ebind (need (te_tx_queue_ok env port 2 0 n) ''rte_eth_tx_queue_setup failed'') (\<lambda>_.
       Inr (2, audio_queue env port 2 (with_txd n s2))))" if "two_queues env port s2"
    using that i(1,2) by (simp add: two_queues_def setup_port_def configure_queues_def with_txd_def Let_def)
  moreover have "setup_port env port s2 = Inr (1, with_txd nb_txd (s2\<lparr>tb_want_audio := False\<rparr>))" if "\<not> two_queues env port s2"
  proof -
    have "configure_queues env port s2 = Inr (1, s2\<lparr>tb_want_audio := False\<rparr>)"
      using that i(3) refused by (cases "tb_want_audio s2") (simp_all add: two_queues_def configure_queues_def Let_def)
    then show ?thesis using i by (simp add: setup_port_def audio_queue_def with_txd_def)
  qed
  ultimately show thesis using that [OF i(6) v3] by blast
qed

lemma audio_queue_video:
  "video_state (audio_queue env port 2 (with_txd n s)) = video_state (with_txd n s)"
  "tb_cfg (audio_queue env port 2 (with_txd n s)) = (tb_cfg s)\<lparr>tc_txd := n\<rparr>"
  "tb_port (audio_queue env port 2 (with_txd n s)) = tb_port s"
  "tb_want_audio s \<Longrightarrow> \<not> tb_audio_ok s \<Longrightarrow>
     tb_audio_ok (audio_queue env port 2 (with_txd n s)) = te_tx_queue_ok env port 2 1 512"
  by (simp_all add: audio_queue_def with_txd_def)

lemma with_txd_video:
  "video_state (with_txd n s) = with_txd n (video_state s)" "tb_cfg (with_txd n s) = (tb_cfg s)\<lparr>tc_txd := n\<rparr>"
  "tb_port (with_txd n s) = tb_port s" "tb_audio_ok (with_txd n s) = tb_audio_ok s"
  by (simp_all add: with_txd_def video_state_def without_audio_def)

lemma with_txd_update [simp]:
  "with_txd a (with_txd b s) = with_txd a s" "(with_txd a s)\<lparr>tb_src_mac := m\<rparr> = with_txd a (s\<lparr>tb_src_mac := m\<rparr>)"
  by (simp_all add: with_txd_def)

lemma lookup_video:
  "video_state (lookup_timestamp_dynfield env s) = lookup_timestamp_dynfield env (video_state s)"
  "lookup_timestamp_dynfield env (with_txd n s) = with_txd n (lookup_timestamp_dynfield env s)"
  "tb_audio_ok (lookup_timestamp_dynfield env s) = tb_audio_ok s" "tb_port (lookup_timestamp_dynfield env s) = tb_port s"
  by (auto simp: lookup_timestamp_dynfield_def video_state_def without_audio_def with_txd_def Let_def)

text \<open>Bring-up from the first two steps on.\<close>

lemma tx_init_from_pool:
  assumes "(if tc_manage_eal cfg then own_eal_init env (s\<lparr>tb_cfg := cfg\<rparr>)
         else if \<not> el_inited eal then Inl ''manage_eal=false but shared EAL is not initialized'' else Inr (s\<lparr>tb_cfg := cfg\<rparr>)) = Inr s1"
    and "find_port_by_pci (te_ports env) (tc_pci_addr cfg) = Some port"
  shows "tx_init env eal cfg s = ebind (create_pool_and_addrs env s1) (\<lambda>s2.
     ebind (setup_port env port (s2\<lparr>tb_port := Some port\<rparr>)) (\<lambda>(nb_txq, s3).
     let s4 = lookup_timestamp_dynfield env s3 in
     ebind (need (te_dev_start_ok env port nb_txq (tb_audio_ok s4)) ''rte_eth_dev_start failed'') (\<lambda>_.
     Inr (s4\<lparr>tb_src_mac := te_macaddr env port\<rparr>))))"
  using assms by (simp add: tx_init_def Let_def)

text \<open>What the audio channel can cost: its address does not parse, or the driver takes the two-queue
  configuration and then fails at a step that succeeded with one queue.\<close>

definition audio_costs_video :: "tx_env \<Rightarrow> u16 \<Rightarrow> tx_backend_config \<Rightarrow> bool" where
  "audio_costs_video env port cfg \<longleftrightarrow> asks_audio cfg \<and>
     (te_inet_pton env (tc_audio_dst_ip cfg) = None \<or>
      te_configure_ok env port [] 2 \<and>
      (case te_adjust_txd env port 2 (tc_txd cfg) of
         None \<Rightarrow> True
       | Some txd \<Rightarrow> \<not> te_tx_queue_ok env port 2 0 txd \<or>
           \<not> te_dev_start_ok env port 2 (te_tx_queue_ok env port 2 1 512)))"

text \<open>C39 - What asking for audio can cost the video path: where bring-up succeeds for a configuration without
  audio, bring-up of the same configuration with audio fails exactly when the audio address does not
  parse, or the driver takes the two-queue configuration and then fails, with two queues configured, at the
  descriptor adjustment, the video queue's set-up or the start.  A refused two-queue configuration never
  makes it fail, on the driver's documented behaviour that after a refusal the port can be configured as before,
  and leaves the video state as without audio.  When bring-up succeeds the audio channel is ready
  exactly when two queues are configured and the second one is set up, and the video state differs at most in
  the descriptor count the driver gives two queues.\<close>
theorem tx_audio_cost_exact:
  assumes "tx_init env eal (without_audio cfg) tx_backend_new = Inr v"
    and "find_port_by_pci (te_ports env) (tc_pci_addr cfg) = Some port"
    and "te_configure_ok env port [2] 1 = te_configure_ok env port [] 1"
  shows "((\<exists>e. tx_init env eal cfg tx_backend_new = Inl e) \<longleftrightarrow> audio_costs_video env port cfg) \<and>
    (\<forall>s. tx_init env eal cfg tx_backend_new = Inr s \<longrightarrow> tb_port s = Some port \<and>
       (tb_audio_ok s \<longleftrightarrow> asks_audio cfg \<and> te_configure_ok env port [] 2 \<and> te_tx_queue_ok env port 2 1 512) \<and>
       (if asks_audio cfg \<and> te_configure_ok env port [] 2
        then \<exists>txd. te_adjust_txd env port 2 (tc_txd cfg) = Some txd \<and> video_state s = with_txd txd (video_state v)
        else video_state s = video_state v))"
proof -
  let ?v0 = "tx_backend_new\<lparr>tb_cfg := without_audio cfg\<rparr>" and ?s0 = "tx_backend_new\<lparr>tb_cfg := cfg\<rparr>"
  have wa: "without_audio (without_audio cfg) = without_audio cfg" "tc_pci_addr (without_audio cfg) = tc_pci_addr cfg"
    "tc_manage_eal (without_audio cfg) = tc_manage_eal cfg"
    by (simp_all add: without_audio_def)
  obtain v1 v2 q v3 where
    1: "(if tc_manage_eal cfg then own_eal_init env ?v0
         else if \<not> el_inited eal then Inl ''manage_eal=false but shared EAL is not initialized'' else Inr ?v0) = Inr v1"
    and 2: "create_pool_and_addrs env v1 = Inr v2"
    and 3: "setup_port env port (v2\<lparr>tb_port := Some port\<rparr>) = Inr (q, v3)"
    and v: "v = (lookup_timestamp_dynfield env v3)\<lparr>tb_src_mac := te_macaddr env port\<rparr>"
    and st: "te_dev_start_ok env port q (tb_audio_ok (lookup_timestamp_dynfield env v3))"
    using assms(1,2) by (auto simp: tx_init_def ebind_Inr_iff Let_def wa)
  have new: "tb_want_audio tx_backend_new = False" "tb_audio_ok tx_backend_new = False"
    by (simp_all add: tx_backend_new_def)
  obtain s1 where s1: "(if tc_manage_eal cfg then own_eal_init env ?s0
         else if \<not> el_inited eal then Inl ''manage_eal=false but shared EAL is not initialized'' else Inr ?s0) = Inr s1"
    "video_state s1 = video_state v1" "tb_cfg s1 = cfg" "tb_cfg v1 = without_audio cfg"
    "tb_want_audio s1 = False" "tb_want_audio v1 = False" "\<not> tb_audio_ok s1" "\<not> tb_audio_ok v1"
  proof (cases "tc_manage_eal cfg")
    case True
    then have "own_eal_init env ?v0 = Inr v1" using 1 by simp
    then have "te_eal_up env (tx_eal_args cfg)" "v1 = ?v0\<lparr>tb_eal_inited := True\<rparr>"
      by (simp_all add: own_eal_init_def tx_eal_args_def without_audio_def split: if_splits)
    then show thesis
      by (intro that [of "?s0\<lparr>tb_eal_inited := True\<rparr>"]) (simp_all add: True own_eal_init_def new wa)
  next
    case False
    then have "el_inited eal" "v1 = ?v0" using 1 by (auto split: if_splits)
    then show thesis by (intro that [of ?s0]) (simp_all add: False new wa)
  qed
  note init = tx_init_from_pool [OF s1(1) assms(2)]
  show ?thesis
  proof (cases "asks_audio cfg \<and> te_inet_pton env (tc_audio_dst_ip cfg) = None")
    case True
    then have "want_audio_addrs env s = Inl ''bad audio_dst_ip''" if "tb_cfg s = cfg" for s
      using that by (simp add: want_audio_addrs_def asks_audio_def)
    then have "\<exists>e. create_pool_and_addrs env s1 = Inl e"
      using s1(3) by (auto simp: create_pool_and_addrs_def ebind_def split: sum.splits)
    then have "\<exists>e. tx_init env eal cfg tx_backend_new = Inl e" unfolding init by auto
    then show ?thesis using True by (auto simp: audio_costs_video_def)
  next
    case parses: False
    obtain s2 where s2: "create_pool_and_addrs env s1 = Inr s2" "video_state s2 = video_state v2"
      "tb_cfg s2 = cfg" "tb_cfg v2 = without_audio cfg" "tb_want_audio v2 = False" "tb_want_audio s2 = asks_audio cfg"
    proof (rule pool_video [OF 2 s1(2)])
      show "tb_cfg v1 = without_audio (tb_cfg s1)" using s1 by simp
      show "asks_audio (tb_cfg s1) \<longrightarrow> te_inet_pton env (tc_audio_dst_ip (tb_cfg s1)) \<noteq> None"
        using s1 parses by simp
    qed (use s1 in \<open>simp_all add: asks_audio_def\<close>)
    have ok2: "\<not> tb_audio_ok s2" "\<not> tb_audio_ok v2"
      using pool_keeps_ok [OF s2(1) s1(7)] pool_keeps_ok [OF 2 s1(8)] by simp_all
    let ?s = "s2\<lparr>tb_port := Some port\<rparr>" and ?v = "v2\<lparr>tb_port := Some port\<rparr>"
    have pre: "video_state ?s = video_state ?v" "tb_cfg ?v = without_audio (tb_cfg ?s)" "tb_want_audio ?v = False"
      using s2 by simp_all
    obtain nb where nb: "q = 1" "v3 = with_txd nb ?v"
      and two: "two_queues env port ?s \<Longrightarrow> setup_port env port ?s =
       ebind (need_some (te_adjust_txd env port 2 (tc_txd (tb_cfg ?s))) ''adjust_nb_rx_tx_desc failed'') (\<lambda>n.
       ebind (need (te_tx_queue_ok env port 2 0 n) ''rte_eth_tx_queue_setup failed'') (\<lambda>_.
       Inr (2, audio_queue env port 2 (with_txd n ?s))))"
      and one: "\<not> two_queues env port ?s \<Longrightarrow> setup_port env port ?s = Inr (1, with_txd nb (?s\<lparr>tb_want_audio := False\<rparr>))"
      by (rule setup_port_video [OF 3 pre assms(3)]) (rule that)
    have tq: "two_queues env port ?s \<longleftrightarrow> asks_audio cfg \<and> te_configure_ok env port [] 2"
      by (simp add: two_queues_def s2(6))
    show ?thesis
    proof (cases "two_queues env port ?s")
      case False
      have ok: "te_dev_start_ok env port 1 False" using st nb ok2 by (simp add: lookup_video with_txd_video)
      show ?thesis using parses False ok ok2 s2(2) unfolding init s2(1)
        by (auto simp: one tq audio_costs_video_def Let_def lookup_video with_txd_video v nb(2))
    next
      case True
      show ?thesis using parses True ok2 s2(2,6) two [OF True] tq unfolding init s2(1)
        by (cases "te_adjust_txd env port 2 (tc_txd cfg)")
          (auto simp: audio_costs_video_def Let_def lookup_video with_txd_video audio_queue_video v nb(2) s2(3) need_def)
    qed
  qed
qed

text \<open>The case left by a refused audio queue: the port stays configured with two queues, and a driver that does
  not start with a queue missing fails the video path too, which would come up without audio.\<close>

definition example_tx_env :: tx_env where
  "example_tx_env =
     \<lparr>te_eal_up = (\<lambda>_. True), te_pool_ok = True, te_inet_pton = (\<lambda>_. Some 0x0100efef),
      te_ports = [(3, None), (5, Some ''0002:01:00.0'')], te_send_on_timestamp = (\<lambda>_. Some True),
      te_configure_ok = (\<lambda>_ _ _. True), te_adjust_txd = (\<lambda>_ _ n. Some n), te_tx_queue_ok = (\<lambda>_ _ q _. q = 0),
      te_dynfield = 64, te_dynflag = 3, te_dev_start_ok = (\<lambda>_ n audio. n = 1 \<or> audio), te_macaddr = (\<lambda>_. [2, 0, 0, 0, 0, 9])\<rparr>"

definition example_tx_config :: tx_backend_config where
  "example_tx_config = default_tx_config\<lparr>tc_pci_addr := ''0002:01:00.0'', tc_audio_dst_ip := ''239.1.0.1'',
     tc_audio_udp_port := 5004\<rparr>"

lemma example_tx_init:
  "\<exists>v. tx_init (example_tx_env\<lparr>te_configure_ok := c\<rparr>) eal_new (without_audio example_tx_config) tx_backend_new = Inr v"
  if "c 5 [] 1"
  using that unfolding tx_init_def own_eal_init_def create_pool_and_addrs_def want_audio_addrs_def setup_port_def
    configure_queues_def Let_def
  by (simp add: example_tx_env_def without_audio_def example_tx_config_def default_tx_config_def audio_queue_def
      tx_backend_new_def lookup_video)

theorem tx_audio_cost_exact_witness:
  "(\<exists>e. tx_init example_tx_env eal_new example_tx_config tx_backend_new = Inl e) \<and>
   (\<exists>s. tx_init (example_tx_env\<lparr>te_configure_ok := \<lambda>_ _ n. n = 1\<rparr>) eal_new example_tx_config tx_backend_new = Inr s \<and>
      \<not> tb_audio_ok s)"
proof
  have env: "example_tx_env = example_tx_env\<lparr>te_configure_ok := \<lambda>_ _ _. True\<rparr>" by (simp add: example_tx_env_def)
  have port: "find_port_by_pci (te_ports example_tx_env) (tc_pci_addr example_tx_config) = Some 5"
    by (simp add: example_tx_env_def example_tx_config_def)
  obtain v where v: "tx_init example_tx_env eal_new (without_audio example_tx_config) tx_backend_new = Inr v"
    using example_tx_init [of "\<lambda>_ _ _. True"] env by auto
  have "audio_costs_video example_tx_env 5 example_tx_config"
    by (simp add: audio_costs_video_def asks_audio_def example_tx_config_def example_tx_env_def)
  then show "\<exists>e. tx_init example_tx_env eal_new example_tx_config tx_backend_new = Inl e"
    using tx_audio_cost_exact [OF v port] by (simp add: example_tx_env_def)
  let ?env = "example_tx_env\<lparr>te_configure_ok := \<lambda>_ _ n. n = 1\<rparr>"
  obtain w where w: "tx_init ?env eal_new (without_audio example_tx_config) tx_backend_new = Inr w"
    using example_tx_init [of "\<lambda>_ _ n. n = 1"] by auto
  have port': "find_port_by_pci (te_ports ?env) (tc_pci_addr example_tx_config) = Some 5" using port by simp
  have "\<not> audio_costs_video ?env 5 example_tx_config"
    by (simp add: audio_costs_video_def example_tx_env_def)
  then obtain s where "tx_init ?env eal_new example_tx_config tx_backend_new = Inr s"
    using tx_audio_cost_exact [OF w port', THEN conjunct1] by (cases "tx_init ?env eal_new example_tx_config tx_backend_new") auto
  then show "\<exists>s. tx_init ?env eal_new example_tx_config tx_backend_new = Inr s \<and> \<not> tb_audio_ok s"
    using tx_audio_cost_exact [OF w port', THEN conjunct2] by auto
qed

end
