(* ===== verification/Tx_Op.thy ===== *)
theory Tx_Op
  imports Audio_St2110 Rtp_St2110 Tx_Backend
begin

text \<open>
  The transmit operator, \<open>engine/operators/st2110_tx/st2110_tx.hpp\<close> and \<open>.cpp\<close>: pacing set-up, the
  four schedules (fixed latency, genlock with its skip and trim logic, the bounded-lead servo, the
  legacy grid), the media clock, the per-packet send times, the emit loop over the backend, and the
  audio relay.  Signed 64-bit values are integers.  Each call of \<open>compute\<close> reads the NIC clock once
  for its schedule (\<open>now\<close>); the later reads only make it wait.  Waiting itself has no effect on the
  state, except that a wait over 50 ms disables the throttle: \<open>capped\<close> says at which packets that
  happens.  Log output and the thread that polls the counters of the NIC are not modelled.
\<close>

section \<open>State\<close>

record tx_params =
  tp_pci_addr :: string
  tp_dst_mac :: bytes
  tp_src_ip :: string
  tp_dst_ip :: string
  tp_udp_port :: u32
  tp_payload_size :: u32
  tp_tx_pp_ns :: u32
  tp_txd :: u32
  tp_pacing_horizon_ns :: u32
  tp_reanchor_lead_ns :: u32
  tp_ssrc :: u32
  tp_eal_cores :: string
  tp_pacing :: bool
  tp_pacing_fill :: rat
  tp_tx_wide :: bool
  tp_manage_eal :: bool
  tp_warmup_ms :: u32
  tp_trim_ns :: u32
  tp_latency_ns :: u64
  tp_audio_dst_ip :: string
  tp_audio_port :: u32
  tp_audio_rate :: u32
  tp_av_offset_ns :: int

definition default_tx_params :: tx_params where
  "default_tx_params =
     \<lparr>tp_pci_addr = ''0002:01:00.0'', tp_dst_mac = [0x00, 0x00, 0x5e, 0x00, 0x53, 0x30],
      tp_src_ip = ''192.168.50.10'', tp_dst_ip = ''239.0.0.1'', tp_udp_port = 20000,
      tp_payload_size = 1420, tp_tx_pp_ns = 500, tp_txd = 8192, tp_pacing_horizon_ns = 8000000,
      tp_reanchor_lead_ns = 0, tp_ssrc = 0x53504b31, tp_eal_cores = ''0,1'', tp_pacing = True,
      tp_pacing_fill = 1, tp_tx_wide = False, tp_manage_eal = True, tp_warmup_ms = 0, tp_trim_ns = 5000,
      tp_latency_ns = 0, tp_audio_dst_ip = '''', tp_audio_port = 0, tp_audio_rate = 48000,
      tp_av_offset_ns = 0\<rparr>"

definition INT64_MAX :: int where "INT64_MAX = 9223372036854775807"

record tx_op =
  to_params :: tx_params
  to_pktz :: "packetizer option"
  to_gap_ns :: u64
  to_pace_gapped :: bool
  to_pace_line_burst :: bool
  to_t_line_ns :: u64
  to_intra_gap_ns :: u64
  to_frame_interval_ns :: u64
  to_eff_horizon_ns :: u64
  to_schedule_base_ns :: u64
  to_media_ts_ns :: u64
  to_frames_sent :: u64
  to_packets_sent :: u64
  to_reanchors :: u64
  to_skipped_late :: u64
  to_skip_streak :: u32
  to_win_count :: u32
  to_win_skips :: u32
  to_win_skips_prev :: u32
  to_frames_since_skip :: u32
  to_trim_arm_frames :: u32
  to_shaved_since_probe :: int
  to_genlock_offset :: u64
  to_throttle_enabled :: bool
  to_warmed :: bool
  to_last_lead_ns :: int
  to_trim_total_ns :: int
  to_genlocked :: bool
  to_fixed_active :: bool
  to_fixed_checked :: bool
  to_fixed_late_streak :: u32
  to_min_lead_win :: int
  to_audio_on :: bool

definition tx_op_new :: "tx_params \<Rightarrow> tx_op" where
  "tx_op_new p =
     \<lparr>to_params = p, to_pktz = None, to_gap_ns = 0, to_pace_gapped = False, to_pace_line_burst = False,
      to_t_line_ns = 0, to_intra_gap_ns = 0, to_frame_interval_ns = 0, to_eff_horizon_ns = 0,
      to_schedule_base_ns = 0, to_media_ts_ns = 0, to_frames_sent = 0, to_packets_sent = 0,
      to_reanchors = 0, to_skipped_late = 0, to_skip_streak = 0, to_win_count = 0, to_win_skips = 0,
      to_win_skips_prev = 0, to_frames_since_skip = 0, to_trim_arm_frames = 512,
      to_shaved_since_probe = 0, to_genlock_offset = 0, to_throttle_enabled = True, to_warmed = False,
      to_last_lead_ns = 0, to_trim_total_ns = 0, to_genlocked = False, to_fixed_active = False,
      to_fixed_checked = False, to_fixed_late_streak = 0, to_min_lead_win = INT64_MAX,
      to_audio_on = False\<rparr>"

section \<open>Start\<close>

text \<open>The six bytes \<open>parse_mac\<close> scans are the parameter \<open>tp_dst_mac\<close>.\<close>

definition tx_want_audio :: "tx_params \<Rightarrow> bool" where
  "tx_want_audio p = (tp_audio_dst_ip p \<noteq> '''' \<and> tp_audio_port p \<noteq> 0)"

definition tx_start_config :: "tx_params \<Rightarrow> tx_backend_config" where
  "tx_start_config p =
     (let cfg = default_tx_config\<lparr>tc_pci_addr := tp_pci_addr p, tc_dst_mac := tp_dst_mac p,
            tc_src_ip := tp_src_ip p, tc_dst_ip := tp_dst_ip p, tc_udp_port := ucast (tp_udp_port p),
            tc_tx_pp_ns := tp_tx_pp_ns p, tc_txd := ucast (tp_txd p), tc_eal_core_list := tp_eal_cores p,
            tc_pacing := tp_pacing p, tc_manage_eal := tp_manage_eal p\<rparr>
      in if tx_want_audio p
         then cfg\<lparr>tc_audio_dst_ip := tp_audio_dst_ip p, tc_audio_udp_port := ucast (tp_audio_port p)\<rparr>
         else cfg)"

definition tx_start :: "tx_env \<Rightarrow> dpdk_eal \<Rightarrow> tx_params \<Rightarrow> string + tx_op \<times> tx_backend" where
  "tx_start env eal p =
     ebind (tx_init env eal (tx_start_config p) tx_backend_new) (\<lambda>b.
     Inr ((tx_op_new p)\<lparr>to_audio_on := (tx_want_audio p \<and> tp_latency_ns p \<noteq> 0 \<and> tb_audio_ok b)\<rparr>, b))"

section \<open>Pacing set-up\<close>

definition active_ratio :: "video_format \<Rightarrow> rat" where
  "active_ratio f =
     (if total_lines f \<noteq> 0 then dbl (of_nat (unat (height f)) / of_nat (unat (total_lines f))) else 1)"

text \<open>\<open>frame_interval_ns_ * active * fill\<close>, converted, over \<open>n\<close>.\<close>

definition paced_ns :: "u64 \<Rightarrow> rat \<Rightarrow> rat \<Rightarrow> u32 \<Rightarrow> u64 option" where
  "paced_ns interval active fill n =
     map_option (\<lambda>ns. of_nat ns div ucast n) (to_unsigned 64 (dbl (dbl (dbl (of_nat (unat interval)) * active) * fill)))"

definition clamp_fill :: "rat \<Rightarrow> rat" where
  "clamp_fill fill = (if \<not> fill > 0 \<or> fill > 1 then 1 else fill)"

text \<open>\<open>burst_env\<close> is the environment variable \<open>SPARK_TX_IP10_BURST\<close>.\<close>

definition ip10_burst :: "string option \<Rightarrow> bool \<Rightarrow> u64 \<Rightarrow> bool" where
  "ip10_burst burst_env ip10_sampling interval =
     (case burst_env of
        None \<Rightarrow> ip10_sampling \<and> interval < 20000000
      | Some e \<Rightarrow> ip10_sampling \<and> e \<noteq> '''' \<and> hd e = CHR ''1'')"

definition packets_per_line :: "u32 \<Rightarrow> video_format \<Rightarrow> u32" where
  "packets_per_line payload_size fmt =
     (let pix_per_pkt = (if payload_size > 20 then payload_size - 20 else 1)
      in (octets_per_line fmt + pix_per_pkt - 1) div pix_per_pkt)"

definition intra_gap :: "u64 \<Rightarrow> u64 \<Rightarrow> u32 \<Rightarrow> u64" where
  "intra_gap t_line gap ppl = (if ppl > 1 then (t_line * 73) div ucast (100 * (ppl - 1)) else gap)"

definition eff_horizon :: "u32 \<Rightarrow> u64 \<Rightarrow> bool \<Rightarrow> u64" where
  "eff_horizon configured interval line_burst =
     (let big = interval - 4000000
      in if (interval > 20000000 \<or> line_burst) \<and> big > ucast configured then big else ucast configured)"

text \<open>\<open>None\<close> also where a conversion to an integer is undefined: a frame rate of zero, or times out of range.\<close>

definition ensure_pacer :: "string option \<Rightarrow> video_format \<Rightarrow> tx_op \<Rightarrow> tx_op option" where
  "ensure_pacer burst_env fmt s =
     (if to_pktz s \<noteq> None then Some s
      else do {
        let p = to_params s;
        let pk = mk_packetizer fmt (tp_payload_size p) 96 (tp_ssrc p);
        ppf \<leftarrow> packets_per_frame pk;
        ns \<leftarrow> (if fps fmt = 0 then None else to_unsigned 64 (dbl (1000000000 / fps fmt)));
        let interval = of_nat ns;
        let active = (if tp_tx_wide p then 1 else active_ratio fmt);
        let fill = clamp_fill (tp_pacing_fill p);
        gap \<leftarrow> (if ppf \<noteq> 0 then paced_ns interval active fill ppf else Some 0);
        let ip10 = (sampling_of fmt = YCbCr422_8);
        let burst = ip10_burst burst_env ip10 interval;
        let gapped = (\<not> tp_tx_wide p \<and> ip10 \<and> \<not> burst \<and> height fmt > 0);
        let line_burst = (((\<not> ip10 \<and> height fmt \<ge> 2160) \<or> burst) \<and> height fmt > 0);
        t_line \<leftarrow> (if gapped \<or> line_burst then paced_ns interval active fill (height fmt) else Some (to_t_line_ns s));
        Some (s\<lparr>to_pktz := Some pk, to_frame_interval_ns := interval, to_gap_ns := gap,
                to_pace_gapped := gapped, to_t_line_ns := t_line,
                to_intra_gap_ns := (if gapped then intra_gap t_line gap (packets_per_line (tp_payload_size p) fmt)
                                    else to_intra_gap_ns s),
                to_pace_line_burst := line_burst,
                to_eff_horizon_ns := eff_horizon (tp_pacing_horizon_ns p) interval line_burst\<rparr>)
      })"

section \<open>The schedules\<close>

text \<open>Each schedule decides whether the frame is sent.\<close>

definition kFixedSkipFloorNs :: int where "kFixedSkipFloorNs = 2000000"

definition schedule_fixed :: "u64 \<Rightarrow> u64 \<Rightarrow> tx_op \<Rightarrow> bool \<times> tx_op" where
  "schedule_fixed now capture s =
     (let fixed_l = tp_latency_ns (to_params s);
          gbase = sint capture + sint fixed_l;
          lead = gbase - sint now;
          s1 = s\<lparr>to_min_lead_win := min lead (to_min_lead_win s), to_fixed_checked := True\<rparr>
      in if lead < kFixedSkipFloorNs
         then (False, s1\<lparr>to_skipped_late := to_skipped_late s1 + 1,
                         to_fixed_late_streak := to_fixed_late_streak s1 + 1\<rparr>)
         else (True, s1\<lparr>to_fixed_late_streak := 0, to_schedule_base_ns := word_of_int gbase,
                        to_last_lead_ns := lead, to_genlock_offset := fixed_l, to_genlocked := True\<rparr>))"

definition win_rotate :: "tx_op \<Rightarrow> tx_op" where
  "win_rotate s =
     (if to_win_count s + 1 \<ge> 64
      then s\<lparr>to_win_skips_prev := to_win_skips s, to_win_skips := 0, to_win_count := 0\<rparr>
      else s\<lparr>to_win_count := to_win_count s + 1\<rparr>)"

text \<open>The floor probe of the trim servo, on a skip after a long clean run.\<close>

definition probe_back_off :: "int \<Rightarrow> int \<Rightarrow> tx_op \<Rightarrow> tx_op" where
  "probe_back_off tgt lead s =
     (if tp_trim_ns (to_params s) > 0 \<and> to_frames_since_skip s > to_trim_arm_frames s then
        let back = max (max (2 * tgt - lead) (to_shaved_since_probe s div 2)) 4000000
        in s\<lparr>to_genlock_offset := to_genlock_offset s + word_of_int back,
             to_trim_total_ns := to_trim_total_ns s - back, to_shaved_since_probe := 0,
             to_trim_arm_frames := min (to_trim_arm_frames s * 2) 8192\<rparr>
      else s)"

definition genlock_skip :: "int \<Rightarrow> int \<Rightarrow> bool \<Rightarrow> tx_op \<Rightarrow> tx_op" where
  "genlock_skip tgt lead shallow s =
     (let s1 = s\<lparr>to_skip_streak := to_skip_streak s + 1, to_skipped_late := to_skipped_late s + 1,
                 to_win_skips := (if shallow then to_win_skips s + 1 else to_win_skips s)\<rparr>;
          s2 = probe_back_off tgt lead s1;
          s3 = s2\<lparr>to_frames_since_skip := 0\<rparr>
      in if to_media_ts_ns s3 \<noteq> 0
         then s3\<lparr>to_media_ts_ns := to_media_ts_ns s3 + to_frame_interval_ns s3\<rparr> else s3)"

definition genlock_reanchor :: "u64 \<Rightarrow> u64 \<Rightarrow> u64 \<Rightarrow> tx_op \<Rightarrow> int \<times> int \<times> tx_op" where
  "genlock_reanchor now tgt capture s =
     (sint now + sint tgt, sint tgt,
      s\<lparr>to_genlock_offset := (now + tgt) - capture, to_reanchors := to_reanchors s + 1,
        to_win_skips := 0, to_win_skips_prev := 0, to_win_count := 0, to_frames_since_skip := 0,
        to_trim_arm_frames := 512, to_shaved_since_probe := 0\<rparr>)"

definition genlock_trim :: "int \<Rightarrow> int \<Rightarrow> tx_op \<Rightarrow> int \<times> int \<times> tx_op" where
  "genlock_trim gbase lead s =
     (let t = tp_trim_ns (to_params s)
      in if t > 0 \<and> to_frames_since_skip s > to_trim_arm_frames s
         then (gbase - uint t, lead - uint t,
               s\<lparr>to_genlock_offset := to_genlock_offset s - ucast t,
                 to_trim_total_ns := to_trim_total_ns s + uint t,
                 to_shaved_since_probe := to_shaved_since_probe s + uint t\<rparr>)
         else (gbase, lead, s))"

definition schedule_genlock :: "u64 \<Rightarrow> u64 \<Rightarrow> u64 \<Rightarrow> tx_op \<Rightarrow> bool \<times> tx_op" where
  "schedule_genlock now tgt capture s =
     (let s0 = (if to_genlock_offset s = 0 then s\<lparr>to_genlock_offset := (now + tgt) - capture\<rparr> else s);
          gbase = sint capture + sint (to_genlock_offset s0);
          lead = gbase - sint now;
          shallow = (lead > - sint (to_frame_interval_ns s0));
          s1 = win_rotate s0;
          chronic_clip = (to_win_skips s1 + to_win_skips_prev s1 > 32)
      in if lead < sint tgt div 4 \<and> to_skip_streak s1 < 32 \<and> \<not> chronic_clip
         then (False, genlock_skip (sint tgt) lead shallow s1)
         else
           let (gbase', lead', s2) =
                 (if lead < sint tgt div 4 \<or> lead > 2 * sint (to_frame_interval_ns s1)
                  then genlock_reanchor now tgt capture s1 else genlock_trim gbase lead s1)
           in (True, s2\<lparr>to_frames_since_skip := to_frames_since_skip s2 + 1, to_skip_streak := 0,
                        to_schedule_base_ns := word_of_int gbase', to_last_lead_ns := lead',
                        to_genlocked := True\<rparr>))"

text \<open>C++ division truncates towards zero.\<close>

definition tdiv :: "int \<Rightarrow> int \<Rightarrow> int" where
  "tdiv a b = (if a < 0 then - (- a div b) else a div b)"

definition schedule_servo :: "u64 \<Rightarrow> u64 \<Rightarrow> tx_op \<Rightarrow> tx_op" where
  "schedule_servo now tgt s =
     (let s1 =
        (if to_schedule_base_ns s = 0 then s\<lparr>to_schedule_base_ns := now + tgt\<rparr>
         else
           let err = sint (now + tgt) - sint (to_schedule_base_ns s);
               interval = sint (to_frame_interval_ns s)
           in if err > interval \<or> err < - interval
              then s\<lparr>to_schedule_base_ns := now + tgt, to_reanchors := to_reanchors s + 1\<rparr>
              else s\<lparr>to_schedule_base_ns := to_schedule_base_ns s + word_of_int (tdiv err 8)\<rparr>)
      in s1\<lparr>to_last_lead_ns := sint (to_schedule_base_ns s1) - sint now, to_genlocked := False\<rparr>)"

definition schedule_legacy :: "u64 \<Rightarrow> tx_op \<Rightarrow> tx_op" where
  "schedule_legacy now s =
     (let s1 =
        (if to_schedule_base_ns s = 0 \<or> now > to_schedule_base_ns s + to_frame_interval_ns s
         then s\<lparr>to_reanchors := (if to_schedule_base_ns s \<noteq> 0 then to_reanchors s + 1 else to_reanchors s),
                to_schedule_base_ns := now + ucast (tp_pacing_horizon_ns (to_params s))\<rparr>
         else s)
      in s1\<lparr>to_last_lead_ns := sint (to_schedule_base_ns s1) - sint now, to_genlocked := False\<rparr>)"

definition tx_schedule :: "u64 \<Rightarrow> u64 \<Rightarrow> tx_op \<Rightarrow> bool \<times> tx_op" where
  "tx_schedule now capture s =
     (let tgt = ucast (tp_reanchor_lead_ns (to_params s));
          s1 = s\<lparr>to_fixed_active := (tp_latency_ns (to_params s) > 0 \<and> capture \<noteq> 0)\<rparr>
      in if to_fixed_active s1 then schedule_fixed now capture s1
         else if tgt > 0 \<and> capture \<noteq> 0 then schedule_genlock now tgt capture s1
         else if tgt > 0 then (True, schedule_servo now tgt s1)
         else (True, schedule_legacy now s1))"

section \<open>The media clock\<close>

definition media_adj :: "tx_op \<Rightarrow> u64 \<Rightarrow> int" where
  "media_adj s base =
     (if to_genlocked s \<and> tp_trim_ns (to_params s) > 0 then
        let skew = sint base - sint (to_media_ts_ns s); lim = uint (tp_trim_ns (to_params s))
        in if skew > lim then lim else if skew < - lim then - lim else skew
      else 0)"

definition media_stamp :: "u64 \<Rightarrow> tx_op \<Rightarrow> u32 \<times> tx_op" where
  "media_stamp base s =
     (if to_fixed_active s then (rtp_timestamp_90k base, s)
      else
        let s1 = (if to_media_ts_ns s = 0 then s\<lparr>to_media_ts_ns := base\<rparr> else s)
        in (rtp_timestamp_90k (to_media_ts_ns s1),
            s1\<lparr>to_media_ts_ns := to_media_ts_ns s1 + (to_frame_interval_ns s1 + word_of_int (media_adj s1 base))\<rparr>))"

section \<open>Send times\<close>

record pace =
  pc_line :: u32
  pc_intra :: u32
  pc_i :: u32

definition pace_start :: pace where
  "pace_start = \<lparr>pc_line = 0xffffffff, pc_intra = 0, pc_i = 0\<rparr>"

definition plan_line :: "packet_plan \<Rightarrow> u32" where
  "plan_line p = (if pp_srd p \<noteq> [] then ucast (srd_line_no (hd (pp_srd p))) else 0)"

definition clamp_now :: "u64 \<Rightarrow> u64 \<Rightarrow> u64" where
  "clamp_now now ts = (if ts < now then now else ts)"

definition send_time :: "tx_op \<Rightarrow> u64 \<Rightarrow> u64 \<Rightarrow> packet_plan \<Rightarrow> pace \<Rightarrow> u64 \<times> pace" where
  "send_time s base now p c =
     (let line = plan_line p; c' = c\<lparr>pc_i := pc_i c + 1\<rparr> in
      if to_pace_line_burst s then
        if line \<noteq> pc_line c
        then (clamp_now now (base + ucast line * to_t_line_ns s), c'\<lparr>pc_line := line\<rparr>)
        else (0, c')
      else if to_pace_gapped s then
        let c2 = (if line \<noteq> pc_line c then c'\<lparr>pc_line := line, pc_intra := 0\<rparr>
                  else c'\<lparr>pc_intra := pc_intra c + 1\<rparr>)
        in (clamp_now now (base + ucast line * to_t_line_ns s + ucast (pc_intra c2) * to_intra_gap_ns s), c2)
      else (clamp_now now (base + ucast (pc_i c) * to_gap_ns s), c'))"

fun send_times :: "tx_op \<Rightarrow> u64 \<Rightarrow> u64 \<Rightarrow> packet_plan list \<Rightarrow> pace \<Rightarrow> u64 list" where
  "send_times s base now [] c = []"
| "send_times s base now (p # ps) c =
     (let (ts, c') = send_time s base now p c in ts # send_times s base now ps c')"

section \<open>The emit loop\<close>

text \<open>One packet: reserve, serialize into the payload area, submit.  \<open>room\<close> is what the mbuf pool
  returns; an exhausted pool is an error.\<close>

definition emit_packet ::
  "(bytes \<Rightarrow> u16) \<Rightarrow> (nat \<Rightarrow> nat \<Rightarrow> nat) \<Rightarrow> bytes option \<Rightarrow> packetizer \<Rightarrow> bytes \<Rightarrow> packet_plan \<Rightarrow> u64 \<Rightarrow>
   tx_backend \<Rightarrow> (string + tx_mbuf list \<times> tx_mbuf list \<times> tx_backend) option" where
  "emit_packet cksum burst room pk frame p ts b = do {
     r \<leftarrow> reserve_packet cksum room (pp_payload_len p) b;
     case r of
       Inl e \<Rightarrow> Some (Inl e)
     | Inr (m, b1) \<Rightarrow> do {
         body \<leftarrow> write_payload pk p frame (drop kL2L3L4Hdr (mb_data m));
         out \<leftarrow> submit burst (m\<lparr>mb_data := take kL2L3L4Hdr (mb_data m) @ body\<rparr>) ts b1;
         Some (Inr out)
       }
   }"

fun emit_packets ::
  "(bytes \<Rightarrow> u16) \<Rightarrow> (nat \<Rightarrow> nat \<Rightarrow> nat) \<Rightarrow> bytes option list \<Rightarrow> packetizer \<Rightarrow> bytes \<Rightarrow>
   (packet_plan \<times> u64) list \<Rightarrow> tx_backend \<Rightarrow> (string + tx_mbuf list \<times> tx_mbuf list \<times> tx_backend) option" where
  "emit_packets cksum burst rooms pk frame [] b = Some (Inr ([], [], b))"
| "emit_packets cksum burst rooms pk frame ((p, ts) # ps) b = do {
     r \<leftarrow> emit_packet cksum burst (case rooms of [] \<Rightarrow> None | x # _ \<Rightarrow> x) pk frame p ts b;
     case r of
       Inl e \<Rightarrow> Some (Inl e)
     | Inr (sent, freed, b1) \<Rightarrow> do {
         r2 \<leftarrow> emit_packets cksum burst (tl rooms) pk frame ps b1;
         Some (case r2 of Inl e \<Rightarrow> Inl e
               | Inr (sent2, freed2, b2) \<Rightarrow> Inr (sent @ sent2, freed @ freed2, b2))
       }
   }"

text \<open>The frame as emitted: the plans of the packetizer, their send times, and the flush.\<close>

definition emit_frame ::
  "(bytes \<Rightarrow> u16) \<Rightarrow> (nat \<Rightarrow> nat \<Rightarrow> nat) \<Rightarrow> bytes option list \<Rightarrow> (nat \<Rightarrow> bool) \<Rightarrow> u64 \<Rightarrow> bytes \<Rightarrow> tx_op \<Rightarrow>
   tx_backend \<Rightarrow> (string + tx_mbuf list \<times> tx_mbuf list \<times> tx_op \<times> tx_backend) option" where
  "emit_frame cksum burst rooms capped now frame s b = do {
     let base = to_schedule_base_ns s;
     let (rtp, s1) = media_stamp base s;
     pk \<leftarrow> to_pktz s1;
     (ps, pk') \<leftarrow> pk_drain (start_frame rtp pk);
     r \<leftarrow> emit_packets cksum burst rooms (start_frame rtp pk) frame
            (zip ps (send_times s1 base now ps pace_start)) b;
     Some (case r of Inl e \<Rightarrow> Inl e
       | Inr (sent, freed, b1) \<Rightarrow>
           let (sent2, freed2, b2) = tx_flush burst b1
           in Inr (sent @ sent2, freed @ freed2,
                   s1\<lparr>to_pktz := Some pk', to_packets_sent := to_packets_sent s1 + of_nat (length ps),
                      to_throttle_enabled := (to_throttle_enabled s1 \<and>
                         \<not> (tp_pacing (to_params s1) \<and> (\<exists>i\<in>set [0..<length ps]. capped i))),
                      to_schedule_base_ns := base + to_frame_interval_ns s1,
                      to_frames_sent := to_frames_sent s1 + 1\<rparr>, b2))
   }"

text \<open>\<open>compute\<close>: nothing is sent for a frame without data or of the wrong size, nor for a late one.\<close>

definition tx_compute ::
  "(bytes \<Rightarrow> u16) \<Rightarrow> (nat \<Rightarrow> nat \<Rightarrow> nat) \<Rightarrow> bytes option list \<Rightarrow> (nat \<Rightarrow> bool) \<Rightarrow> string option \<Rightarrow> u64 \<Rightarrow>
   video_frame \<Rightarrow> tx_op \<Rightarrow> tx_backend \<Rightarrow>
   (string + tx_mbuf list \<times> tx_mbuf list \<times> tx_op \<times> tx_backend) option" where
  "tx_compute cksum burst rooms capped burst_env now frame s b =
     (case vf_data frame of
        None \<Rightarrow> Some (Inr ([], [], s, b))
      | Some dat \<Rightarrow>
          if length dat \<noteq> unat (octets_per_frame (vf_format frame)) then Some (Inr ([], [], s, b))
          else do {
            s1 \<leftarrow> ensure_pacer burst_env (vf_format frame) s;
            let (send, s2) = tx_schedule now (vf_capture_ts_ns frame) (s1\<lparr>to_warmed := True\<rparr>);
            if send then emit_frame cksum burst rooms capped now dat s2 b
            else Some (Inr ([], [], s2, b))
          })"

section \<open>The audio relay\<close>

definition audio_tick_shift :: "tx_params \<Rightarrow> u32" where
  "audio_tick_shift p =
     (let shift_ns = sint (tp_latency_ns p) + tp_av_offset_ns p;
          ticks = rtp_ticks_abs (word_of_int \<bar>shift_ns\<bar>) (tp_audio_rate p)
      in if shift_ns \<ge> 0 then ucast ticks else - ucast ticks)"

definition audio_due :: "tx_params \<Rightarrow> u64 \<Rightarrow> u64" where
  "audio_due p capture = word_of_int (sint capture + (sint (tp_latency_ns p) + tp_av_offset_ns p))"

datatype relay = Ignored | Dropped | Relayed bytes u64

text \<open>One packet of \<open>audio_loop\<close>; \<open>now\<close> is the clock after the wait.  The result is what is submitted
  and whether it counts as late.\<close>

definition audio_relay_packet :: "tx_params \<Rightarrow> u64 \<Rightarrow> bridge_pkt \<Rightarrow> relay \<times> bool" where
  "audio_relay_packet p now pkt =
     (let due = audio_due p (bp_capture_ns pkt); rtp = bp_rtp pkt
      in if length rtp < 12 then (Ignored, False)
         else if sint now - sint due > 50000000 then (Dropped, False)
         else
           let ts = rd32 (rtp ! 4) (rtp ! 5) (rtp ! 6) (rtp ! 7) + (audio_tick_shift p + bp_ts_delta pkt)
           in (Relayed (take 4 rtp @ be32 ts @ drop 8 rtp) (if due \<le> now then 0 else due), due \<le> now))"

section \<open>Telemetry and stop\<close>

text \<open>The values of the periodic line.  Reading them closes the margin window: the least lead starts
  anew.  The NIC's own counters come from the backend and are not part of the state.\<close>

record tx_live =
  tl_frames :: u64
  tl_packets :: u64
  tl_reanchors :: u64
  tl_skipped :: u64
  tl_lead_us :: int
  tl_e2e_us :: u64
  tl_trim_ms :: int
  tl_fixed_ms :: u64
  tl_margin_us :: int

definition kRtpWrapNs :: u64 where "kRtpWrapNs = 4294967296 * 100000 div 9"

definition tx_emit_live :: "tx_op \<Rightarrow> tx_live \<times> tx_op" where
  "tx_emit_live s =
     (let margin = (if to_min_lead_win s = INT64_MAX then 0 else max (to_min_lead_win s) 0)
      in (\<lparr>tl_frames = to_frames_sent s, tl_packets = to_packets_sent s, tl_reanchors = to_reanchors s,
            tl_skipped = to_skipped_late s, tl_lead_us = tdiv (to_last_lead_ns s) 1000,
            tl_e2e_us = (if to_genlock_offset s \<noteq> 0 then (to_genlock_offset s mod kRtpWrapNs) div 1000 else 0),
            tl_trim_ms = tdiv (to_trim_total_ns s) 1000000, tl_fixed_ms = tp_latency_ns (to_params s) div 1000000,
            tl_margin_us = margin div 1000\<rparr>,
          s\<lparr>to_min_lead_win := INT64_MAX\<rparr>))"

definition tx_stop :: "tx_op \<Rightarrow> tx_backend \<Rightarrow> tx_live \<times> tx_op \<times> tx_backend" where
  "tx_stop s b = (let (live, s') = tx_emit_live s in (live, s', tx_shutdown b))"

end
