(* ===== verification/Tx_Sched.thy ===== *)
theory Tx_Sched
  imports Tx_Op
begin

text \<open>
  Properties of the transmit schedules, the media clock and the audio relay of \<open>Tx_Op\<close>.  Times are
  nanoseconds since the PTP epoch, so far below the range of a signed 64-bit integer; the bounds in
  the hypotheses say so.
\<close>

section \<open>Signed words\<close>

lemma sint_u64: "unat (w :: u64) < 2 ^ 63 \<Longrightarrow> sint w = int (unat w)"
proof -
  assume "unat w < 2 ^ 63"
  then have "int (unat w) < int (2 ^ 63)" by (simp only: of_nat_less_iff)
  then have "uint w < 2 ^ 63" by simp
  moreover have "- (2 ^ 63) \<le> uint w" by (rule order_trans [OF _ uint_nonnegative]) simp
  ultimately have "sint (word_of_int (uint w) :: u64) = uint w"
    by (subst signed_of_int) (simp add: signed_take_bit_int_eq_self)
  then show ?thesis by simp
qed

lemma int_less_2p: "n < 2 ^ k \<Longrightarrow> int n < 2 ^ k"
  by (metis of_nat_less_iff of_nat_numeral of_nat_power)

lemma sint_of_int_u64:
  "- 9223372036854775808 \<le> k \<Longrightarrow> k < 9223372036854775808 \<Longrightarrow> sint (word_of_int k :: u64) = k"
  by (subst signed_of_int) (simp add: signed_take_bit_int_eq_self)

lemma sint_ucast_u32: "sint (ucast (w :: u32) :: u64) = uint w"
proof -
  have "unat (ucast w :: u64) = unat w" by (simp add: unat_ucast_up)
  moreover have "unat w < 2 ^ 63" using unat_u32_less [of w] by (rule less_trans) simp
  ultimately show ?thesis by (simp add: sint_u64)
qed

section \<open>Fixed latency\<close>

text \<open>C31 - Fixed latency: whatever happened to earlier frames, a frame is sent exactly when its slot
  \<open>capture + L\<close> is at least 2 ms ahead; then it is scheduled at exactly \<open>capture + L\<close> and carries the
  90 kHz stamp of that instant; otherwise it is counted as skipped and neither the schedule base nor
  the media clock moves.\<close>
theorem tx_fixed_latency_exact:
  assumes "tp_latency_ns (to_params s) \<noteq> 0" "capture \<noteq> 0"
    and "unat capture + unat (tp_latency_ns (to_params s)) < 2 ^ 63" "unat now < 2 ^ 63"
  shows "case tx_schedule now capture s of (sent, s') \<Rightarrow>
    (sent \<longleftrightarrow> unat now + 2000000 \<le> unat capture + unat (tp_latency_ns (to_params s))) \<and>
    (sent \<longrightarrow> to_schedule_base_ns s' = capture + tp_latency_ns (to_params s) \<and>
       fst (media_stamp (to_schedule_base_ns s') s') = rtp_timestamp_90k (capture + tp_latency_ns (to_params s))) \<and>
    (\<not> sent \<longrightarrow> to_skipped_late s' = to_skipped_late s + 1 \<and>
       to_schedule_base_ns s' = to_schedule_base_ns s \<and> to_media_ts_ns s' = to_media_ts_ns s)"
proof -
  let ?L = "tp_latency_ns (to_params s)"
  have sc: "sint capture = int (unat capture)" "sint ?L = int (unat ?L)" "sint now = int (unat now)"
    using assms(3,4) by (intro sint_u64; linarith)+
  have base: "(word_of_int (sint capture + sint ?L) :: u64) = capture + ?L"
    by (simp add: sc)
  have lead: "sint capture + sint ?L - sint now < kFixedSkipFloorNs \<longleftrightarrow>
      \<not> unat now + 2000000 \<le> unat capture + unat ?L"
    unfolding sc kFixedSkipFloorNs_def by linarith
  have fixed: "tx_schedule now capture s = schedule_fixed now capture (s\<lparr>to_fixed_active := True\<rparr>)"
    using assms(1,2) by (simp add: tx_schedule_def word_neq_0_conv Let_def)
  show ?thesis
    unfolding fixed schedule_fixed_def Let_def
    by (simp add: lead base media_stamp_def)
qed

theorem tx_fixed_latency_exact_witness:
  "let s = tx_op_new (default_tx_params\<lparr>tp_latency_ns := 100000000\<rparr>) in
   case tx_schedule 1790000000000000000 1790000000000000005 s of
     (sent, s') \<Rightarrow> sent \<and> to_schedule_base_ns s' = 1790000000100000005"
  using tx_fixed_latency_exact [of "tx_op_new (default_tx_params\<lparr>tp_latency_ns := 100000000\<rparr>)"
      1790000000000000005 1790000000000000000]
  by (simp add: tx_op_new_def default_tx_params_def split: prod.splits)

section \<open>Genlock\<close>

text \<open>C35 - Genlock: with a target lead and capture times on the NIC clock, every frame that is sent has
  its schedule base ahead of the clock by a lead between a quarter of the target (less one trim
  step) and the larger of the target and two frame intervals, and that lead is the one reported.\<close>
theorem tx_genlock_lead_band:
  assumes "tp_latency_ns (to_params s) = 0" "tp_reanchor_lead_ns (to_params s) \<noteq> 0" "capture \<noteq> 0"
    and "unat now < 2 ^ 62" "unat (to_frame_interval_ns s) < 2 ^ 60"
    and "tx_schedule now capture s = (True, s')"
  shows "to_last_lead_ns s' = sint (to_schedule_base_ns s') - int (unat now) \<and>
    int (unat (tp_reanchor_lead_ns (to_params s))) div 4 - int (unat (tp_trim_ns (to_params s))) \<le> to_last_lead_ns s' \<and>
    to_last_lead_ns s' \<le> max (2 * int (unat (to_frame_interval_ns s))) (int (unat (tp_reanchor_lead_ns (to_params s))))"
proof -
  let ?p = "to_params s" and ?t = "ucast (tp_reanchor_lead_ns (to_params s)) :: u64"
  let ?T = "uint (tp_reanchor_lead_ns (to_params s))" and ?R = "uint (tp_trim_ns (to_params s))"
  let ?I = "sint (to_frame_interval_ns s)"
  have t: "sint ?t = ?T" by (rule sint_ucast_u32)
  have "unat ?t = unat (tp_reanchor_lead_ns ?p)" by (simp add: unat_ucast_up)
  then have pos: "?t > 0" using assms(2) by (simp add: word_less_nat_alt unat_gt_0)

  define s1 where "s1 = s\<lparr>to_fixed_active := False\<rparr>"
  have g: "schedule_genlock now ?t capture s1 = (True, s')"
    using assms(1,3,6) pos by (simp add: tx_schedule_def s1_def Let_def)
  define s0 where "s0 = (if to_genlock_offset s1 = 0 then s1\<lparr>to_genlock_offset := (now + ?t) - capture\<rparr> else s1)"
  define gb where "gb = sint capture + sint (to_genlock_offset s0)"
  define w where "w = win_rotate s0"
  define c where "c = (to_win_skips w + to_win_skips_prev w > 32)"
  have keep: "to_params w = ?p" "to_frame_interval_ns w = to_frame_interval_ns s"
    by (simp_all add: w_def win_rotate_def s0_def s1_def)
  have ns: "\<not> (gb - sint now < ?T div 4 \<and> to_skip_streak w < 32 \<and> \<not> c)"
    and s': "s' = (let (gbase', lead', s2) =
        (if gb - sint now < ?T div 4 \<or> gb - sint now > 2 * ?I
         then genlock_reanchor now ?t capture w else genlock_trim gb (gb - sint now) w)
      in s2\<lparr>to_frames_since_skip := to_frames_since_skip s2 + 1, to_skip_streak := 0,
            to_schedule_base_ns := word_of_int gbase', to_last_lead_ns := lead', to_genlocked := True\<rparr>)"
  proof -
    let ?skip = "gb - sint now < ?T div 4 \<and> to_skip_streak w < 32 \<and> \<not> c"
    define r where "r = (if gb - sint now < ?T div 4 \<or> gb - sint now > 2 * ?I
         then genlock_reanchor now ?t capture w else genlock_trim gb (gb - sint now) w)"
    obtain x y z where r: "r = (x, y, z)" by (cases r)
    have "schedule_genlock now ?t capture s1 = (if ?skip then (False, genlock_skip (sint ?t) (gb - sint now)
          (gb - sint now > - sint (to_frame_interval_ns s0)) w)
        else (let (gbase', lead', s2) = r in (True, s2\<lparr>to_frames_since_skip := to_frames_since_skip s2 + 1,
          to_skip_streak := 0, to_schedule_base_ns := word_of_int gbase', to_last_lead_ns := lead',
          to_genlocked := True\<rparr>)))"
      unfolding schedule_genlock_def Let_def s0_def [symmetric] gb_def [symmetric] w_def [symmetric]
        c_def [symmetric] r_def keep t ..
    with g show "\<not> ?skip" "s' = (let (gbase', lead', s2) = r in s2\<lparr>to_frames_since_skip :=
        to_frames_since_skip s2 + 1, to_skip_streak := 0, to_schedule_base_ns := word_of_int gbase',
        to_last_lead_ns := lead', to_genlocked := True\<rparr>)"
      unfolding r by (cases ?skip; simp)+
  qed

  have now: "sint now = int (unat now)" using assms(4) by (intro sint_u64) simp
  have I: "?I = int (unat (to_frame_interval_ns s))" using assms(5) by (intro sint_u64) simp
  have T: "0 \<le> ?T" "?T < 4294967296" "0 \<le> ?R" "?R < 4294967296"
    using unsigned_less [of "tp_reanchor_lead_ns ?p", where ?'a = int] unsigned_less [of "tp_trim_ns ?p", where ?'a = int]
    by simp_all
  have n62: "0 \<le> sint now" "sint now < 4611686018427387904"
    using int_less_2p [OF assms(4)] unfolding now by simp_all
  have I60: "0 \<le> ?I" "?I < 1152921504606846976"
    using int_less_2p [OF assms(5)] unfolding I by simp_all

  show ?thesis
  proof (cases "gb - sint now < ?T div 4 \<or> gb - sint now > 2 * ?I")
    case True
    then have "to_schedule_base_ns s' = word_of_int (sint now + ?T)" "to_last_lead_ns s' = ?T"
      using s' by (simp_all add: genlock_reanchor_def t)
    moreover have "sint (word_of_int (sint now + ?T) :: u64) = sint now + ?T"
      by (intro sint_of_int_u64) (use n62 T in linarith)+
    moreover have "?T div 4 \<le> ?T" using T(1) by presburger
    then have "?T div 4 - ?R \<le> ?T" using T(3) by linarith
    ultimately show ?thesis using now by simp

  next
    case False
    define d where "d = (if tp_trim_ns ?p > 0 \<and> to_frames_since_skip w > to_trim_arm_frames w then ?R else 0)"
    have "to_schedule_base_ns s' = word_of_int (gb - d)" "to_last_lead_ns s' = gb - sint now - d"
      using s' False by (simp_all add: genlock_trim_def d_def keep Let_def)
    moreover have d: "0 \<le> d" "d \<le> ?R" using T by (simp_all add: d_def)
    moreover have "sint (word_of_int (gb - d) :: u64) = gb - d"
      by (intro sint_of_int_u64) (use n62 T I60 False d in linarith)+
    ultimately show ?thesis using T False now I by simp linarith
  qed
qed

text \<open>In the witness a first frame anchors the offset at the target lead.\<close>
theorem tx_genlock_lead_band_witness:
  "\<exists>s'. tx_schedule 1000000000 5000000 (tx_op_new (default_tx_params\<lparr>tp_reanchor_lead_ns := 4000000\<rparr>)
      \<lparr>to_frame_interval_ns := 16683333\<rparr>) = (True, s') \<and> to_last_lead_ns s' \<le> 33366666"
proof -
  let ?s = "tx_op_new (default_tx_params\<lparr>tp_reanchor_lead_ns := 4000000\<rparr>)\<lparr>to_frame_interval_ns := 16683333\<rparr>"
  have "fst (tx_schedule 1000000000 5000000 ?s)" by code_simp
  then obtain s' where s': "tx_schedule 1000000000 5000000 ?s = (True, s')" by (metis prod.collapse)
  have "to_last_lead_ns s' \<le> 33366666"
    using tx_genlock_lead_band [OF _ _ _ _ _ s'] by (simp add: tx_op_new_def default_tx_params_def)
  with s' show ?thesis by blast
qed

section \<open>Skipping is bounded\<close>

lemma probe_back_off_keeps [simp]:
  "to_skip_streak (probe_back_off t l s) = to_skip_streak s" "to_frames_sent (probe_back_off t l s) = to_frames_sent s"
  "to_params (probe_back_off t l s) = to_params s" "to_pktz (probe_back_off t l s) = to_pktz s"
  by (simp_all add: probe_back_off_def Let_def)

lemma genlock_skip_keeps [simp]:
  "to_skip_streak (genlock_skip t l b s) = to_skip_streak s + 1" "to_frames_sent (genlock_skip t l b s) = to_frames_sent s"
  "to_params (genlock_skip t l b s) = to_params s" "to_pktz (genlock_skip t l b s) = to_pktz s"
  by (simp_all add: genlock_skip_def Let_def)

lemma genlock_step_keeps:
  "genlock_reanchor n t c s = (x, y, s') \<or> genlock_trim g l s = (x, y, s') \<Longrightarrow>
   to_frames_sent s' = to_frames_sent s \<and> to_params s' = to_params s \<and> to_pktz s' = to_pktz s"
  by (auto simp: genlock_reanchor_def genlock_trim_def Let_def split: if_splits)

lemma win_rotate_keeps [simp]:
  "to_skip_streak (win_rotate s) = to_skip_streak s" "to_frames_sent (win_rotate s) = to_frames_sent s"
  "to_params (win_rotate s) = to_params s" "to_pktz (win_rotate s) = to_pktz s"
  by (simp_all add: win_rotate_def)

lemma schedule_genlock_streak:
  assumes "schedule_genlock now tgt capture s = (sent, s')"
  shows "if sent then to_skip_streak s' = 0 else to_skip_streak s' = to_skip_streak s + 1 \<and> to_skip_streak s < 32"
    and "to_frames_sent s' = to_frames_sent s \<and> to_params s' = to_params s \<and> to_pktz s' = to_pktz s"
proof -
  define s0 where "s0 = (if to_genlock_offset s = 0 then s\<lparr>to_genlock_offset := (now + tgt) - capture\<rparr> else s)"
  define gb where "gb = sint capture + sint (to_genlock_offset s0)"
  define w where "w = win_rotate s0"
  define r where "r = (if gb - sint now < sint tgt div 4 \<or> gb - sint now > 2 * sint (to_frame_interval_ns w)
         then genlock_reanchor now tgt capture w else genlock_trim gb (gb - sint now) w)"
  obtain x y z where r: "r = (x, y, z)" by (cases r)
  have z: "to_frames_sent z = to_frames_sent w \<and> to_params z = to_params w \<and> to_pktz z = to_pktz w"
    using r unfolding r_def by (intro genlock_step_keeps) (auto split: if_splits)
  have w: "to_skip_streak w = to_skip_streak s" "to_frames_sent w = to_frames_sent s" "to_params w = to_params s"
    "to_pktz w = to_pktz s"
    by (simp_all add: w_def s0_def)
  have e: "schedule_genlock now tgt capture s =
    (if gb - sint now < sint tgt div 4 \<and> to_skip_streak w < 32 \<and> \<not> to_win_skips w + to_win_skips_prev w > 32
     then (False, genlock_skip (sint tgt) (gb - sint now) (gb - sint now > - sint (to_frame_interval_ns s0)) w)
     else (True, z\<lparr>to_frames_since_skip := to_frames_since_skip z + 1, to_skip_streak := 0,
            to_schedule_base_ns := word_of_int x, to_last_lead_ns := y, to_genlocked := True\<rparr>))"
    unfolding schedule_genlock_def Let_def s0_def [symmetric] gb_def [symmetric] w_def [symmetric]
      r_def [symmetric] r by simp
  show "if sent then to_skip_streak s' = 0 else to_skip_streak s' = to_skip_streak s + 1 \<and> to_skip_streak s < 32"
    using assms unfolding e by (auto simp: w split: if_split_asm)
  show "to_frames_sent s' = to_frames_sent s \<and> to_params s' = to_params s \<and> to_pktz s' = to_pktz s"
    using assms unfolding e by (auto simp: w z split: if_split_asm)
qed

lemma tx_schedule_genlock:
  "tp_latency_ns (to_params s) = 0 \<Longrightarrow> tp_reanchor_lead_ns (to_params s) \<noteq> 0 \<Longrightarrow> capture \<noteq> 0 \<Longrightarrow>
   tx_schedule now capture s =
   schedule_genlock now (ucast (tp_reanchor_lead_ns (to_params s))) capture (s\<lparr>to_fixed_active := False\<rparr>)"
proof -
  assume a: "tp_latency_ns (to_params s) = 0" "tp_reanchor_lead_ns (to_params s) \<noteq> 0" "capture \<noteq> 0"
  have "unat (ucast (tp_reanchor_lead_ns (to_params s)) :: u64) = unat (tp_reanchor_lead_ns (to_params s))"
    by (simp add: unat_ucast_up)
  then have "(ucast (tp_reanchor_lead_ns (to_params s)) :: u64) > 0"
    using a(2) by (simp add: word_less_nat_alt unat_gt_0)
  then show ?thesis using a by (simp add: tx_schedule_def Let_def)
qed

lemma ensure_pacer_keeps:
  "ensure_pacer e f s = Some s' \<Longrightarrow>
   to_skip_streak s' = to_skip_streak s \<and> to_frames_sent s' = to_frames_sent s \<and> to_params s' = to_params s"
  by (auto simp: ensure_pacer_def Let_def split: if_splits bind_splits)

lemma media_stamp_keeps [simp]:
  "to_skip_streak (snd (media_stamp b s)) = to_skip_streak s" "to_frames_sent (snd (media_stamp b s)) = to_frames_sent s"
  "to_params (snd (media_stamp b s)) = to_params s"
  by (simp_all add: media_stamp_def Let_def)

lemma emit_frame_keeps:
  assumes "emit_frame cksum burst rooms capped now dat s b = Some (Inr (sent, freed, s', b'))"
  shows "to_skip_streak s' = to_skip_streak s \<and> to_frames_sent s' = to_frames_sent s + 1 \<and> to_params s' = to_params s"
proof -
  obtain rtp s1 where m: "media_stamp (to_schedule_base_ns s) s = (rtp, s1)"
    by (cases "media_stamp (to_schedule_base_ns s) s")
  have k: "to_skip_streak s1 = to_skip_streak s" "to_frames_sent s1 = to_frames_sent s" "to_params s1 = to_params s"
    using media_stamp_keeps [of "to_schedule_base_ns s" s] m by simp_all
  show ?thesis
    using assms k by (auto simp: emit_frame_def m Let_def split: bind_splits sum.splits prod.splits)
qed

text \<open>A run of \<open>compute\<close>: each frame with the clock and the mbufs it finds.\<close>

fun tx_frames ::
  "(bytes \<Rightarrow> u16) \<Rightarrow> (nat \<Rightarrow> nat \<Rightarrow> nat) \<Rightarrow> (nat \<Rightarrow> bool) \<Rightarrow> string option \<Rightarrow>
   (u64 \<times> video_frame \<times> bytes option list) list \<Rightarrow> tx_op \<Rightarrow> tx_backend \<Rightarrow> (string + tx_op \<times> tx_backend) option" where
  "tx_frames cksum burst capped e [] s b = Some (Inr (s, b))"
| "tx_frames cksum burst capped e ((now, f, rooms) # fs) s b =
     (case tx_compute cksum burst rooms capped e now f s b of
        Some (Inr (_, _, s', b')) \<Rightarrow> tx_frames cksum burst capped e fs s' b'
      | Some (Inl err) \<Rightarrow> Some (Inl err)
      | None \<Rightarrow> None)"

definition sendable :: "video_frame \<Rightarrow> bool" where
  "sendable f \<longleftrightarrow> (\<exists>d. vf_data f = Some d \<and> length d = unat (octets_per_frame (vf_format f))) \<and> vf_capture_ts_ns f \<noteq> 0"

lemma tx_compute_streak:
  assumes "tx_compute cksum burst rooms capped e now f s b = Some (Inr (sent, freed, s', b'))"
    and "tp_latency_ns (to_params s) = 0" "tp_reanchor_lead_ns (to_params s) \<noteq> 0" "sendable f"
  shows "to_params s' = to_params s \<and>
    (to_skip_streak s' = 0 \<and> to_frames_sent s' = to_frames_sent s + 1 \<or>
     to_skip_streak s' = to_skip_streak s + 1 \<and> to_skip_streak s < 32 \<and> to_frames_sent s' = to_frames_sent s)"
proof -
  obtain d where d: "vf_data f = Some d" "length d = unat (octets_per_frame (vf_format f))" "vf_capture_ts_ns f \<noteq> 0"
    using assms(4) by (auto simp: sendable_def)
  obtain s1 where s1: "ensure_pacer e (vf_format f) s = Some s1"
    using assms(1) by (auto simp: tx_compute_def d split: bind_splits)
  note k = ensure_pacer_keeps [OF s1]
  let ?s = "s1\<lparr>to_warmed := True\<rparr>"
  obtain send s2 where s2: "tx_schedule now (vf_capture_ts_ns f) ?s = (send, s2)"
    by (cases "tx_schedule now (vf_capture_ts_ns f) ?s")
  have "tx_schedule now (vf_capture_ts_ns f) ?s = schedule_genlock now (ucast (tp_reanchor_lead_ns (to_params ?s)))
      (vf_capture_ts_ns f) (?s\<lparr>to_fixed_active := False\<rparr>)"
    by (rule tx_schedule_genlock) (use k assms(2,3) d(3) in simp_all)
  then have "schedule_genlock now (ucast (tp_reanchor_lead_ns (to_params ?s))) (vf_capture_ts_ns f)
      (?s\<lparr>to_fixed_active := False\<rparr>) = (send, s2)" using s2 by simp
  note g = schedule_genlock_streak [OF this]
  have c: "(if send then emit_frame cksum burst rooms capped now d s2 b else Some (Inr ([], [], s2, b))) =
      Some (Inr (sent, freed, s', b'))"
    using assms(1) d(1,2) s1 s2 by (simp add: tx_compute_def)
  show ?thesis
  proof (cases send)
    case True
    then have e: "emit_frame cksum burst rooms capped now d s2 b = Some (Inr (sent, freed, s', b'))" using c by simp
    have "to_skip_streak s2 = 0" using g(1) True by simp
    then show ?thesis using emit_frame_keeps [OF e] g(2) k by simp
  next
    case False
    then have e: "s' = s2" using c by simp
    show ?thesis using g False k by (simp add: e)
  qed
qed

lemma tx_frames_count:
  "tx_frames cksum burst capped e fs s b = Some (Inr (s', b')) \<Longrightarrow>
   tp_latency_ns (to_params s) = 0 \<Longrightarrow> tp_reanchor_lead_ns (to_params s) \<noteq> 0 \<Longrightarrow>
   \<forall>(now, f, rooms)\<in>set fs. sendable f \<Longrightarrow> to_skip_streak s \<le> 32 \<Longrightarrow>
   \<exists>n. to_frames_sent s' = to_frames_sent s + of_nat n \<and> n \<le> length fs \<and> to_skip_streak s' \<le> 32 \<and>
     length fs + unat (to_skip_streak s) \<le> 33 * n + unat (to_skip_streak s')"
proof (induction cksum burst capped e fs s b rule: tx_frames.induct)
  case (2 cksum burst capped e now f rooms fs s b)
  obtain sent freed s1 b1 where c: "tx_compute cksum burst rooms capped e now f s b = Some (Inr (sent, freed, s1, b1))"
    using 2(2) by (auto split: option.splits sum.splits)
  have f: "sendable f" using 2(5) by simp
  note k = tx_compute_streak [OF c 2(3,4) f]
  have r: "tx_frames cksum burst capped e fs s1 b1 = Some (Inr (s', b'))" using 2(2) c by simp
  have streak: "to_skip_streak s1 \<le> 32 \<and> (to_frames_sent s1 = to_frames_sent s + 1 \<and> unat (to_skip_streak s1) = 0 \<or>
      to_frames_sent s1 = to_frames_sent s \<and> unat (to_skip_streak s1) = unat (to_skip_streak s) + 1)"
  proof (cases "to_skip_streak s1 = 0 \<and> to_frames_sent s1 = to_frames_sent s + 1")
    case False
    then have s: "to_skip_streak s1 = to_skip_streak s + 1" "to_skip_streak s < 32" "to_frames_sent s1 = to_frames_sent s"
      using k by auto
    then have "unat (to_skip_streak s) < 32" by (simp add: word_less_nat_alt)
    then have "unat (to_skip_streak s1) = unat (to_skip_streak s) + 1"
      unfolding s(1) by (subst unat_add_noov) simp_all
    then show ?thesis using s \<open>unat (to_skip_streak s) < 32\<close> by (simp add: word_le_nat_alt)
  qed simp
  obtain n where n: "to_frames_sent s' = to_frames_sent s1 + of_nat n" "n \<le> length fs" "to_skip_streak s' \<le> 32"
    "length fs + unat (to_skip_streak s1) \<le> 33 * n + unat (to_skip_streak s')"
    using 2(1) [OF c refl refl refl refl] r k streak 2(3-5) by auto
  have "unat (to_skip_streak s) \<le> 32" using 2(6) by (simp add: word_le_nat_alt)
  then show ?case
    using streak n by (elim conjE disjE; intro exI [of _ "if to_frames_sent s1 = to_frames_sent s + 1 then Suc n else n"])
      (auto simp: algebra_simps)
qed simp

text \<open>C28 - No starvation: in genlock mode, whatever the clock readings, capture times and earlier state,
  any run of \<open>compute\<close> over frames with data sends at least one frame in every 33; the skip streak
  never exceeds 32.\<close>
theorem tx_genlock_no_starvation:
  assumes "tx_frames cksum burst capped e fs s b = Some (Inr (s', b'))"
    and "tp_latency_ns (to_params s) = 0" "tp_reanchor_lead_ns (to_params s) \<noteq> 0"
    and "\<forall>(now, f, rooms)\<in>set fs. sendable f" "to_skip_streak s = 0" "length fs < 2 ^ 64"
  shows "length fs div 33 \<le> unat (to_frames_sent s' - to_frames_sent s) \<and> to_skip_streak s' \<le> 32"
proof -
  obtain n where n: "to_frames_sent s' = to_frames_sent s + of_nat n" "n \<le> length fs" "to_skip_streak s' \<le> 32"
    "length fs \<le> 33 * n + unat (to_skip_streak s')"
    using tx_frames_count [OF assms(1-4)] assms(5) by auto
  have "unat (to_skip_streak s') \<le> 32" using n(3) by (simp add: word_le_nat_alt)
  then have "length fs div 33 \<le> n" using n(4) by linarith
  moreover have "unat (to_frames_sent s' - to_frames_sent s) = n"
    using n(1,2) assms(6) by (simp add: unat_of_nat)
  ultimately show ?thesis using n(3) by simp
qed


theorem tx_genlock_no_starvation_witness:
  "\<exists>s s' b'. tx_frames (\<lambda>_. 0) (\<lambda>_ k. k) (\<lambda>_. False) None
     [(9000000000, \<lparr>vf_data = Some [1, 2, 3, 4, 5], vf_format = \<lparr>width = 2, height = 1, fps = 50, sampling_of = YCbCr422_10\<rparr>,
        vf_capture_ts_ns = 7, vf_frame_number = 0\<rparr>, [])] s tx_backend_new = Some (Inr (s', b')) \<and>
     to_skip_streak s' \<le> 32 \<and> to_skipped_late s' = 1"
proof -
  define s where "s = tx_op_new (default_tx_params\<lparr>tp_reanchor_lead_ns := 4000000\<rparr>)\<lparr>to_genlock_offset := 1,
    to_pktz := Some (mk_packetizer \<lparr>width = 2, height = 1, fps = 50, sampling_of = YCbCr422_10\<rparr> 1420 96 1)\<rparr>"
  define fs where "fs = [(9000000000 :: u64, \<lparr>vf_data = Some [1, 2, 3, 4, 5 :: u8],
    vf_format = \<lparr>width = 2, height = 1, fps = 50, sampling_of = YCbCr422_10\<rparr>,
    vf_capture_ts_ns = 7, vf_frame_number = 0\<rparr>, [] :: bytes option list)]"
  have "case tx_frames (\<lambda>_. 0) (\<lambda>_ k. k) (\<lambda>_. False) None fs s tx_backend_new of
      Some (Inr (s', b')) \<Rightarrow> to_skipped_late s' = 1 | _ \<Rightarrow> False"
    unfolding fs_def s_def by code_simp
  then obtain s' b' where r: "tx_frames (\<lambda>_. 0) (\<lambda>_ k. k) (\<lambda>_. False) None fs s tx_backend_new = Some (Inr (s', b'))"
    "to_skipped_late s' = 1"
    by (auto split: option.splits sum.splits)
  have "to_skip_streak s' \<le> 32"
    using tx_genlock_no_starvation [OF r(1)]
    by (simp add: s_def fs_def tx_op_new_def default_tx_params_def sendable_def octets_per_frame_def octets_per_line_def
        pgroups_per_line_def octets_per_pgroup_def kPixelsPerPgroup_def)
  with r show ?thesis unfolding fs_def by blast
qed

section \<open>The media clock\<close>

text \<open>The media clock never jumps: once anchored, in the adaptive modes each frame is stamped with
  the media clock itself, whatever the schedule did, and the clock then advances by one frame
  interval corrected by at most the trim step; in genlock mode the correction brings it closer to
  the wire schedule, exactly by the trim step until they agree.\<close>
theorem tx_media_clock_slews:
  assumes "\<not> to_fixed_active s" "to_media_ts_ns s \<noteq> 0"
    and "unat (to_media_ts_ns s) < 2 ^ 62" "unat base < 2 ^ 62"
  shows "fst (media_stamp base s) = rtp_timestamp_90k (to_media_ts_ns s) \<and>
    (\<exists>a. to_media_ts_ns (snd (media_stamp base s)) = to_media_ts_ns s + to_frame_interval_ns s + word_of_int a \<and>
       \<bar>a\<bar> \<le> uint (tp_trim_ns (to_params s)) \<and>
       (to_genlocked s \<longrightarrow> \<bar>(uint base - uint (to_media_ts_ns s)) - a\<bar> =
          max 0 (\<bar>uint base - uint (to_media_ts_ns s)\<bar> - uint (tp_trim_ns (to_params s)))))"
proof -
  have m: "sint (to_media_ts_ns s) = uint (to_media_ts_ns s)" "sint base = uint base"
    using sint_u64 [of "to_media_ts_ns s"] sint_u64 [of base] assms(3,4) by simp_all
  let ?t = "tp_trim_ns (to_params s)"
  have t0: "0 \<le> uint ?t" by simp
  have tz: "\<not> ?t > 0 \<Longrightarrow> uint ?t = 0" by (simp add: word_gt_0)
  let ?a = "media_adj s base"
  have bound: "\<bar>?a\<bar> \<le> uint ?t"
    unfolding media_adj_def Let_def using t0 by (auto simp: abs_if)
  have gen: "\<bar>(uint base - uint (to_media_ts_ns s)) - ?a\<bar> = max 0 (\<bar>uint base - uint (to_media_ts_ns s)\<bar> - uint ?t)"
    if "to_genlocked s"
  proof (cases "?t > 0")
    case True
    define u where "u = uint base - uint (to_media_ts_ns s)"
    define l where "l = uint ?t"
    have "?a = (if u > l then l else if u < - l then - l else u)"
      using that True by (simp add: media_adj_def m u_def l_def)
    moreover have "0 \<le> l" by (simp add: l_def)
    ultimately show ?thesis unfolding u_def [symmetric] l_def [symmetric] by (auto simp: abs_if max_def)
  next
    case False
    then show ?thesis using that tz by (simp add: media_adj_def)
  qed
  have "media_stamp base s = (rtp_timestamp_90k (to_media_ts_ns s),
      s\<lparr>to_media_ts_ns := to_media_ts_ns s + (to_frame_interval_ns s + word_of_int ?a)\<rparr>)"
    using assms(1,2) by (simp add: media_stamp_def Let_def)
  then show ?thesis using bound gen by (auto simp: add.assoc)
qed

theorem tx_media_clock_slews_witness:
  "let s = (tx_op_new default_tx_params)\<lparr>to_media_ts_ns := 1000000, to_genlocked := True, to_frame_interval_ns := 20000000\<rparr>
   in fst (media_stamp 1009000 s) = rtp_timestamp_90k 1000000"
  using tx_media_clock_slews [of "(tx_op_new default_tx_params)\<lparr>to_media_ts_ns := 1000000, to_genlocked := True,
      to_frame_interval_ns := 20000000\<rparr>" 1009000]
  by (simp add: tx_op_new_def)

section \<open>The audio relay\<close>

text \<open>The tick of an instant shifted by \<open>k\<close> ns, from the ticks of both: \<open>T\<close> is the stamp of an instant
  \<open>c\<close>, the nanosecond its tick starts in.\<close>

lemma shifted_tick:
  fixes T c k r :: nat
  assumes "0 < r" "r \<le> 1000000000" "c = T * 1000000000 div r"
  shows "T + k * r div 1000000000 = (c + k) * r div 1000000000 \<or>
    T + k * r div 1000000000 = (c + k) * r div 1000000000 + 1"
proof -
  let ?N = "1000000000 :: nat"
  have c: "c * r \<le> T * ?N" "T * ?N < c * r + r"
    using div_mult_bounds [OF assms(1), of "T * ?N"] by (simp_all add: assms(3))
  have e: "(T * ?N + k * r) div ?N = T + k * r div ?N" by simp
  have "(c + k) * r div ?N \<le> T + k * r div ?N"
    unfolding e [symmetric] distrib_right using c(1) by (intro div_le_mono add_right_mono)
  moreover have "T + k * r div ?N \<le> ((c + k) * r + ?N) div ?N"
    unfolding e [symmetric] distrib_right using c(2) assms(2) by (intro div_le_mono) linarith
  moreover have "((c + k) * r + ?N) div ?N = (c + k) * r div ?N + 1" by simp
  ultimately show ?thesis by linarith
qed

text \<open>The relay of one packet whose corrected stamp is the tick of its capture time.\<close>

lemma audio_relay_exact:
  assumes "12 \<le> length (bp_rtp pkt)"
    and shift: "int (unat (tp_latency_ns p)) + tp_av_offset_ns p = int k" "unat (tp_latency_ns p) < 2 ^ 63"
    and due: "unat (bp_capture_ns pkt) + k < 2 ^ 63" and now: "unat now < 2 ^ 63"
    and rate: "0 < unat (tp_audio_rate p)" "unat (tp_audio_rate p) \<le> 1000000000"
    and stamp: "rd32 (bp_rtp pkt ! 4) (bp_rtp pkt ! 5) (bp_rtp pkt ! 6) (bp_rtp pkt ! 7) + bp_ts_delta pkt = of_nat T"
      "unat (bp_capture_ns pkt) = T * 1000000000 div unat (tp_audio_rate p)"
  defines "d \<equiv> unat (bp_capture_ns pkt) + k"
  shows "if d + 50000000 < unat now then audio_relay_packet p now pkt = (Dropped, False)
    else \<exists>ts. audio_relay_packet p now pkt =
        (Relayed (take 4 (bp_rtp pkt) @ be32 ts @ drop 8 (bp_rtp pkt)) (if d \<le> unat now then 0 else of_nat d),
         d \<le> unat now) \<and>
      (ts = ucast (rtp_ticks_abs (of_nat d) (tp_audio_rate p)) \<or>
       ts = ucast (rtp_ticks_abs (of_nat d) (tp_audio_rate p)) + 1)"
proof -
  let ?r = "tp_audio_rate p" and ?N = "1000000000 :: nat"
  have cap: "unat (bp_capture_ns pkt) < 2 ^ 63" using due by simp
  have sc: "sint (bp_capture_ns pkt) = int (unat (bp_capture_ns pkt))" "sint (tp_latency_ns p) = int (unat (tp_latency_ns p))"
    "sint now = int (unat now)"
    by (rule sint_u64 [OF cap], rule sint_u64 [OF shift(2)], rule sint_u64 [OF now])
  have due_eq: "audio_due p (bp_capture_ns pkt) = of_nat d"
    unfolding audio_due_def sc shift(1) d_def by simp
  have d63: "d < 2 ^ 63" using due by (simp add: d_def)
  then have ud: "unat (of_nat d :: u64) = d" by (simp add: unat_of_nat)
  have sd: "sint (of_nat d :: u64) = int d"
    using sint_u64 [of "of_nat d"] d63 unfolding ud by simp
  have uk: "unat (of_nat k :: u64) = k" using due by (simp add: unat_of_nat)
  have tick_shift: "audio_tick_shift p = ucast (rtp_ticks_abs (of_nat k) ?r)"
    using shift(1) unfolding audio_tick_shift_def sc Let_def by simp
  have ta: "unat (rtp_ticks_abs (of_nat k) ?r) = k * unat ?r div ?N"
    "unat (rtp_ticks_abs (of_nat d) ?r) = (unat (bp_capture_ns pkt) + k) * unat ?r div ?N"
    using unat_rtp_ticks_abs [OF rate(2), of "of_nat k"] unat_rtp_ticks_abs [OF rate(2), of "of_nat d"]
    unfolding uk ud by (simp_all only: d_def)
  have uc: "(ucast w :: u32) = of_nat (unat w)" for w :: u64 by simp
  define ts where "ts = (of_nat (T + k * unat ?r div ?N) :: u32)"
  have ts: "rd32 (bp_rtp pkt ! 4) (bp_rtp pkt ! 5) (bp_rtp pkt ! 6) (bp_rtp pkt ! 7) +
      (audio_tick_shift p + bp_ts_delta pkt) = ts"
  proof -
    let ?R = "rd32 (bp_rtp pkt ! 4) (bp_rtp pkt ! 5) (bp_rtp pkt ! 6) (bp_rtp pkt ! 7)"
    have "?R + (audio_tick_shift p + bp_ts_delta pkt) = (?R + bp_ts_delta pkt) + audio_tick_shift p"
      by (simp only: ac_simps)
    also have "\<dots> = of_nat T + of_nat (k * unat ?r div ?N)"
      unfolding stamp(1) tick_shift uc [of "rtp_ticks_abs (of_nat k) ?r"] ta ..
    finally show ?thesis by (simp only: ts_def of_nat_add)
  qed
  have near: "ts = ucast (rtp_ticks_abs (of_nat d) ?r) \<or> ts = ucast (rtp_ticks_abs (of_nat d) ?r) + 1"
    using shifted_tick [OF rate stamp(2), of k]
    unfolding uc [of "rtp_ticks_abs (of_nat d) ?r"] ta(2) ts_def
    by (elim disjE) (simp_all only: of_nat_add of_nat_1, simp_all)
  have late: "of_nat d \<le> now \<longleftrightarrow> d \<le> unat now" by (simp add: word_le_nat_alt ud)
  have drop: "sint now - sint (of_nat d :: u64) > 50000000 \<longleftrightarrow> d + 50000000 < unat now"
    unfolding sc sd by linarith
  have "audio_relay_packet p now pkt =
      (if d + 50000000 < unat now then (Dropped, False)
       else (Relayed (take 4 (bp_rtp pkt) @ be32 ts @ drop 8 (bp_rtp pkt)) (if d \<le> unat now then 0 else of_nat d),
             d \<le> unat now))"
    using assms(1) unfolding audio_relay_packet_def Let_def due_eq drop late ts by simp
  then show ?thesis using near by auto
qed

end
