(* ===== verification/Rx_Types.thy ===== *)
theory Rx_Types
  imports Spark_Prelude
begin

text \<open>
  The receive interface between a NIC backend and the operators,
  \<open>engine/operators/st2110_rx/rx_backend.hpp\<close>.  \<open>rp_payload\<close> is the memory that really follows the
  payload pointer inside the mbuf; \<open>rp_len\<close> is the length the backend announces for it.
\<close>

record rx_packet =
  rp_payload :: bytes
  rp_len :: nat
  rp_hw_timestamp_ns :: u64
  rp_has_timestamp :: bool
  rp_is_audio :: bool

record rx_backend_config =
  rc_pci_addr :: string
  rc_udp_port :: u16
  rc_rxd :: u16
  rc_mtu :: u16
  rc_eal_core_list :: string
  rc_file_prefix :: string
  rc_manage_eal :: bool
  rc_mcast_group :: string
  rc_src_ip :: string
  rc_iface_ip :: string
  rc_audio_mcast_group :: string
  rc_audio_src_ip :: string
  rc_audio_udp_port :: u16

definition default_rx_config :: rx_backend_config where
  "default_rx_config =
     \<lparr>rc_pci_addr = '''', rc_udp_port = 20000, rc_rxd = 4096, rc_mtu = 1500,
      rc_eal_core_list = ''2,3'', rc_file_prefix = ''spark_rx'', rc_manage_eal = True,
      rc_mcast_group = '''', rc_src_ip = '''', rc_iface_ip = '''', rc_audio_mcast_group = '''',
      rc_audio_src_ip = '''', rc_audio_udp_port = 0\<rparr>"

record rx_stats =
  rs_rx_packets :: u64
  rs_rx_bytes :: u64
  rs_rx_missed :: u64
  rs_rx_nombuf :: u64
  rs_raw_received :: u64

definition rp_ref :: "rx_packet \<Rightarrow> u64 \<Rightarrow> u64" where
  "rp_ref pkt now_ns = (if rp_has_timestamp pkt then rp_hw_timestamp_ns pkt else now_ns)"

definition rp_wf :: "rx_packet \<Rightarrow> bool" where
  "rp_wf pkt \<longleftrightarrow> rp_len pkt \<le> length (rp_payload pkt)"

end
