(* ===== verification/Rx_Backend.thy ===== *)
theory Rx_Backend
  imports Rx_Types Tx_Backend
begin

text \<open>
  The receive backend, \<open>engine/operators/st2110_rx/dpdk_rx_backend.cpp\<close>: configuration, steering rules,
  membership reports and their renewal, packet classification and the receive burst.  A received
  mbuf is its data room with the driver's fields; the payload of an accepted packet is the rest of
  the room from the pointer on, so that a length beyond it is an access outside the mbuf.
\<close>

section \<open>State\<close>

record rx_mbuf =
  xm_data :: bytes
  xm_data_len :: u16
  xm_ol_flags :: u64
  xm_timestamp :: u64

record flow_rule =
  fr_ipv4 :: "((u32 \<times> u32) \<times> (u32 \<times> u32)) option"
  fr_udp_dst :: "u16 \<times> u16"

record rx_backend =
  xb_cfg :: rx_backend_config
  xb_eal_inited :: bool
  xb_isolated :: bool
  xb_port :: "u16 option"
  xb_udp_port_be :: u16
  xb_group_be :: u32
  xb_ssm_src_be :: u32
  xb_iface_ip_host :: u32
  xb_audio_port_be :: u16
  xb_audio_group_be :: u32
  xb_audio_src_be :: u32
  xb_ts_field_off :: int
  xb_rx_ts_flag :: u64
  xb_have_ts :: bool
  xb_raw_received :: u64
  xb_last_igmp_ns :: u64
  xb_igmp_poll :: u32

definition rx_backend_new :: rx_backend where
  "rx_backend_new =
     \<lparr>xb_cfg = default_rx_config, xb_eal_inited = False, xb_isolated = False, xb_port = None,
      xb_udp_port_be = 0, xb_group_be = 0, xb_ssm_src_be = 0, xb_iface_ip_host = 0,
      xb_audio_port_be = 0, xb_audio_group_be = 0, xb_audio_src_be = 0, xb_ts_field_off = -1,
      xb_rx_ts_flag = 0, xb_have_ts = False, xb_raw_received = 0, xb_last_igmp_ns = 0, xb_igmp_poll = 0\<rparr>"

section \<open>Configuration\<close>

text \<open>An optional address: left alone when the string is empty.\<close>

definition opt_addr :: "(string \<Rightarrow> u32 option) \<Rightarrow> string \<Rightarrow> u32 \<Rightarrow> string \<Rightarrow> string + u32" where
  "opt_addr pton str old msg = (if str = '''' then Inr old else need_some (pton str) msg)"

definition parse_audio_addrs :: "(string \<Rightarrow> u32 option) \<Rightarrow> rx_backend \<Rightarrow> string + rx_backend" where
  "parse_audio_addrs pton s =
     (let c = xb_cfg s in
      if rc_audio_udp_port c = 0 then Inr s
      else
        ebind (opt_addr pton (rc_audio_mcast_group c) (xb_audio_group_be s) ''bad audio_mcast_group'') (\<lambda>g.
        ebind (opt_addr pton (rc_audio_src_ip c) (xb_audio_src_be s) ''bad audio_src_ip'') (\<lambda>a.
        Inr (s\<lparr>xb_audio_port_be := bswap16 (rc_audio_udp_port c), xb_audio_group_be := g,
               xb_audio_src_be := a\<rparr>))))"

definition parse_addrs :: "(string \<Rightarrow> u32 option) \<Rightarrow> rx_backend \<Rightarrow> string + rx_backend" where
  "parse_addrs pton s =
     (let c = xb_cfg s in
      ebind (opt_addr pton (rc_mcast_group c) (xb_group_be s) ''bad mcast_group'') (\<lambda>g.
      ebind (opt_addr pton (rc_src_ip c) (xb_ssm_src_be s) ''bad src_ip'') (\<lambda>a.
      ebind (if rc_iface_ip c = '''' then Inr (xb_iface_ip_host s)
             else ebind (need_some (pton (rc_iface_ip c)) ''bad iface_ip'') (\<lambda>be. Inr (bswap32 be))) (\<lambda>i.
      parse_audio_addrs pton
        (s\<lparr>xb_group_be := g, xb_ssm_src_be := a, xb_iface_ip_host := i\<rparr>)))))"

definition rx_eal_args :: "rx_backend_config \<Rightarrow> string list" where
  "rx_eal_args c =
     [''spark_rx'', ''-l'', rc_eal_core_list c, ''-a'', rc_pci_addr c, ''--file-prefix'', rc_file_prefix c]"

definition install_flow_rule :: "u32 \<Rightarrow> u32 \<Rightarrow> u16 \<Rightarrow> rx_backend \<Rightarrow> flow_rule" where
  "install_flow_rule group_be src_be port_be s =
     (let dst = (if group_be \<noteq> 0 then (group_be, -1) else (0, 0));
          src = (if src_be \<noteq> 0 then (src_be, -1) else (0, 0))
      in \<lparr>fr_ipv4 = (if xb_group_be s \<noteq> 0 \<or> xb_ssm_src_be s \<noteq> 0 then Some (dst, src) else None),
          fr_udp_dst = (port_be, -1)\<rparr>)"

text \<open>What a rule matches, as \<open>rte_flow\<close> documents masks; a missing specification matches all.\<close>

definition masked_eq :: "'a::len word \<Rightarrow> 'a word \<times> 'a word \<Rightarrow> bool" where
  "masked_eq v sm \<longleftrightarrow> v AND snd sm = fst sm AND snd sm"

definition rule_matches :: "flow_rule \<Rightarrow> u32 \<Rightarrow> u32 \<Rightarrow> u16 \<Rightarrow> bool" where
  "rule_matches r dst src port \<longleftrightarrow>
     (case fr_ipv4 r of None \<Rightarrow> True | Some (d, a) \<Rightarrow> masked_eq dst d \<and> masked_eq src a) \<and>
     masked_eq port (fr_udp_dst r)"

text \<open>The membership report, padded to the Ethernet minimum; the room is a fresh mbuf's.\<close>

definition igmp_join_frame :: "bytes \<Rightarrow> bytes \<Rightarrow> u32 \<Rightarrow> u32 \<Rightarrow> rx_backend \<Rightarrow> (bytes \<times> nat) option" where
  "igmp_join_frame room mac group_be src_be s = do {
     (p, len) \<leftarrow> build_igmpv3_join room mac (xb_iface_ip_host s) (bswap32 group_be)
                   (if src_be \<noteq> 0 then bswap32 src_be else 0);
     if len < 60 then do { p' \<leftarrow> mem_write p len (replicate (60 - len) 0); Some (p', 60) }
     else Some (p, len)
   }"

text \<open>Bring-up: the rules installed, the multicast addresses programmed (with the fall back to all of
  multicast), promiscuous mode, and the groups joined.\<close>

record rx_env =
  xe_eal_up :: "string list \<Rightarrow> bool"
  xe_pool_ok :: bool
  xe_inet_pton :: "string \<Rightarrow> u32 option"
  xe_ports :: "(u16 \<times> string option) list"
  xe_isolate_ok :: "u16 \<Rightarrow> bool"
  xe_dev_info_ok :: "u16 \<Rightarrow> bool"
  xe_configure_ok :: "u16 \<Rightarrow> nat \<Rightarrow> nat \<Rightarrow> bool"
  xe_adjust_desc :: "u16 \<Rightarrow> u16 \<Rightarrow> u16 \<Rightarrow> (u16 \<times> u16) option"
  xe_rx_queue_ok :: "u16 \<Rightarrow> u16 \<Rightarrow> bool"
  xe_tx_queue_ok :: "u16 \<Rightarrow> u16 \<Rightarrow> bool"
  xe_dynfield :: int
  xe_dynflag :: int
  xe_dev_start_ok :: "u16 \<Rightarrow> bool"
  xe_flow_create_ok :: "flow_rule \<Rightarrow> bool"
  xe_set_mc_ok :: "bytes list \<Rightarrow> bool"

datatype steer = Flow flow_rule | McList "bytes list" | AllMulticast | Promiscuous | Join u32 u32

definition rx_setup_port :: "rx_env \<Rightarrow> u16 \<Rightarrow> rx_backend \<Rightarrow> string + rx_backend" where
  "rx_setup_port env port s =
     (let nb_tx_q = (if xb_group_be s \<noteq> 0 then 1 else 0) in
      ebind (need (xe_dev_info_ok env port) ''rte_eth_dev_info_get failed'') (\<lambda>_.
      ebind (need (xe_configure_ok env port 1 nb_tx_q) ''rte_eth_dev_configure failed'') (\<lambda>_.
      ebind (need_some (xe_adjust_desc env port (rc_rxd (xb_cfg s)) (if xb_group_be s \<noteq> 0 then 64 else 0))
               ''adjust_nb_rx_tx_desc failed'') (\<lambda>(nb_rxd, nb_txd).
      ebind (need (xe_rx_queue_ok env port nb_rxd) ''rte_eth_rx_queue_setup failed'') (\<lambda>_.
      ebind (need (nb_tx_q = 0 \<or> xe_tx_queue_ok env port nb_txd) ''rte_eth_tx_queue_setup (IGMP) failed'') (\<lambda>_.
      Inr (s\<lparr>xb_cfg := (xb_cfg s)\<lparr>rc_rxd := nb_rxd\<rparr>\<rparr>)))))))"

definition lookup_rx_timestamp :: "rx_env \<Rightarrow> rx_backend \<Rightarrow> rx_backend" where
  "lookup_rx_timestamp env s =
     (let s1 = s\<lparr>xb_ts_field_off := xe_dynfield env\<rparr>
      in if xe_dynfield env < 0 \<or> xe_dynflag env < 0 then s1\<lparr>xb_have_ts := False\<rparr>
         else s1\<lparr>xb_rx_ts_flag := push_bit (nat (xe_dynflag env)) 1, xb_have_ts := True\<rparr>)"

definition rx_joins :: "rx_backend \<Rightarrow> steer list" where
  "rx_joins s =
     (if xb_group_be s \<noteq> 0 then [Join (xb_group_be s) (xb_ssm_src_be s)] else []) @
     (if xb_audio_group_be s \<noteq> 0 then [Join (xb_audio_group_be s) (xb_audio_src_be s)] else [])"

definition rx_steer :: "rx_env \<Rightarrow> rx_backend \<Rightarrow> string + steer list" where
  "rx_steer env s =
     (if xb_isolated s then
        let rules = install_flow_rule (xb_group_be s) (xb_ssm_src_be s) (xb_udp_port_be s) s #
              (if xb_audio_port_be s \<noteq> 0
               then [install_flow_rule (xb_audio_group_be s) (xb_audio_src_be s) (xb_audio_port_be s) s] else [])
        in ebind (need (\<forall>r\<in>set rules. xe_flow_create_ok env r) ''rte_flow_create failed'') (\<lambda>_.
           Inr (map Flow rules @ rx_joins s))
      else if xb_group_be s \<noteq> 0 then
        let mc = multicast_mac (bswap32 (xb_group_be s)) #
              (if xb_audio_group_be s \<noteq> 0 then [multicast_mac (bswap32 (xb_audio_group_be s))] else [])
        in Inr ((if xe_set_mc_ok env mc then [McList mc] else [AllMulticast]) @ rx_joins s)
      else Inr [Promiscuous])"

definition rx_init :: "rx_env \<Rightarrow> dpdk_eal \<Rightarrow> rx_backend_config \<Rightarrow> rx_backend \<Rightarrow> string + steer list \<times> rx_backend" where
  "rx_init env eal cfg s =
     ebind (parse_addrs (xe_inet_pton env) (s\<lparr>xb_cfg := cfg, xb_udp_port_be := bswap16 (rc_udp_port cfg)\<rparr>)) (\<lambda>s1.
     ebind (if rc_manage_eal cfg
            then ebind (need (xe_eal_up env (rx_eal_args cfg)) ''rte_eal_init failed'') (\<lambda>_.
                 Inr (s1\<lparr>xb_eal_inited := True\<rparr>))
            else if \<not> el_inited eal then Inl ''manage_eal=false but shared EAL is not initialized''
            else Inr s1) (\<lambda>s2.
     ebind (need (xe_pool_ok env) ''rte_pktmbuf_pool_create failed'') (\<lambda>_.
     ebind (need_some (find_port_by_pci (xe_ports env) (rc_pci_addr cfg)) ''no DPDK port matches PCI'') (\<lambda>port.
     ebind (rx_setup_port env port (s2\<lparr>xb_port := Some port, xb_isolated := xe_isolate_ok env port\<rparr>)) (\<lambda>s3.
     let s4 = lookup_rx_timestamp env s3 in
     ebind (need (xe_dev_start_ok env port) ''rte_eth_dev_start failed'') (\<lambda>_.
     ebind (rx_steer env s4) (\<lambda>acts. Inr (acts, s4))))))))"

definition rx_shutdown :: "rx_backend \<Rightarrow> rx_backend" where
  "rx_shutdown s = s\<lparr>xb_port := None, xb_eal_inited := False\<rparr>"

section \<open>Receiving\<close>

definition video_match :: "rx_backend \<Rightarrow> u32 \<Rightarrow> u32 \<Rightarrow> u16 \<Rightarrow> bool" where
  "video_match s dst src port \<longleftrightarrow> port = xb_udp_port_be s \<and> (xb_group_be s = 0 \<or> dst = xb_group_be s) \<and>
     (xb_ssm_src_be s = 0 \<or> src = xb_ssm_src_be s)"

definition audio_match :: "rx_backend \<Rightarrow> u32 \<Rightarrow> u32 \<Rightarrow> u16 \<Rightarrow> bool" where
  "audio_match s dst src port \<longleftrightarrow> xb_audio_port_be s \<noteq> 0 \<and> port = xb_audio_port_be s \<and>
     (xb_audio_group_be s = 0 \<or> dst = xb_audio_group_be s) \<and> (xb_audio_src_be s = 0 \<or> src = xb_audio_src_be s)"

text \<open>\<open>None\<close>: a read outside the data room; \<open>Some None\<close>: not one of our streams.\<close>

definition parse_udp :: "rx_backend \<Rightarrow> rx_mbuf \<Rightarrow> rx_packet option option" where
  "parse_udp s m =
     (if unat (xm_data_len m) < 14 + 20 + 8 then Some None
      else do {
        h \<leftarrow> mem_read (xm_data m) 0 34;
        if take 2 (drop 12 h) \<noteq> le16 (bswap16 0x0800) then Some None
        else if h ! 23 \<noteq> 17 then Some None
        else do {
          let ihl = unat ((h ! 14 AND 0x0f) * 4);
          u \<leftarrow> mem_read (xm_data m) (14 + ihl) 6;
          let src = ld32 (take 4 (drop 26 h));
          let dst = ld32 (take 4 (drop 30 h));
          let port = ld16 (take 2 (drop 2 u));
          let dgram = unat (bswap16 (ld16 (take 2 (drop 4 u))));
          if \<not> video_match s dst src port \<and> \<not> audio_match s dst src port then Some None
          else if dgram < 8 then Some None
          else
            let stamped = xb_have_ts s \<and> xm_ol_flags m AND xb_rx_ts_flag s \<noteq> 0 in
            Some (Some \<lparr>rp_payload = drop (14 + ihl + 8) (xm_data m), rp_len = dgram - 8,
                        rp_hw_timestamp_ns = (if stamped then xm_timestamp m else 0),
                        rp_has_timestamp = stamped, rp_is_audio = (\<not> video_match s dst src port)\<rparr>)
        }
      })"

text \<open>The membership renewal at the head of \<open>receive\<close>; the clock is read only when it is due.\<close>

definition igmp_renew :: "u64 \<Rightarrow> rx_backend \<Rightarrow> steer list \<times> rx_backend" where
  "igmp_renew t s =
     (if xb_group_be s = 0 then ([], s)
      else
        let s1 = s\<lparr>xb_igmp_poll := xb_igmp_poll s + 1\<rparr> in
        if xb_igmp_poll s1 AND 0x3FFFF \<noteq> 0 then ([], s1)
        else if xb_last_igmp_ns s1 = 0 then ([], s1\<lparr>xb_last_igmp_ns := t\<rparr>)
        else if t - xb_last_igmp_ns s1 > 30000000000
        then (rx_joins s1, s1\<lparr>xb_last_igmp_ns := t\<rparr>)
        else ([], s1))"

fun classify :: "rx_backend \<Rightarrow> rx_mbuf list \<Rightarrow> ((rx_packet \<times> rx_mbuf) list \<times> rx_mbuf list) option" where
  "classify s [] = Some ([], [])"
| "classify s (m # ms) = do {
     r \<leftarrow> parse_udp s m;
     (out, freed) \<leftarrow> classify s ms;
     Some (case r of Some pkt \<Rightarrow> ((pkt, m) # out, freed) | None \<Rightarrow> (out, m # freed))
   }"

text \<open>\<open>receive\<close> on the mbufs of one burst: the packets returned with the mbuf each one owns, the mbufs
  freed, the joins sent.\<close>

definition receive ::
  "u64 \<Rightarrow> rx_mbuf list \<Rightarrow> rx_backend \<Rightarrow> ((rx_packet \<times> rx_mbuf) list \<times> rx_mbuf list \<times> steer list \<times> rx_backend) option" where
  "receive t burst s = do {
     let (joins, s1) = igmp_renew t s;
     let s2 = s1\<lparr>xb_raw_received := xb_raw_received s1 + of_nat (length burst)\<rparr>;
     (out, freed) \<leftarrow> classify s2 burst;
     Some (out, freed, joins, s2)
   }"


section \<open>Loopback: what the transmit backend sends, the receive backend parses\<close>

lemma length6: "length xs = 6 \<longleftrightarrow> (\<exists>a b c d e f. xs = [a, b, c, d, e, f])"
  by (auto simp: length_Suc_conv eval_nat_numeral)

lemma of_nat_down: "ucast (of_nat n :: u32) = (of_nat n :: u16)"
proof -
  have "unat (ucast (of_nat n :: u32) :: u16) = unat (of_nat n :: u16)"
    by (simp only: unat_ucast_mod unat_of_nat) (simp add: mod_mod_cancel)
  then show ?thesis by (simp only: unsigned_word_eqI)
qed


lemma parse_udp_of_header:
  assumes "length dmac = 6" "length (tb_src_mac t) = 6" "len + 28 < 65536" "len \<le> length body"
    and "unat (xm_data_len m) = 42 + len"
    and "xm_data m = header_bytes cksum (of_nat len) dmac dip port t @ body"
    and "video_match s dip (tb_src_ip_be t) port"
  shows "\<exists>pkt. parse_udp s m = Some (Some pkt) \<and> rp_payload pkt = body \<and> rp_len pkt = len \<and> \<not> rp_is_audio pkt"
proof -
  obtain d0 d1 d2 d3 d4 d5 where d: "dmac = [d0, d1, d2, d3, d4, d5]" using assms(1) [unfolded length6] by blast
  obtain s0 s1 s2 s3 s4 s5 where s: "tb_src_mac t = [s0, s1, s2, s3, s4, s5]" using assms(2) [unfolded length6] by blast
  define ck where "ck = cksum (ip_bytes (of_nat len) dip 0 t)"
  define L where "L = (of_nat (28 + len) :: u16)"
  define U where "U = (of_nat (8 + len) :: u16)"
  have L: "(ucast (28 + of_nat len :: u32) :: u16) = L" "(ucast (8 + of_nat len :: u32) :: u16) = U"
    unfolding L_def U_def by (subst of_nat_down [symmetric], simp)+
  let ?b16 = "\<lambda>v :: u16. [ucast (drop_bit 8 v), ucast v :: u8]"
  let ?l16 = "\<lambda>v :: u16. [ucast v, ucast (drop_bit 8 v) :: u8]"
  let ?l32 = "\<lambda>v :: u32. [ucast v, ucast (drop_bit 8 v), ucast (drop_bit 16 v), ucast (drop_bit 24 v) :: u8]"
  have data: "xm_data m = [d0, d1, d2, d3, d4, d5, s0, s1, s2, s3, s4, s5, 8, 0, 0x45, 0xb8] @ ?b16 L @
      [0, 0, 0, 0, 64, 17] @ ?l16 ck @ ?l32 (tb_src_ip_be t) @ ?l32 dip @ ?l16 port @ ?l16 port @ ?b16 U @ [0, 0] @ body"
    unfolding assms(6) header_bytes_def unfolding ck_def [symmetric] unfolding ip_bytes_def L

    by (simp add: d s be16_def le16_def le32_def)
  have ihl: "unat ((0x45 AND 0x0f) * 4 :: u8) = 20" by simp
  have U: "unat U = 8 + len" unfolding U_def by (subst unat_of_nat) (use assms(3) in simp)

  have sw: "bswap16 (rd16 (ucast U) (ucast (drop_bit 8 U))) = U" by (simp add: bswap16_def)
  have et: "le16 (bswap16 0x0800) = [8, 0]" by (simp add: be16_def)
  have vm: "video_match s (rd32 (ucast (drop_bit 24 dip)) (ucast (drop_bit 16 dip)) (ucast (drop_bit 8 dip)) (ucast dip))
      (rd32 (ucast (drop_bit 24 (tb_src_ip_be t))) (ucast (drop_bit 16 (tb_src_ip_be t)))
         (ucast (drop_bit 8 (tb_src_ip_be t))) (ucast (tb_src_ip_be t)))
      (rd16 (ucast (drop_bit 8 port)) (ucast port))"
    using assms(7) by simp
  show ?thesis
    using assms(5) U vm
    by (simp add: parse_udp_def mem_read_def data ihl et be16_def ld16_def ld32_def sw Let_def)
qed


text \<open>C16 - Loopback round trip: a payload written into a packet the transmit backend reserved for it,
  received by a backend listening on that port (and on that group and sender, where it filters),
  comes out of \<open>parse_udp\<close> as the video payload, with exactly its length and bytes.\<close>
theorem tx_rx_udp_roundtrip:
  assumes "hdr_cache_ok cksum t" "payload \<noteq> []" "length payload + kL2L3L4Hdr < 65536"
    and "kL2L3L4Hdr + length payload \<le> length room"
    and "video_match s (tb_dst_ip_be t) (tb_src_ip_be t) (tb_udp_port_be t)"
  shows "\<exists>m t' data. reserve_packet cksum (Some room) (of_nat (length payload)) t = Some (Inr (m, t')) \<and>
    mem_write (mb_data m) kL2L3L4Hdr payload = Some data \<and>
    (\<forall>fl ts. \<exists>pkt. parse_udp s \<lparr>xm_data = data, xm_data_len = mb_data_len m, xm_ol_flags = fl,
        xm_timestamp = ts\<rparr> = Some (Some pkt) \<and>
      take (rp_len pkt) (rp_payload pkt) = payload \<and> rp_len pkt = length payload \<and> rp_wf pkt \<and> \<not> rp_is_audio pkt)"
proof -
  let ?n = "of_nat (length payload) :: u32"
  let ?h = "header_bytes cksum ?n (tb_dst_mac t) (tb_dst_ip_be t) (tb_udp_port_be t) t"
  have macs: "length (tb_dst_mac t) = 6" "length (tb_src_mac t) = 6"
    using assms(1) by (auto simp: hdr_cache_ok_def)
  have un: "unat ?n = length payload"
    by (subst unat_of_nat) (use assms(3) in \<open>simp add: kL2L3L4Hdr_def\<close>)
  then have n0: "?n \<noteq> 0" using assms(2) by (metis length_greater_0_conv less_numeral_extra(3) unat_0)
  have "kL2L3L4Hdr \<le> length room" using assms(4) by simp
  then obtain t' where r: "reserve_packet cksum (Some room) ?n t =
      Some (Inr (mk_mbuf ?n (?h @ drop kL2L3L4Hdr room), t'))"
    by (rule reserve_packet_builds [OF assms(1) n0])
  let ?m = "mk_mbuf ?n (?h @ drop kL2L3L4Hdr room)"
  let ?body = "payload @ drop (kL2L3L4Hdr + length payload) room"
  have lh: "length ?h = kL2L3L4Hdr" by (rule length_header_bytes [OF macs])
  have w: "mem_write (mb_data ?m) kL2L3L4Hdr payload = Some (?h @ ?body)"
    using assms(4) lh by (simp add: mem_write_def mk_mbuf_def add.commute)
  have dl: "unat (mb_data_len ?m) = 42 + length payload"
  proof -
    have "mb_data_len ?m = (of_nat (42 + length payload) :: u16)"
      using of_nat_down [of "42 + length payload"] by (simp add: mk_mbuf_def kL2L3L4Hdr_def)
    then show ?thesis
      by (simp only:) (subst unat_of_nat, use assms(3) in \<open>simp add: kL2L3L4Hdr_def\<close>)
  qed
  have "\<exists>pkt. parse_udp s \<lparr>xm_data = ?h @ ?body, xm_data_len = mb_data_len ?m, xm_ol_flags = fl,
        xm_timestamp = ts\<rparr> = Some (Some pkt) \<and> rp_payload pkt = ?body \<and> rp_len pkt = length payload \<and> \<not> rp_is_audio pkt" for fl ts
    by (rule parse_udp_of_header [OF macs]) (use dl assms(3,5) in \<open>simp_all add: kL2L3L4Hdr_def\<close>)
  then have p: "\<forall>fl ts. \<exists>pkt. parse_udp s \<lparr>xm_data = ?h @ ?body, xm_data_len = mb_data_len ?m, xm_ol_flags = fl,
        xm_timestamp = ts\<rparr> = Some (Some pkt) \<and>
      take (rp_len pkt) (rp_payload pkt) = payload \<and> rp_len pkt = length payload \<and> rp_wf pkt \<and> \<not> rp_is_audio pkt"
    by (fastforce simp: rp_wf_def)
  show ?thesis by (intro exI conjI) (rule r, rule w, rule p)
qed

theorem tx_rx_udp_roundtrip_witness:
  "\<exists>m t' data. reserve_packet (\<lambda>h. bswap16 (inet_checksum h)) (Some (replicate 2048 0)) 3
       (tx_backend_new\<lparr>tb_dst_ip_be := 0x0100efef, tb_udp_port_be := bswap16 20000\<rparr>) = Some (Inr (m, t')) \<and>
    mem_write (mb_data m) kL2L3L4Hdr [7, 8, 9] = Some data \<and>
    (\<exists>pkt. parse_udp (rx_backend_new\<lparr>xb_group_be := 0x0100efef, xb_udp_port_be := bswap16 20000\<rparr>)
       \<lparr>xm_data = data, xm_data_len = mb_data_len m, xm_ol_flags = 0, xm_timestamp = 0\<rparr> = Some (Some pkt) \<and>
       take (rp_len pkt) (rp_payload pkt) = [7, 8, 9])"
proof -
  let ?t = "tx_backend_new\<lparr>tb_dst_ip_be := 0x0100efef, tb_udp_port_be := bswap16 20000\<rparr>"
  let ?s = "rx_backend_new\<lparr>xb_group_be := 0x0100efef, xb_udp_port_be := bswap16 20000\<rparr>"
  have h: "hdr_cache_ok (\<lambda>h. bswap16 (inet_checksum h)) ?t" by (simp add: hdr_cache_ok_def tx_backend_new_def)
  have v: "video_match ?s (tb_dst_ip_be ?t) (tb_src_ip_be ?t) (tb_udp_port_be ?t)"
    by (simp add: video_match_def rx_backend_new_def tx_backend_new_def)
  have l: "[7, 8, 9 :: u8] \<noteq> []" "length [7, 8, 9 :: u8] + kL2L3L4Hdr < 65536"
    "kL2L3L4Hdr + length [7, 8, 9 :: u8] \<le> length (replicate 2048 (0 :: u8))"
    by (simp_all add: kL2L3L4Hdr_def)
  from tx_rx_udp_roundtrip [OF h l v] show ?thesis by auto blast
qed

section \<open>Steering\<close>

lemma masked_eq_simps [simp]:
  "masked_eq v (s, -1) \<longleftrightarrow> v = s" "masked_eq v (0, 0)"
  by (simp_all add: masked_eq_def)

text \<open>Steering and classification agree: in an isolated port with a video group or sender filter
  configured, the rule installed for the video stream steers exactly the packets \<open>receive\<close>
  classifies as video, and the rule for the audio stream exactly those that match the audio stream.\<close>
theorem rx_steering_matches_classifier:
  assumes "xb_group_be s \<noteq> 0 \<or> xb_ssm_src_be s \<noteq> 0"
  shows "(rule_matches (install_flow_rule (xb_group_be s) (xb_ssm_src_be s) (xb_udp_port_be s) s) dst src port
      \<longleftrightarrow> video_match s dst src port) \<and>
    (xb_audio_port_be s \<noteq> 0 \<longrightarrow>
      (rule_matches (install_flow_rule (xb_audio_group_be s) (xb_audio_src_be s) (xb_audio_port_be s) s) dst src port
        \<longleftrightarrow> audio_match s dst src port))"
  using assms by (auto simp: rule_matches_def install_flow_rule_def video_match_def audio_match_def)

theorem rx_steering_matches_classifier_witness:
  "\<not> rule_matches (install_flow_rule 5 0 7 (rx_backend_new\<lparr>xb_group_be := 5, xb_udp_port_be := 7\<rparr>)) 6 1 7"
  using rx_steering_matches_classifier [of "rx_backend_new\<lparr>xb_group_be := 5, xb_udp_port_be := 7\<rparr>" 6 1 7]
  by (simp add: rx_backend_new_def video_match_def)

text \<open>Without a video group or sender filter the audio rule carries no address at all, whatever its own
  group: the test reads the video members.\<close>
lemma audio_rule_not_narrowed:
  assumes "xb_group_be s = 0" "xb_ssm_src_be s = 0"
  shows "rule_matches (install_flow_rule grp src port s) dst' src' port"
  using assms by (simp add: rule_matches_def install_flow_rule_def)

text \<open>And with an audio group alone no transmit queue is configured, so its join has no queue to leave by,
  and it is never renewed.\<close>
lemma audio_only_join_unqueued:
  assumes "xb_group_be s = 0" "rx_setup_port env port s = Inr s'"
  shows "xe_configure_ok env port 1 0" "fst (igmp_renew t s) = []"
  using assms by (auto simp: rx_setup_port_def ebind_Inr_iff igmp_renew_def Let_def)

section \<open>The announced length is trusted\<close>

text \<open>A packet of the minimum size whose UDP header announces the longest datagram is accepted with a
  payload length far beyond its mbuf.\<close>
definition hostile_mbuf :: rx_mbuf where
  "hostile_mbuf =
     \<lparr>xm_data = [0, 0, 0, 0, 0, 0, 0, 0, 0, 0, 0, 0, 8, 0, 0x45, 0, 0, 0, 0, 0, 0, 0, 64, 17, 0, 0,
         10, 0, 0, 1, 10, 0, 0, 2, 0x4e, 0x20, 0x4e, 0x20, 0xff, 0xff, 0, 0] @ replicate 2006 0,
      xm_data_len = 42, xm_ol_flags = 0, xm_timestamp = 0\<rparr>"


lemma parse_udp_trusts_length:
  "\<exists>pkt. parse_udp (rx_backend_new\<lparr>xb_udp_port_be := bswap16 20000\<rparr>) hostile_mbuf = Some (Some pkt) \<and>
     rp_len pkt = 65527 \<and> \<not> rp_wf pkt"
proof -
  have "bswap16 0x4e20 = 0x204e" by (simp add: bswap16_def rd16_def)
  then show ?thesis
    by (simp add: parse_udp_def hostile_mbuf_def mem_read_def le16_def rx_backend_new_def video_match_def ld16_def
        rd16_def bswap16_def rp_wf_def Let_def)
qed

end
