(* ===== verification/Rx_Op.thy ===== *)
theory Rx_Op
  imports Audio_St2110 Rx_Types Rtp_St2110
begin

text \<open>
  The receive operator, \<open>engine/operators/st2110_rx/st2110_rx.hpp\<close> and \<open>.cpp\<close>.  The frame buffers
  are shared pointers in the code; here the state holds the buffers by address (the position in
  \<open>buf_ring_\<close>, which only grows) and every reference is explicit: the ring, the buffer being filled,
  the queued frames and \<open>rx_held\<close>, the frames handed downstream and not yet destroyed.  The poll
  thread and the consumer share only the queue, under its mutex, so an execution is a sequence of
  events: one received packet, one \<open>compute\<close>, and downstream copies and releases.  Log output and
  its rate limits are not modelled.
\<close>

section \<open>State\<close>

record rx_frame =
  rf_buf :: nat
  rf_format :: video_format
  rf_capture_ts_ns :: u64
  rf_frame_number :: u64

record cap_pkt =
  cp_t_ns :: u64
  cp_line :: u16
  cp_nsrd :: u8
  cp_marker :: u8
  cp_len :: u16

record rx_op =
  rx_fmt :: video_format
  rx_frame_q_depth :: u32
  rx_audio_rate :: u32
  rx_frame_buf :: bytes
  rx_bufs :: "bytes list"
  rx_buf_idx :: nat
  rx_cur_buf :: "nat option"
  rx_cur_first :: bool
  rx_cur_ts :: u32
  rx_cur_arrival_ns :: u64
  rx_video_ts_delta :: u32
  rx_video_relatch :: u64
  rx_stop_poll :: bool
  rx_frame_q :: "rx_frame list"
  rx_q_dropped :: u64
  rx_drain_enabled :: bool
  rx_q_win_count :: u32
  rx_q_win_min :: nat
  rx_q_drained :: u64
  rx_cap_target :: u32
  rx_cap_t0 :: u64
  rx_cap_done :: bool
  rx_cap :: "cap_pkt list"
  rx_packets :: u64
  rx_frames :: u64
  rx_lost :: u64
  rx_bad :: u64
  rx_last_seq :: u32
  rx_have_last :: bool
  rx_lat_sum :: u64
  rx_lat_cnt :: u64
  rx_lat_min :: u64
  rx_lat_max :: u64
  rx_audio_enabled :: bool
  rx_audio_pkts :: u64
  rx_audio_bad :: u64
  rx_audio_drop :: u64
  rx_audio_ts_delta :: u32
  rx_audio_relatch :: u64
  rx_bridge :: audio_bridge
  rx_held :: "nat list"

definition SIZE_MAX :: nat where "SIZE_MAX = 18446744073709551615"

section \<open>Start\<close>

record rx_params =
  p_pci_addr :: string
  p_udp_port :: u32
  p_profile :: string
  p_mcast_group :: string
  p_src_ip :: string
  p_iface_ip :: string
  p_in_width :: u32
  p_in_height :: u32
  p_in_fps :: rat
  p_rxd :: u32
  p_eal_cores :: string
  p_manage_eal :: bool
  p_emit_frames :: bool
  p_ip10 :: bool
  p_audio_mcast :: string
  p_audio_src :: string
  p_audio_port :: u32
  p_audio_rate :: u32
  p_frame_q_depth :: u32

definition default_rx_params :: rx_params where
  "default_rx_params =
     \<lparr>p_pci_addr = ''0002:01:00.1'', p_udp_port = 20000, p_profile = ''1080p'', p_mcast_group = '''',
      p_src_ip = '''', p_iface_ip = '''', p_in_width = 0, p_in_height = 0, p_in_fps = 0, p_rxd = 4096,
      p_eal_cores = ''2,3'', p_manage_eal = True, p_emit_frames = False, p_ip10 = False,
      p_audio_mcast = '''', p_audio_src = '''', p_audio_port = 0, p_audio_rate = 48000,
      p_frame_q_depth = 8\<rparr>"

definition rx_start_format :: "rx_params \<Rightarrow> video_format" where
  "rx_start_format p =
     (let f0 = (if p_profile p = ''2160p'' then profile_2160p else profile_1080p);
          f1 = (if p_in_width p > 0 then f0\<lparr>width := p_in_width p\<rparr> else f0);
          f2 = (if p_in_height p > 0 then f1\<lparr>height := p_in_height p\<rparr> else f1);
          f3 = (if p_in_fps p > 0 then f2\<lparr>fps := p_in_fps p\<rparr> else f2)
      in if p_ip10 p then f3\<lparr>sampling_of := YCbCr422_8\<rparr> else f3)"

definition rx_audio_on :: "rx_params \<Rightarrow> bool" where
  "rx_audio_on p = (p_audio_mcast p \<noteq> '''' \<and> p_audio_port p \<noteq> 0)"

definition rx_start_config :: "rx_params \<Rightarrow> rx_backend_config" where
  "rx_start_config p =
     (let cfg = default_rx_config\<lparr>rc_pci_addr := p_pci_addr p, rc_udp_port := ucast (p_udp_port p),
           rc_rxd := ucast (p_rxd p), rc_eal_core_list := p_eal_cores p, rc_manage_eal := p_manage_eal p,
           rc_mcast_group := p_mcast_group p, rc_src_ip := p_src_ip p, rc_iface_ip := p_iface_ip p\<rparr>
      in if rx_audio_on p
         then cfg\<lparr>rc_audio_mcast_group := p_audio_mcast p, rc_audio_src_ip := p_audio_src p,
                  rc_audio_udp_port := ucast (p_audio_port p)\<rparr>
         else cfg)"

text \<open>The object after \<open>start\<close>; \<open>capture\<close> and \<open>drain\<close> are the two environment variables.\<close>

definition rx_start :: "rx_params \<Rightarrow> u32 \<Rightarrow> bool \<Rightarrow> rx_op" where
  "rx_start p capture drain =
     \<lparr>rx_fmt = rx_start_format p, rx_frame_q_depth = p_frame_q_depth p, rx_audio_rate = p_audio_rate p,
      rx_frame_buf = replicate (unat (octets_per_frame (rx_start_format p))) 0,
      rx_bufs = [], rx_buf_idx = 0, rx_cur_buf = None, rx_cur_first = True, rx_cur_ts = 0,
      rx_cur_arrival_ns = 0, rx_video_ts_delta = 0, rx_video_relatch = 0, rx_stop_poll = False,
      rx_frame_q = [], rx_q_dropped = 0, rx_drain_enabled = drain, rx_q_win_count = 0,
      rx_q_win_min = SIZE_MAX, rx_q_drained = 0, rx_cap_target = capture, rx_cap_t0 = 0,
      rx_cap_done = False, rx_cap = [], rx_packets = 0, rx_frames = 0, rx_lost = 0, rx_bad = 0,
      rx_last_seq = 0, rx_have_last = False, rx_lat_sum = 0, rx_lat_cnt = 0, rx_lat_min = -1,
      rx_lat_max = 0, rx_audio_enabled = rx_audio_on p, rx_audio_pkts = 0, rx_audio_bad = 0,
      rx_audio_drop = 0, rx_audio_ts_delta = 0, rx_audio_relatch = 0, rx_bridge = bridge_init,
      rx_held = []\<rparr>"

section \<open>Bookkeeping\<close>

definition account_loss :: "u32 \<Rightarrow> rx_op \<Rightarrow> rx_op" where
  "account_loss seq s =
     (let s1 = (if rx_have_last s then
                  let gap = seq - (rx_last_seq s + 1)
                  in if gap \<noteq> 0 \<and> gap < 0x80000000 then s\<lparr>rx_lost := rx_lost s + ucast gap\<rparr> else s
                else s)
      in s1\<lparr>rx_last_seq := seq, rx_have_last := True\<rparr>)"

definition account_latency :: "rx_packet \<Rightarrow> u64 \<Rightarrow> rx_op \<Rightarrow> rx_op" where
  "account_latency pkt now_ns s =
     (if rp_has_timestamp pkt \<and> now_ns \<ge> rp_hw_timestamp_ns pkt then
        let lat = now_ns - rp_hw_timestamp_ns pkt
        in s\<lparr>rx_lat_sum := rx_lat_sum s + lat, rx_lat_cnt := rx_lat_cnt s + 1,
             rx_lat_min := (if lat < rx_lat_min s then lat else rx_lat_min s),
             rx_lat_max := (if lat > rx_lat_max s then lat else rx_lat_max s)\<rparr>
      else s)"

definition account :: "rx_packet_info \<Rightarrow> rx_packet \<Rightarrow> u64 \<Rightarrow> rx_op \<Rightarrow> rx_op" where
  "account info pkt now_ns s =
     (let s1 = account_latency pkt now_ns (account_loss (ri_sequence info) s)
      in s1\<lparr>rx_packets := rx_packets s1 + 1\<rparr>)"

definition cap_record :: "rx_packet_info \<Rightarrow> rx_packet \<Rightarrow> rx_op \<Rightarrow> rx_op" where
  "cap_record info pkt s =
     (if rx_cap_target s = 0 \<or> rx_cap_done s then s
      else
        let t0 = (if rx_cap s = [] then (if rp_has_timestamp pkt then rp_hw_timestamp_ns pkt else 0)
                  else rx_cap_t0 s);
            e = \<lparr>cp_t_ns = (if rp_has_timestamp pkt then rp_hw_timestamp_ns pkt - t0 else 0),
                 cp_line = (if ri_srd info \<noteq> [] then srd_line_no (hd (ri_srd info)) else 0),
                 cp_nsrd = of_nat (length (ri_srd info)), cp_marker = (if ri_marker info then 1 else 0),
                 cp_len = of_nat (rp_len pkt)\<rparr>;
            cap = rx_cap s @ [e]
        in s\<lparr>rx_cap_t0 := t0, rx_cap := cap,
             rx_cap_done := (length cap \<ge> unat (rx_cap_target s))\<rparr>)"

section \<open>The broken-epoch guard\<close>

text \<open>\<open>int64_t(cap) - int64_t(ref)\<close>.\<close>

text \<open>The difference of two \<open>int64_t\<close>.  The source's subtraction is undefined where the exact one does not
  fit; \<open>capture_error_fits\<close> shows that it fits for every stamp while the clock is past its
  first \<open>2 ^ 31\<close> ticks and below \<open>2 ^ 62\<close> ns.\<close>

definition stamp_err :: "u64 \<Rightarrow> u64 \<Rightarrow> int" where
  "stamp_err cap ref = sint cap - sint ref"

text \<open>Shared by \<open>video_capture_ns\<close> and \<open>audio_ingest\<close>: the capture time, the correction to keep and
  whether this stamp re-latched.\<close>

definition epoch_guard :: "int \<Rightarrow> u32 \<Rightarrow> u32 \<Rightarrow> u32 \<Rightarrow> u64 \<Rightarrow> u64 \<times> u32 \<times> bool" where
  "epoch_guard kSaneNs rate delta rtp_ts ref =
     (let cap = rtp_unwrap_ns (rtp_ts + delta) rate ref;
          err = stamp_err cap ref
      in if err > kSaneNs \<or> err < - kSaneNs then
           let raw = rtp_unwrap_ns rtp_ts rate ref;
               raw_err = stamp_err raw ref
           in if delta \<noteq> 0 \<and> raw_err \<le> kSaneNs \<and> raw_err \<ge> - kSaneNs then (raw, 0, True)
              else let d = rtp_restamp_delta rtp_ts rate ref
                   in (rtp_unwrap_ns (rtp_ts + d) rate ref, d, True)
         else (cap, delta, False))"

definition video_capture_ns :: "u32 \<Rightarrow> u64 \<Rightarrow> rx_op \<Rightarrow> u64 \<times> rx_op" where
  "video_capture_ns rtp_ts ref s =
     (let (cap, d, relatched) = epoch_guard 150000000 90000 (rx_video_ts_delta s) rtp_ts ref
      in (cap, s\<lparr>rx_video_ts_delta := d,
                 rx_video_relatch := (if relatched then rx_video_relatch s + 1 else rx_video_relatch s)\<rparr>))"

definition audio_relay :: "bytes \<Rightarrow> u32 \<Rightarrow> u64 \<Rightarrow> rx_op \<Rightarrow> rx_op" where
  "audio_relay rtp rtp_ts ref s =
     (let (cap, d, relatched) = epoch_guard 500000000 (rx_audio_rate s) (rx_audio_ts_delta s) rtp_ts ref;
          (ok, br) = bridge_push \<lparr>bp_rtp = rtp, bp_capture_ns = cap, bp_ts_delta = d\<rparr> (rx_bridge s);
          s1 = s\<lparr>rx_audio_ts_delta := d,
                 rx_audio_relatch := (if relatched then rx_audio_relatch s + 1 else rx_audio_relatch s),
                 rx_bridge := br\<rparr>
      in if ok then s1\<lparr>rx_audio_pkts := rx_audio_pkts s1 + 1\<rparr>
         else s1\<lparr>rx_audio_drop := rx_audio_drop s1 + 1\<rparr>)"

definition audio_ingest :: "rx_packet \<Rightarrow> u64 \<Rightarrow> rx_op \<Rightarrow> rx_op option" where
  "audio_ingest pkt now_ns s =
     (if rp_len pkt < 12 then Some (s\<lparr>rx_audio_bad := rx_audio_bad s + 1\<rparr>)
      else do {
        h \<leftarrow> mem_read (rp_payload pkt) 0 12;
        if drop_bit 6 (h ! 0) \<noteq> 2 then Some (s\<lparr>rx_audio_bad := rx_audio_bad s + 1\<rparr>)
        else do {
          rtp \<leftarrow> mem_read (rp_payload pkt) 0 (rp_len pkt);
          Some (audio_relay rtp (rd32 (h ! 4) (h ! 5) (h ! 6) (h ! 7)) (rp_ref pkt now_ns) s)
        }
      })"

section \<open>The buffer ring\<close>

text \<open>References to a buffer: the ring's own, the one being filled, queued and downstream frames, and
  \<open>extra\<close>, a frame still local to the caller.\<close>

definition use_count :: "rx_op \<Rightarrow> nat list \<Rightarrow> nat \<Rightarrow> nat" where
  "use_count s extra b =
     1 + (if rx_cur_buf s = Some b then 1 else 0) + count_list (map rf_buf (rx_frame_q s)) b
       + count_list (rx_held s) b + count_list extra b"

fun ring_search :: "rx_op \<Rightarrow> nat list \<Rightarrow> nat \<Rightarrow> nat \<Rightarrow> nat option \<times> nat" where
  "ring_search s extra 0 idx = (None, idx)"
| "ring_search s extra (Suc k) idx =
     (let idx' = (idx + 1) mod length (rx_bufs s)
      in if use_count s extra idx = 1 then (Some idx, idx') else ring_search s extra k idx')"

definition new_buffer :: "rx_op \<Rightarrow> bytes" where
  "new_buffer s = replicate (unat (octets_per_frame (rx_fmt s))) 0"

definition next_buffer :: "nat list \<Rightarrow> rx_op \<Rightarrow> nat \<times> rx_op" where
  "next_buffer extra s =
     (let s1 = (if rx_bufs s = [] then s\<lparr>rx_bufs := replicate 8 (new_buffer s)\<rparr> else s);
          (found, idx) = ring_search s1 extra (length (rx_bufs s1)) (rx_buf_idx s1);
          s2 = s1\<lparr>rx_buf_idx := idx\<rparr>
      in case found of
           Some b \<Rightarrow> (b, s2)
         | None \<Rightarrow> (length (rx_bufs s2), s2\<lparr>rx_bufs := rx_bufs s2 @ [new_buffer s2]\<rparr>))"

section \<open>The frame queue\<close>

definition rx_max_q :: "rx_op \<Rightarrow> nat" where
  "rx_max_q s = unat (max (rx_frame_q_depth s) 2)"

definition drain_governor :: "rx_op \<Rightarrow> rx_op" where
  "drain_governor s =
     (if rx_drain_enabled s then
        let m = min (rx_q_win_min s) (length (rx_frame_q s));
            n = rx_q_win_count s + 1
        in if n \<ge> 32 then
             let s1 = (if m \<ge> 2 \<and> rx_frame_q s \<noteq> []
                       then s\<lparr>rx_frame_q := tl (rx_frame_q s), rx_q_drained := rx_q_drained s + 1\<rparr> else s)
             in s1\<lparr>rx_q_win_count := 0, rx_q_win_min := SIZE_MAX\<rparr>
           else s\<lparr>rx_q_win_min := m, rx_q_win_count := n\<rparr>
      else s)"

definition frame_enqueue :: "rx_frame \<Rightarrow> rx_op \<Rightarrow> bool \<times> rx_op" where
  "frame_enqueue f s =
     (if length (rx_frame_q s) < rx_max_q s then (True, s\<lparr>rx_frame_q := rx_frame_q s @ [f]\<rparr>)
      else (False, s\<lparr>rx_q_dropped := rx_q_dropped s + 1\<rparr>))"

text \<open>\<open>compute_emit_one\<close> after its wait: nothing when the queue is empty, otherwise the oldest frame
  goes downstream.\<close>

definition compute_emit_one :: "rx_op \<Rightarrow> rx_frame option \<times> rx_op" where
  "compute_emit_one s =
     (case rx_frame_q s of [] \<Rightarrow> (None, s)
      | f # fs \<Rightarrow> (Some f, s\<lparr>rx_frame_q := fs, rx_held := rf_buf f # rx_held s\<rparr>))"

text \<open>\<open>stop\<close>: the flag the poll thread tests before each burst and the waiting consumer tests on its
  wake-up; the thread is joined before the backend goes away.\<close>

definition rx_stop :: "rx_op \<Rightarrow> rx_op" where
  "rx_stop s = s\<lparr>rx_stop_poll := True\<rparr>"

interpretation rxq: bounded_queue rx_frame_q frame_enqueue compute_emit_one rx_max_q
  by unfold_locales (auto simp: frame_enqueue_def compute_emit_one_def rx_max_q_def split: list.splits)

section \<open>The poll loop\<close>

definition poll_begin :: "rx_op \<Rightarrow> rx_op" where
  "poll_begin s = (let (b, s1) = next_buffer [] s in s1\<lparr>rx_cur_buf := Some b, rx_cur_first := True\<rparr>)"

text \<open>The marker branch: publish the frame and take the next buffer.  A dropped frame is still
  referenced by the local \<open>f\<close> while \<open>next_buffer\<close> runs.\<close>

definition finish_frame :: "rx_op \<Rightarrow> rx_op" where
  "finish_frame s =
     (let b = the (rx_cur_buf s);
          (cap, s1) = video_capture_ns (rx_cur_ts s) (rx_cur_arrival_ns s) s;
          f = \<lparr>rf_buf = b, rf_format = rx_fmt s1, rf_capture_ts_ns = cap, rf_frame_number = rx_frames s1\<rparr>;
          s2 = drain_governor (s1\<lparr>rx_frames := rx_frames s1 + 1\<rparr>);
          (ok, s3) = frame_enqueue f s2;
          (nb, s4) = next_buffer (if ok then [] else [b]) s3
      in s4\<lparr>rx_cur_buf := Some nb, rx_cur_first := True\<rparr>)"

definition poll_video :: "rx_packet_info \<Rightarrow> rx_packet \<Rightarrow> u64 \<Rightarrow> rx_op \<Rightarrow> rx_op option" where
  "poll_video info pkt now s = do {
     let s1 = cap_record info pkt (account info pkt now s);
     let s2 = (if rx_cur_first s1
               then s1\<lparr>rx_cur_ts := ri_rtp_timestamp info, rx_cur_arrival_ns := rp_ref pkt now,
                       rx_cur_first := False\<rparr>
               else s1);
     b \<leftarrow> rx_cur_buf s2;
     buf \<leftarrow> mem_get (rx_bufs s2) b;
     buf' \<leftarrow> scatter (rx_fmt s2) info (rp_payload pkt) buf;
     let s3 = s2\<lparr>rx_bufs := (rx_bufs s2)[b := buf']\<rparr>;
     Some (if ri_marker info then finish_frame s3 else s3)
   }"

definition poll_packet :: "rx_packet \<Rightarrow> u64 \<Rightarrow> rx_op \<Rightarrow> rx_op option" where
  "poll_packet pkt now s =
     (if rp_is_audio pkt then audio_ingest pkt now s
      else do {
        r \<leftarrow> parse (rx_fmt s) (rp_payload pkt) (rp_len pkt);
        case r of None \<Rightarrow> Some (s\<lparr>rx_bad := rx_bad s + 1\<rparr>)
        | Some info \<Rightarrow> poll_video info pkt now s
      })"

text \<open>Sink mode: one packet of \<open>compute_sink\<close>.\<close>

definition sink_packet :: "rx_packet \<Rightarrow> u64 \<Rightarrow> rx_op \<Rightarrow> rx_op option" where
  "sink_packet pkt now s = do {
     r \<leftarrow> parse (rx_fmt s) (rp_payload pkt) (rp_len pkt);
     case r of None \<Rightarrow> Some (s\<lparr>rx_bad := rx_bad s + 1\<rparr>)
     | Some info \<Rightarrow> do {
         let s1 = cap_record info pkt (account info pkt now s);
         fb \<leftarrow> scatter (rx_fmt s1) info (rp_payload pkt) (rx_frame_buf s1);
         let s2 = s1\<lparr>rx_frame_buf := fb\<rparr>;
         Some (if ri_marker info then s2\<lparr>rx_frames := rx_frames s2 + 1\<rparr> else s2)
       }
   }"

text \<open>An execution: packets polled by the receive thread, \<open>compute\<close> calls, and what the rest of the
  pipeline does with the frames it got (copying a reference, dropping one).\<close>

datatype rx_event = Poll rx_packet u64 | Emit | Share nat | Release nat

definition rx_event_step :: "rx_event \<Rightarrow> rx_op \<Rightarrow> (rx_frame list \<times> rx_op) option" where
  "rx_event_step e s =
     (case e of
        Poll pkt now \<Rightarrow> map_option (\<lambda>s'. ([], s')) (poll_packet pkt now s)
      | Emit \<Rightarrow> (let (r, s') = compute_emit_one s in Some (case r of None \<Rightarrow> [] | Some f \<Rightarrow> [f], s'))
      | Share b \<Rightarrow> Some ([], if b \<in> set (rx_held s) then s\<lparr>rx_held := b # rx_held s\<rparr> else s)
      | Release b \<Rightarrow> Some ([], s\<lparr>rx_held := remove1 b (rx_held s)\<rparr>))"

fun rx_run :: "rx_event list \<Rightarrow> rx_op \<Rightarrow> (rx_frame list \<times> rx_op) option" where
  "rx_run [] s = Some ([], s)"
| "rx_run (e # es) s = do {
     (out, s1) \<leftarrow> rx_event_step e s;
     (outs, s2) \<leftarrow> rx_run es s1;
     Some (out @ outs, s2)
   }"

section \<open>Ownership of buffers\<close>

definition rx_refs :: "rx_op \<Rightarrow> nat set" where
  "rx_refs s = set (map rf_buf (rx_frame_q s)) \<union> set (rx_held s)"

definition ring_wf :: "rx_op \<Rightarrow> bool" where
  "ring_wf s \<longleftrightarrow> rx_bufs s \<noteq> [] \<and> rx_buf_idx s < length (rx_bufs s) \<and>
     (\<forall>b\<in>set (rx_bufs s). length b = frame_oct (rx_fmt s)) \<and>
     (\<forall>b\<in>rx_refs s. b < length (rx_bufs s)) \<and> length (rx_frame_q s) \<le> rx_max_q s"

definition rx_wf :: "rx_op \<Rightarrow> bool" where
  "rx_wf s \<longleftrightarrow> ring_wf s \<and>
     (\<exists>c. rx_cur_buf s = Some c \<and> c < length (rx_bufs s) \<and> c \<notin> rx_refs s)"

lemma use_count_1:
  "use_count s extra b = 1 \<longleftrightarrow> rx_cur_buf s \<noteq> Some b \<and> b \<notin> rx_refs s \<and> b \<notin> set extra"
proof -
  have "use_count s extra b = 1 \<longleftrightarrow> rx_cur_buf s \<noteq> Some b \<and>
      count_list (map rf_buf (rx_frame_q s)) b = 0 \<and> count_list (rx_held s) b = 0 \<and> count_list extra b = 0"
    unfolding use_count_def by (cases "rx_cur_buf s = Some b") auto
  then show ?thesis unfolding count_list_0_iff rx_refs_def by blast
qed

lemma ring_search_ok:
  "ring_search s extra k idx = (r, idx') \<Longrightarrow> idx < length (rx_bufs s) \<Longrightarrow>
   idx' < length (rx_bufs s) \<and> (\<forall>b. r = Some b \<longrightarrow> b < length (rx_bufs s) \<and> use_count s extra b = 1)"
proof (induction s extra k idx rule: ring_search.induct)
  case (2 s extra k idx)
  let ?idx = "(idx + 1) mod length (rx_bufs s)"
  have idx: "?idx < length (rx_bufs s)" using 2(3) by (intro mod_less_divisor) linarith
  show ?case
  proof (cases "use_count s extra idx = 1")
    case True
    then have "r = Some idx" "idx' = ?idx" using 2(2) by simp_all
    then show ?thesis using idx 2(3) True by simp
  next
    case False
    then have "ring_search s extra k ?idx = (r, idx')" using 2(2) by simp
    then show ?thesis using 2(1) [OF refl False _ idx] by simp
  qed
qed simp

lemma next_buffer_ok:
  assumes "ring_wf s" "next_buffer extra s = (b, s')" "rx_cur_buf s = Some c" "c < length (rx_bufs s)"
    "set extra \<subseteq> {..<length (rx_bufs s)}"
  obtains more idx where "s' = s\<lparr>rx_buf_idx := idx, rx_bufs := rx_bufs s @ more\<rparr>"
    "idx < length (rx_bufs s)" "more = [] \<or> more = [new_buffer s]"
    "b < length (rx_bufs s @ more)" "b \<notin> rx_refs s" "b \<noteq> c" "b \<notin> set extra"
proof -
  have ne: "rx_bufs s \<noteq> []" "rx_buf_idx s < length (rx_bufs s)" "\<forall>b\<in>rx_refs s. b < length (rx_bufs s)"
    using assms(1) by (simp_all add: ring_wf_def)
  obtain r idx where rs: "ring_search s extra (length (rx_bufs s)) (rx_buf_idx s) = (r, idx)"
    by (cases "ring_search s extra (length (rx_bufs s)) (rx_buf_idx s)")
  note ok = ring_search_ok [OF rs ne(2)]
  show thesis
  proof (cases r)
    case None
    then have "b = length (rx_bufs s)" "s' = s\<lparr>rx_buf_idx := idx, rx_bufs := rx_bufs s @ [new_buffer s]\<rparr>"
      using assms(2) ne rs by (auto simp: next_buffer_def new_buffer_def)
    then show thesis using ok ne assms(4,5) by (intro that [of "[new_buffer s]" idx]) auto
  next
    case (Some b')
    then have "b = b'" "s' = s\<lparr>rx_buf_idx := idx, rx_bufs := rx_bufs s @ []\<rparr>"
      using assms(2) ne rs by (auto simp: next_buffer_def)
    then show thesis using ok Some assms(3) use_count_1 by (intro that [of "[]" idx]) auto
  qed
qed

lemma drain_governor_keeps:
  "rx_bufs (drain_governor s) = rx_bufs s" "rx_buf_idx (drain_governor s) = rx_buf_idx s"
  "rx_fmt (drain_governor s) = rx_fmt s" "rx_cur_buf (drain_governor s) = rx_cur_buf s"
  "rx_held (drain_governor s) = rx_held s" "rx_frame_q_depth (drain_governor s) = rx_frame_q_depth s"
  "rx_frames (drain_governor s) = rx_frames s" "rx_q_dropped (drain_governor s) = rx_q_dropped s"
  by (auto simp: drain_governor_def Let_def)

lemma drain_governor_queue:
  "rx_frame_q (drain_governor s) = rx_frame_q s \<and> rx_q_drained (drain_governor s) = rx_q_drained s \<or>
   (\<exists>f. rx_frame_q s = f # rx_frame_q (drain_governor s) \<and>
      rx_q_drained (drain_governor s) = rx_q_drained s + 1)"
  by (cases "rx_frame_q s") (auto simp: drain_governor_def Let_def)

lemma drain_governor_ring: "ring_wf s \<Longrightarrow> ring_wf (drain_governor s)"
  using drain_governor_queue [of s]
  by (auto simp: ring_wf_def rx_refs_def drain_governor_keeps rx_max_q_def)

lemma video_capture_keeps:
  assumes "video_capture_ns ts ref s = (cap, s')"
  obtains d r where "s' = s\<lparr>rx_video_ts_delta := d, rx_video_relatch := r\<rparr>"
  using assms by (auto simp: video_capture_ns_def split: prod.splits)

definition frame_balance :: "rx_op \<Rightarrow> u64" where
  "frame_balance s = rx_frames s - of_nat (length (rx_frame_q s)) - rx_q_dropped s - rx_q_drained s"

lemma finish_frame_ok:
  assumes wf: "rx_wf s" and cur: "rx_cur_buf s = Some c"
  obtains more where "rx_wf (finish_frame s)" "rx_bufs (finish_frame s) = rx_bufs s @ more"
    "rx_held (finish_frame s) = rx_held s" "rx_fmt (finish_frame s) = rx_fmt s"
    "rx_refs (finish_frame s) \<subseteq> rx_refs s \<union> {c}" "frame_balance (finish_frame s) = frame_balance s"
proof -
  have ring: "ring_wf s" and c: "c < length (rx_bufs s)" "c \<notin> rx_refs s"
    using wf cur by (auto simp: rx_wf_def)
  obtain cap s1 where v: "video_capture_ns (rx_cur_ts s) (rx_cur_arrival_ns s) s = (cap, s1)"
    by (cases "video_capture_ns (rx_cur_ts s) (rx_cur_arrival_ns s) s")
  have s1: "rx_bufs s1 = rx_bufs s" "rx_buf_idx s1 = rx_buf_idx s" "rx_fmt s1 = rx_fmt s"
    "rx_cur_buf s1 = Some c" "rx_held s1 = rx_held s" "rx_frame_q s1 = rx_frame_q s"
    "rx_frame_q_depth s1 = rx_frame_q_depth s" "rx_frames s1 = rx_frames s"
    "rx_q_dropped s1 = rx_q_dropped s" "rx_q_drained s1 = rx_q_drained s"
    by (rule video_capture_keeps [OF v], simp add: cur)+
  define f where "f = \<lparr>rf_buf = c, rf_format = rx_fmt s1, rf_capture_ts_ns = cap, rf_frame_number = rx_frames s1\<rparr>"
  define s1' where "s1' = s1\<lparr>rx_frames := rx_frames s1 + 1\<rparr>"
  define s2 where "s2 = drain_governor s1'"
  obtain ok s3 where e: "frame_enqueue f s2 = (ok, s3)" by (cases "frame_enqueue f s2")
  obtain nb s4 where n: "next_buffer (if ok then [] else [c]) s3 = (nb, s4)"
    by (cases "next_buffer (if ok then [] else [c]) s3")
  have fin: "finish_frame s = s4\<lparr>rx_cur_buf := Some nb, rx_cur_first := True\<rparr>"
    using v e n cur by (simp add: finish_frame_def Let_def f_def s1'_def s2_def)
  have "ring_wf s1'" using ring by (simp add: s1'_def ring_wf_def rx_refs_def s1 rx_max_q_def)
  then have ring2: "ring_wf s2" unfolding s2_def by (rule drain_governor_ring)
  have s2: "rx_bufs s2 = rx_bufs s" "rx_fmt s2 = rx_fmt s" "rx_cur_buf s2 = Some c"
    "rx_held s2 = rx_held s" "rx_frames s2 = rx_frames s + 1" "rx_q_dropped s2 = rx_q_dropped s"
    "rx_frame_q_depth s2 = rx_frame_q_depth s"
    by (simp_all add: s2_def drain_governor_keeps s1'_def s1)
  have q2: "rx_frame_q s2 = rx_frame_q s \<and> rx_q_drained s2 = rx_q_drained s \<or>
      (\<exists>g. rx_frame_q s = g # rx_frame_q s2 \<and> rx_q_drained s2 = rx_q_drained s + 1)"
    using drain_governor_queue [of s1'] by (simp add: s2_def s1'_def s1)
  have refs2: "rx_refs s2 \<subseteq> rx_refs s" using q2 by (auto simp: rx_refs_def s2)
  have s3: "rx_bufs s3 = rx_bufs s" "rx_fmt s3 = rx_fmt s" "rx_cur_buf s3 = Some c"
    "rx_held s3 = rx_held s" "rx_frames s3 = rx_frames s + 1" "rx_q_drained s3 = rx_q_drained s2"
    "rx_buf_idx s3 = rx_buf_idx s2" "rx_frame_q_depth s3 = rx_frame_q_depth s"
    using e s2 by (auto simp: frame_enqueue_def split: if_splits)
  have "rx_refs s3 \<subseteq> rx_refs s2 \<union> {c}"
    using e by (auto simp: frame_enqueue_def rx_refs_def f_def split: if_splits)
  then have refs3: "rx_refs s3 \<subseteq> rx_refs s \<union> {c}" using refs2 by blast
  have ring3: "ring_wf s3"
    using e ring2 c(1) s2(1)
    by (auto simp: frame_enqueue_def ring_wf_def rx_refs_def f_def rx_max_q_def split: if_splits)
  obtain more idx where m: "s4 = s3\<lparr>rx_buf_idx := idx, rx_bufs := rx_bufs s3 @ more\<rparr>"
    "idx < length (rx_bufs s3)" "more = [] \<or> more = [new_buffer s3]"
    "nb < length (rx_bufs s3 @ more)" "nb \<notin> rx_refs s3" "nb \<noteq> c"
    "nb \<notin> set (if ok then [] else [c])"
  proof (rule next_buffer_ok [OF ring3 n s3(3)])
    show "c < length (rx_bufs s3)" using c(1) s3(1) by simp
    show "set (if ok then [] else [c]) \<subseteq> {..<length (rx_bufs s3)}" using c(1) s3(1) by simp
  qed
  have len: "\<forall>b\<in>set more. length b = frame_oct (rx_fmt s)"
    using m(3) s3(2) by (auto simp: new_buffer_def unat_octets_per_frame)
  have refs4: "rx_refs (finish_frame s) = rx_refs s3" by (simp add: fin m(1) rx_refs_def)
  have bufs4: "rx_bufs (finish_frame s) = rx_bufs s3 @ more" by (simp add: fin m(1))
  have "ring_wf (finish_frame s)"
    using ring3 m(2) len unfolding ring_wf_def refs4 bufs4
    by (auto simp: fin m(1) s3 rx_max_q_def)
  moreover have "rx_cur_buf (finish_frame s) = Some nb" by (simp add: fin)
  ultimately have wf': "rx_wf (finish_frame s)"
    using m(4,5) by (simp add: rx_wf_def refs4 bufs4)
  have bal: "frame_balance (finish_frame s) = frame_balance s"
    using e q2 by (auto simp: frame_balance_def fin m(1) frame_enqueue_def s2 split: if_splits)
  show thesis
    using refs3 by (intro that [of more] wf' bal) (simp_all add: fin m(1) s3 rx_refs_def)
qed

end
