(* ===== verification/Rx_Props.thy ===== *)
theory Rx_Props
  imports Rx_Op
begin

text \<open>
  Properties of the receive operator: ownership of its buffers, the frame queue, the loss counter,
  the broken-epoch guard, and the path of one frame from the sender's packetizer into the queue.
\<close>

section \<open>One event\<close>

lemma account_keeps:
  "rx_fmt (account i p n s) = rx_fmt s" "rx_bufs (account i p n s) = rx_bufs s"
  "rx_buf_idx (account i p n s) = rx_buf_idx s" "rx_cur_buf (account i p n s) = rx_cur_buf s"
  "rx_frame_q (account i p n s) = rx_frame_q s" "rx_held (account i p n s) = rx_held s"
  "rx_frame_q_depth (account i p n s) = rx_frame_q_depth s" "rx_cur_first (account i p n s) = rx_cur_first s"
  "rx_frames (account i p n s) = rx_frames s" "rx_q_dropped (account i p n s) = rx_q_dropped s"
  "rx_q_drained (account i p n s) = rx_q_drained s" "rx_cur_ts (account i p n s) = rx_cur_ts s"
  "rx_cur_arrival_ns (account i p n s) = rx_cur_arrival_ns s" "rx_drain_enabled (account i p n s) = rx_drain_enabled s"
  "rx_video_ts_delta (account i p n s) = rx_video_ts_delta s"
  by (simp_all add: account_def account_loss_def account_latency_def Let_def)

lemma cap_record_keeps:
  "rx_fmt (cap_record i p s) = rx_fmt s" "rx_bufs (cap_record i p s) = rx_bufs s"
  "rx_buf_idx (cap_record i p s) = rx_buf_idx s" "rx_cur_buf (cap_record i p s) = rx_cur_buf s"
  "rx_frame_q (cap_record i p s) = rx_frame_q s" "rx_held (cap_record i p s) = rx_held s"
  "rx_frame_q_depth (cap_record i p s) = rx_frame_q_depth s" "rx_cur_first (cap_record i p s) = rx_cur_first s"
  "rx_frames (cap_record i p s) = rx_frames s" "rx_q_dropped (cap_record i p s) = rx_q_dropped s"
  "rx_q_drained (cap_record i p s) = rx_q_drained s" "rx_cur_ts (cap_record i p s) = rx_cur_ts s"
  "rx_cur_arrival_ns (cap_record i p s) = rx_cur_arrival_ns s" "rx_drain_enabled (cap_record i p s) = rx_drain_enabled s"
  "rx_video_ts_delta (cap_record i p s) = rx_video_ts_delta s"
  by (simp_all add: cap_record_def Let_def)

lemmas book_keeps = account_keeps cap_record_keeps

text \<open>\<open>prep s\<close> is the state in which a video packet is scattered.\<close>

definition video_prep :: "rx_packet_info \<Rightarrow> rx_packet \<Rightarrow> u64 \<Rightarrow> rx_op \<Rightarrow> rx_op" where
  "video_prep info pkt now s =
     (let s1 = cap_record info pkt (account info pkt now s)
      in if rx_cur_first s1
         then s1\<lparr>rx_cur_ts := ri_rtp_timestamp info, rx_cur_arrival_ns := rp_ref pkt now, rx_cur_first := False\<rparr>
         else s1)"

lemma video_prep_keeps:
  "rx_fmt (video_prep i p n s) = rx_fmt s" "rx_bufs (video_prep i p n s) = rx_bufs s"
  "rx_buf_idx (video_prep i p n s) = rx_buf_idx s" "rx_cur_buf (video_prep i p n s) = rx_cur_buf s"
  "rx_frame_q (video_prep i p n s) = rx_frame_q s" "rx_held (video_prep i p n s) = rx_held s"
  "rx_frame_q_depth (video_prep i p n s) = rx_frame_q_depth s"
  "rx_frames (video_prep i p n s) = rx_frames s" "rx_q_dropped (video_prep i p n s) = rx_q_dropped s"
  "rx_q_drained (video_prep i p n s) = rx_q_drained s" "rx_drain_enabled (video_prep i p n s) = rx_drain_enabled s"
  "\<not> rx_cur_first (video_prep i p n s)"
  "rx_cur_ts (video_prep i p n s) = (if rx_cur_first s then ri_rtp_timestamp i else rx_cur_ts s)"
  "rx_cur_arrival_ns (video_prep i p n s) = (if rx_cur_first s then rp_ref p n else rx_cur_arrival_ns s)"
  "rx_video_ts_delta (video_prep i p n s) = rx_video_ts_delta s"
  by (simp_all add: video_prep_def Let_def book_keeps)

lemma poll_video_eq:
  "poll_video info pkt now s = do {
     b \<leftarrow> rx_cur_buf s;
     buf \<leftarrow> mem_get (rx_bufs s) b;
     buf' \<leftarrow> scatter (rx_fmt s) info (rp_payload pkt) buf;
     let s3 = (video_prep info pkt now s)\<lparr>rx_bufs := (rx_bufs s)[b := buf']\<rparr>;
     Some (if ri_marker info then finish_frame s3 else s3)
   }"
  unfolding poll_video_def Let_def
  by (simp only: video_prep_def [unfolded Let_def, symmetric] video_prep_keeps)

lemma rx_wf_write:
  assumes "rx_wf s" "rx_cur_buf s = Some b" "length buf' = frame_oct (rx_fmt s)"
    and "rx_bufs s' = (rx_bufs s)[b := buf']" "rx_fmt s' = rx_fmt s" "rx_cur_buf s' = Some b"
    "rx_buf_idx s' = rx_buf_idx s" "rx_frame_q s' = rx_frame_q s" "rx_held s' = rx_held s"
    "rx_frame_q_depth s' = rx_frame_q_depth s"
  shows "rx_wf s'"
proof -
  have refs: "rx_refs s' = rx_refs s" using assms by (simp add: rx_refs_def)
  show ?thesis
    using assms(1-3) set_update_subset_insert [of "rx_bufs s" b buf']
    by (auto simp: rx_wf_def ring_wf_def refs assms(4-10) rx_max_q_def)
qed

lemma rx_wf_same:
  assumes "rx_wf s" "rx_bufs s' = rx_bufs s" "rx_fmt s' = rx_fmt s" "rx_cur_buf s' = rx_cur_buf s"
    "rx_buf_idx s' = rx_buf_idx s" "rx_frame_q s' = rx_frame_q s" "set (rx_held s') \<subseteq> set (rx_held s)"
    "rx_frame_q_depth s' = rx_frame_q_depth s"
  shows "rx_wf s'"
proof -
  have refs: "rx_refs s' \<subseteq> rx_refs s" using assms(6,7) by (auto simp: rx_refs_def)
  then show ?thesis
    using assms(1) by (auto simp: rx_wf_def ring_wf_def assms(2-6,8) rx_max_q_def)
qed

text \<open>What one event keeps: the invariant, the bytes of every referenced buffer, and the balance of
  frames up to those it hands out.\<close>

definition event_ok :: "rx_op \<Rightarrow> rx_frame list \<Rightarrow> rx_op \<Rightarrow> bool" where
  "event_ok s out s' \<longleftrightarrow> rx_wf s' \<and> rx_fmt s' = rx_fmt s \<and>
     (\<forall>b\<in>rx_refs s. b < length (rx_bufs s') \<and> rx_bufs s' ! b = rx_bufs s ! b) \<and>
     frame_balance s' = frame_balance s + of_nat (length out)"

lemma poll_video_ok:
  assumes wf: "rx_wf s" and parse: "parse (rx_fmt s) (rp_payload pkt) (rp_len pkt) = Some (Some info)"
    and pkt: "rp_wf pkt"
  shows "\<exists>s'. poll_video info pkt now s = Some s' \<and> event_ok s [] s'"
proof -
  obtain c where c: "rx_cur_buf s = Some c" "c < length (rx_bufs s)" "c \<notin> rx_refs s"
    and ring: "ring_wf s" using wf by (auto simp: rx_wf_def)
  have len: "length (rx_bufs s ! c) = frame_oct (rx_fmt s)"
    using ring c(2) by (auto simp: ring_wf_def)
  obtain buf' where buf': "scatter (rx_fmt s) info (rp_payload pkt) (rx_bufs s ! c) = Some buf'"
    "length buf' = frame_oct (rx_fmt s)"
    using scatter_accepted [OF parse _ len, of "rp_payload pkt"] pkt len by (auto simp: rp_wf_def)
  let ?s3 = "(video_prep info pkt now s)\<lparr>rx_bufs := (rx_bufs s)[c := buf']\<rparr>"
  have eq: "poll_video info pkt now s = Some (if ri_marker info then finish_frame ?s3 else ?s3)"
    using c(1,2) buf'(1) by (simp add: poll_video_eq mem_get_def)
  have wf3: "rx_wf ?s3" by (rule rx_wf_write [OF wf c(1) buf'(2)]) (simp_all add: video_prep_keeps c(1))
  have refs3: "rx_refs ?s3 = rx_refs s" by (simp add: rx_refs_def video_prep_keeps)
  have bal3: "frame_balance ?s3 = frame_balance s" by (simp add: frame_balance_def video_prep_keeps)
  have keep3: "b < length (rx_bufs ?s3) \<and> rx_bufs ?s3 ! b = rx_bufs s ! b" if "b \<in> rx_refs s" for b
  proof -
    have "c \<noteq> b" using that c(3) by blast
    moreover have "b < length (rx_bufs s)" using that ring by (simp add: ring_wf_def)
    ultimately show ?thesis by simp
  qed
  show ?thesis
  proof (cases "ri_marker info")
    case False
    then show ?thesis using eq wf3 keep3 bal3 by (simp add: event_ok_def video_prep_keeps)
  next
    case True
    have cur3: "rx_cur_buf ?s3 = Some c" by (simp add: video_prep_keeps c(1))
    obtain more where fin: "rx_wf (finish_frame ?s3)" "rx_bufs (finish_frame ?s3) = rx_bufs ?s3 @ more"
      "rx_fmt (finish_frame ?s3) = rx_fmt ?s3" "frame_balance (finish_frame ?s3) = frame_balance ?s3"
      by (rule finish_frame_ok [OF wf3 cur3])
    have "b < length (rx_bufs (finish_frame ?s3)) \<and> rx_bufs (finish_frame ?s3) ! b = rx_bufs s ! b"
      if "b \<in> rx_refs s" for b
      using keep3 [OF that] by (simp add: fin(2) nth_append)
    then show ?thesis
      using eq True fin(1,3,4) bal3 by (simp add: event_ok_def video_prep_keeps)
  qed
qed

lemma audio_relay_keeps:
  "rx_bufs (audio_relay a b c s) = rx_bufs s" "rx_fmt (audio_relay a b c s) = rx_fmt s"
  "rx_cur_buf (audio_relay a b c s) = rx_cur_buf s" "rx_buf_idx (audio_relay a b c s) = rx_buf_idx s"
  "rx_frame_q (audio_relay a b c s) = rx_frame_q s" "rx_held (audio_relay a b c s) = rx_held s"
  "rx_frame_q_depth (audio_relay a b c s) = rx_frame_q_depth s"
  "rx_frames (audio_relay a b c s) = rx_frames s" "rx_q_dropped (audio_relay a b c s) = rx_q_dropped s"
  "rx_q_drained (audio_relay a b c s) = rx_q_drained s"
  by (simp_all add: audio_relay_def Let_def split: prod.split)

lemma audio_ingest_ok:
  assumes wf: "rx_wf s" and pkt: "rp_wf pkt"
  shows "\<exists>s'. audio_ingest pkt now s = Some s' \<and> event_ok s [] s'"
proof -
  have room: "mem_read (rp_payload pkt) 0 (rp_len pkt) = Some (take (rp_len pkt) (rp_payload pkt))"
    using pkt by (simp add: rp_wf_def mem_read_Some)
  have hdr: "12 \<le> rp_len pkt \<Longrightarrow> mem_read (rp_payload pkt) 0 12 = Some (take 12 (rp_payload pkt))"
    using pkt by (simp add: rp_wf_def mem_read_Some)
  have "audio_ingest pkt now s = Some (s\<lparr>rx_audio_bad := rx_audio_bad s + 1\<rparr>) \<or>
      (\<exists>a b c. audio_ingest pkt now s = Some (audio_relay a b c s))"
    using room hdr by (auto simp: audio_ingest_def)
  then obtain s' where s': "audio_ingest pkt now s = Some s'"
    and keep: "rx_bufs s' = rx_bufs s" "rx_fmt s' = rx_fmt s" "rx_cur_buf s' = rx_cur_buf s"
    "rx_buf_idx s' = rx_buf_idx s" "rx_frame_q s' = rx_frame_q s" "rx_held s' = rx_held s"
    "rx_frame_q_depth s' = rx_frame_q_depth s" "rx_frames s' = rx_frames s"
    "rx_q_dropped s' = rx_q_dropped s" "rx_q_drained s' = rx_q_drained s"
    using audio_relay_keeps by fastforce
  have "rx_wf s'" by (rule rx_wf_same [OF wf]) (simp_all add: keep)
  moreover have "\<forall>b\<in>rx_refs s. b < length (rx_bufs s)" using wf by (simp add: rx_wf_def ring_wf_def)
  ultimately show ?thesis using s' by (simp add: event_ok_def keep frame_balance_def)
qed

lemma poll_packet_ok:
  assumes "rx_wf s" "rp_wf pkt"
  shows "\<exists>s'. poll_packet pkt now s = Some s' \<and> event_ok s [] s'"
proof (cases "rp_is_audio pkt")
  case True
  then show ?thesis using audio_ingest_ok [OF assms] by (simp add: poll_packet_def)
next
  case False
  obtain r where r: "parse (rx_fmt s) (rp_payload pkt) (rp_len pkt) = Some r"
    using parse_total [of "rp_len pkt" "rp_payload pkt"] assms(2) by (auto simp: rp_wf_def)
  show ?thesis
  proof (cases r)
    case None
    have "rx_wf (s\<lparr>rx_bad := rx_bad s + 1\<rparr>)" by (rule rx_wf_same [OF assms(1)]) simp_all
    moreover have "\<forall>b\<in>rx_refs s. b < length (rx_bufs s)" using assms(1) by (simp add: rx_wf_def ring_wf_def)
    ultimately show ?thesis using False r None by (simp add: poll_packet_def event_ok_def frame_balance_def)
  next
    case (Some info)
    then show ?thesis using poll_video_ok [OF assms(1) _ assms(2)] r False by (simp add: poll_packet_def)
  qed
qed

definition event_wf :: "rx_event \<Rightarrow> bool" where
  "event_wf e \<longleftrightarrow> (case e of Poll pkt now \<Rightarrow> rp_wf pkt | _ \<Rightarrow> True)"

lemma event_step_ok:
  assumes wf: "rx_wf s" and "event_wf e"
  shows "\<exists>out s'. rx_event_step e s = Some (out, s') \<and> event_ok s out s'"
proof (cases e)
  case (Poll pkt now)
  then show ?thesis
    using poll_packet_ok [OF wf, of pkt now] assms(2) by (auto simp: rx_event_step_def event_wf_def)
next
  case Emit
  show ?thesis
  proof (cases "rx_frame_q s")
    case Nil
    then show ?thesis using wf Emit
      by (auto simp: rx_event_step_def compute_emit_one_def event_ok_def rx_wf_def ring_wf_def)
  next
    case (Cons f fs)
    let ?s' = "s\<lparr>rx_frame_q := fs, rx_held := rf_buf f # rx_held s\<rparr>"
    have refs: "rx_refs ?s' = rx_refs s" using Cons by (auto simp: rx_refs_def)
    have wf': "rx_wf ?s'"
      using wf Cons unfolding rx_wf_def ring_wf_def refs by (simp add: rx_max_q_def)
    moreover have "frame_balance ?s' = frame_balance s + 1"
      using Cons by (simp add: frame_balance_def)
    ultimately show ?thesis
      using wf Emit Cons by (auto simp: rx_event_step_def compute_emit_one_def event_ok_def rx_wf_def ring_wf_def)
  qed
next
  case (Share b)
  let ?s' = "if b \<in> set (rx_held s) then s\<lparr>rx_held := b # rx_held s\<rparr> else s"
  have "rx_wf ?s'" by (rule rx_wf_same [OF wf]) auto
  then show ?thesis
    using wf Share by (auto simp: rx_event_step_def event_ok_def frame_balance_def rx_wf_def ring_wf_def)
next
  case (Release b)
  have "rx_wf (s\<lparr>rx_held := remove1 b (rx_held s)\<rparr>)"
    by (rule rx_wf_same [OF wf]) (simp_all add: set_remove1_subset)
  then show ?thesis
    using wf Release by (auto simp: rx_event_step_def event_ok_def frame_balance_def rx_wf_def ring_wf_def)
qed

lemma rx_run_ok:
  "rx_wf s \<Longrightarrow> \<forall>e\<in>set es. event_wf e \<Longrightarrow>
   \<exists>out s'. rx_run es s = Some (out, s') \<and> rx_wf s' \<and> rx_fmt s' = rx_fmt s \<and>
     frame_balance s' = frame_balance s + of_nat (length out)"
proof (induction es arbitrary: s)
  case (Cons e es)
  obtain out s1 where s1: "rx_event_step e s = Some (out, s1)" "event_ok s out s1"
    using event_step_ok [OF Cons.prems(1), of e] Cons.prems(2) by auto
  obtain outs s2 where s2: "rx_run es s1 = Some (outs, s2)" "rx_wf s2" "rx_fmt s2 = rx_fmt s1"
    "frame_balance s2 = frame_balance s1 + of_nat (length outs)"
    using Cons.IH [of s1] s1(2) Cons.prems(2) by (auto simp: event_ok_def)
  show ?case
    using s1 s2 by (intro exI [of _ "out @ outs"] exI [of _ s2]) (simp add: event_ok_def)
qed simp

text \<open>The state in which the poll thread enters its loop.\<close>

definition rx_running :: "rx_params \<Rightarrow> u32 \<Rightarrow> bool \<Rightarrow> rx_op" where
  "rx_running p capture drain = poll_begin (rx_start p capture drain)"

lemma rx_running_state:
  "rx_running p capture drain = (rx_start p capture drain)\<lparr>
     rx_bufs := replicate 8 (new_buffer (rx_start p capture drain)), rx_buf_idx := 1,
     rx_cur_buf := Some 0, rx_cur_first := True\<rparr>"
proof -
  let ?s = "rx_start p capture drain"
  have r: "ring_search (?s\<lparr>rx_bufs := replicate 8 (new_buffer ?s)\<rparr>) [] 8 0 = (Some 0, 1)"
    using ring_search.simps(2) [of "?s\<lparr>rx_bufs := replicate 8 (new_buffer ?s)\<rparr>" "[]" 7 0]
    by (simp add: use_count_def rx_start_def)
  show ?thesis
    unfolding rx_running_def poll_begin_def next_buffer_def using r
    by (simp add: rx_start_def Let_def)
qed

lemma rx_running_wf: "rx_wf (rx_running p capture drain)"
  unfolding rx_running_state
  by (auto simp: rx_wf_def ring_wf_def rx_refs_def rx_start_def new_buffer_def unat_octets_per_frame)

section \<open>Properties\<close>

text \<open>C29 - Receive operator safety: from start, under any sequence of received packets whose announced
  length lies within their mbuf, consumer calls and downstream copies and releases, no access leaves a
  buffer, the frame queue never exceeds its depth, and the buffer being filled is never one that a
  queued or downstream frame still references.  The announced length is the backend's to bound, and it
  does not (\<open>parse_udp_trusts_length\<close>).\<close>
theorem rx_run_safe:
  assumes "\<forall>e\<in>set es. event_wf e"
  shows "\<exists>out s c. rx_run es (rx_running p capture drain) = Some (out, s) \<and>
    length (rx_frame_q s) \<le> rx_max_q s \<and> rx_cur_buf s = Some c \<and> c \<notin> rx_refs s"
  using rx_run_ok [OF rx_running_wf assms] by (fastforce simp: rx_wf_def ring_wf_def)

theorem rx_run_safe_witness:
  "\<exists>out s. rx_run [Emit, Poll \<lparr>rp_payload = [0x80], rp_len = 1, rp_hw_timestamp_ns = 3,
      rp_has_timestamp = True, rp_is_audio = False\<rparr> 5, Emit] (rx_running default_rx_params 0 False) = Some (out, s)"
  using rx_run_safe [of "[Emit, Poll \<lparr>rp_payload = [0x80], rp_len = 1, rp_hw_timestamp_ns = 3,
      rp_has_timestamp = True, rp_is_audio = False\<rparr> 5, Emit]" default_rx_params 0 False]
  by (auto simp: event_wf_def rp_wf_def)

text \<open>C30 - A published frame is immutable: in every reachable state, no event changes a byte of a
  buffer that a queued or downstream frame references.\<close>
theorem rx_published_immutable:
  assumes "\<forall>e\<in>set es. event_wf e" "event_wf e"
    and "rx_run es (rx_running p capture drain) = Some (out, s)" "rx_event_step e s = Some (out', s')"
    and "b \<in> rx_refs s"
  shows "b < length (rx_bufs s) \<and> rx_bufs s' ! b = rx_bufs s ! b"
proof -
  have wf: "rx_wf s" using rx_run_ok [OF rx_running_wf assms(1), of p capture drain] assms(3) by auto
  then have "event_ok s out' s'" using event_step_ok [OF wf assms(2)] assms(4) by auto
  then show ?thesis using assms(5) wf by (simp add: event_ok_def rx_wf_def ring_wf_def)
qed

text \<open>C32 - No frame is unaccounted for: the frames completed since start are exactly those handed
  to the pipeline, those still queued, those dropped at a full queue and those shed by the drain
  governor.\<close>
theorem rx_frames_conserved:
  assumes "\<forall>e\<in>set es. event_wf e"
    and "rx_run es (rx_running p capture drain) = Some (out, s)"
  shows "rx_frames s = of_nat (length out) + of_nat (length (rx_frame_q s)) + rx_q_dropped s + rx_q_drained s"
proof -
  have "frame_balance s = frame_balance (rx_running p capture drain) + of_nat (length out)"
    using rx_run_ok [OF rx_running_wf assms(1), of p capture drain] assms(2) by auto
  moreover have "frame_balance (rx_running p capture drain) = 0"
    by (simp add: rx_running_state frame_balance_def rx_start_def)
  ultimately have "frame_balance s = of_nat (length out)" by simp
  then show ?thesis by (simp add: frame_balance_def algebra_simps)
qed

theorem rx_frames_conserved_witness:
  "\<exists>out s. rx_run [Emit, Share 0, Release 0] (rx_running default_rx_params 0 False) = Some (out, s) \<and>
     rx_frames s = of_nat (length out) + of_nat (length (rx_frame_q s)) + rx_q_dropped s + rx_q_drained s"
proof -
  have wf: "\<forall>e\<in>set [Emit, Share 0, Release 0]. event_wf e" by (simp add: event_wf_def)
  obtain out s where r: "rx_run [Emit, Share 0, Release 0] (rx_running default_rx_params 0 False) = Some (out, s)"
    using rx_run_ok [OF rx_running_wf wf] by blast
  from r rx_frames_conserved [OF wf r] show ?thesis by blast
qed

text \<open>Sequence numbers received in order, possibly with gaps, as positions on the sender's counter.\<close>

fun ascending :: "nat \<Rightarrow> nat list \<Rightarrow> bool" where
  "ascending k [] \<longleftrightarrow> True"
| "ascending k (x # xs) \<longleftrightarrow> k < x \<and> x - k \<le> 2 ^ 31 \<and> ascending x xs"

lemma ascending_last: "ascending k ks \<Longrightarrow> k + length ks \<le> last (k # ks)"
  by (induction k ks rule: ascending.induct) auto

lemma account_loss_step:
  assumes "rx_have_last s" "rx_last_seq s = base + of_nat k" "k < x" "x - k \<le> 2 ^ 31"
  shows "account_loss (base + of_nat x) s =
    s\<lparr>rx_lost := rx_lost s + of_nat (x - k - 1), rx_last_seq := base + of_nat x\<rparr>"
proof -
  define g where "g = x - k - 1"
  have x: "x = k + 1 + g" using assms(3) by (simp add: g_def)
  have gap: "base + of_nat x - (rx_last_seq s + 1) = (of_nat g :: u32)"
    by (simp add: assms(2) x)
  have "g < 2 ^ 31" using assms(3,4) by (simp add: g_def)
  then have un: "unat (of_nat g :: u32) = g" by (simp add: unat_of_nat)
  have lt: "(of_nat g :: u32) < 0x80000000" using \<open>g < 2 ^ 31\<close> by (simp add: word_less_nat_alt un)
  have uc: "(ucast (of_nat g :: u32) :: u64) = of_nat g"
    by (rule word_unat_eq_iff [THEN iffD2]) (use \<open>g < 2 ^ 31\<close> in \<open>simp add: unat_ucast_up un unat_of_nat\<close>)
  show ?thesis
  proof (cases "(of_nat g :: u32) = 0")
    case True
    then have "g = 0" using un by simp
    then show ?thesis using assms(1) gap by (simp add: account_loss_def Let_def g_def)
  next
    case False
    have "x - Suc k = g" by (simp add: g_def)
    then show ?thesis using assms(1) gap lt uc False
      by (cases s) (simp add: account_loss_def Let_def)
  qed
qed

lemma account_loss_fold:
  "rx_have_last s \<Longrightarrow> rx_last_seq s = base + of_nat k \<Longrightarrow> ascending k ks \<Longrightarrow>
   rx_lost (fold account_loss (map (\<lambda>k. base + of_nat k) ks) s) =
     rx_lost s + of_nat (last (k # ks) - k - length ks)"
proof (induction ks arbitrary: s k)
  case (Cons x ks)
  have step: "account_loss (base + of_nat x) s =
      s\<lparr>rx_lost := rx_lost s + of_nat (x - k - 1), rx_last_seq := base + of_nat x\<rparr>"
    using Cons.prems by (intro account_loss_step) simp_all
  have "rx_lost (fold account_loss (map (\<lambda>k. base + of_nat k) (x # ks)) s) =
      rx_lost s + of_nat (x - k - 1) + of_nat (last (x # ks) - x - length ks)"
    using Cons.IH [of "account_loss (base + of_nat x) s" x] Cons.prems by (simp add: step)
  also have "\<dots> = rx_lost s + of_nat ((x - k - 1) + (last (x # ks) - x - length ks))"
    by (simp only: of_nat_add add.assoc)
  also have "(x - k - 1) + (last (x # ks) - x - length ks) = last (k # x # ks) - k - length (x # ks)"
    using Cons.prems ascending_last [of x ks] by simp
  finally show ?case .
qed simp

text \<open>C37 - The loss counter is exact and wrap-safe: packets that arrive in the sender's order with
  any gaps of up to 2^31, wherever the 32-bit counter wraps, raise it by exactly the number of
  missing packets.\<close>
theorem rx_loss_exact:
  assumes "rx_have_last s" "rx_last_seq s = base + of_nat k" "ascending k ks"
  shows "rx_lost (fold account_loss (map (\<lambda>k. base + of_nat k) ks) s) =
    rx_lost s + of_nat (last (k # ks) - k - length ks)"
  using assms by (rule account_loss_fold)

theorem rx_loss_exact_witness:
  "rx_lost (fold account_loss [0xffffffff, 0, 3] ((rx_start default_rx_params 0 False)
     \<lparr>rx_have_last := True, rx_last_seq := 0xfffffffe\<rparr>)) = 2"
proof -
  have wrap: "(4294967296 :: u32) = 0" "(4294967299 :: u32) = 3" by simp_all
  show ?thesis
    using rx_loss_exact [of "(rx_start default_rx_params 0 False)\<lparr>rx_have_last := True, rx_last_seq := 0xfffffffe\<rparr>"
      "0xfffffffe" 0 "[1, 2, 5]"]
    by (simp add: rx_start_def wrap)
qed

lemma sint_small_u64: "unat (w :: u64) < 2 ^ 63 \<Longrightarrow> sint w = int (unat w)"
proof -
  assume "unat w < 2 ^ 63"
  then have "int (unat w) < int (2 ^ 63)" by (simp only: of_nat_less_iff)
  then have "uint w < 2 ^ 63" by simp
  moreover have "- (2 ^ 63) \<le> uint w" by (rule order_trans [OF _ uint_nonnegative]) simp
  ultimately have "sint (word_of_int (uint w) :: u64) = uint w"
    by (simp only: signed_of_int) (simp add: signed_take_bit_int_eq_self)
  then show ?thesis by simp
qed

lemma restamp_err:
  assumes "0 < unat rate" "unat rate \<le> 1000000000" "unat ref < 2 ^ 63"
    and "(1000000000 + int (unat rate)) \<le> kSane * int (unat rate)"
  shows "\<bar>stamp_err (rtp_unwrap_ns (ts + rtp_restamp_delta ts rate ref) rate ref) ref\<bar> \<le> kSane"
proof -
  let ?c = "rtp_unwrap_ns (ts + rtp_restamp_delta ts rate ref) rate ref"
  have "ts + rtp_restamp_delta ts rate ref = ucast (rtp_ticks_abs ref rate)"
    by (simp add: rtp_restamp_delta_def)
  then have "unat ?c = (unat ref * unat rate div 1000000000) * 1000000000 div unat rate"
    using rtp_unwrap_ns_exact [OF assms(1,2), of ref ref] by simp
  then have b: "unat ?c \<le> unat ref" "(unat ref - unat ?c) * unat rate < 1000000000 + unat rate"
    using tick_floor_bounds [OF assms(1), of "unat ref"] by simp_all
  have "int ((unat ref - unat ?c) * unat rate) < int (1000000000 + unat rate)"
    using b(2) by (simp only: of_nat_less_iff)
  then have "int (unat ref - unat ?c) * int (unat rate) < kSane * int (unat rate)"
    using assms(4) by simp
  then have "int (unat ref - unat ?c) < kSane"
    using assms(1) by (simp add: mult_less_cancel_right)
  moreover have "unat ?c < 2 ^ 63" using b(1) assms(3) by linarith
  then have "sint ?c = int (unat ?c)" by (rule sint_small_u64)
  moreover have "sint ref = int (unat ref)" using assms(3) by (rule sint_small_u64)
  moreover have "int (unat ref - unat ?c) = int (unat ref) - int (unat ?c)"
    using b(1) by (rule of_nat_diff)
  ultimately have "stamp_err ?c ref = - int (unat ref - unat ?c)" "int (unat ref - unat ?c) < kSane"
    unfolding stamp_err_def by linarith+
  then show ?thesis by simp
qed

lemma epoch_guard_sane:
  assumes "0 < unat rate" "unat rate \<le> 1000000000" "unat ref < 2 ^ 63"
    and "(1000000000 + int (unat rate)) \<le> kSane * int (unat rate)"
    and "epoch_guard kSane rate delta ts ref = (cap, d, relatched)"
  shows "\<bar>stamp_err cap ref\<bar> \<le> kSane"
  using assms(5) restamp_err [OF assms(1-4), of ts]
  by (auto simp: epoch_guard_def Let_def abs_le_iff split: if_splits)

text \<open>C33 - The broken-epoch guard for video: whatever the sender stamps and whatever correction is
  latched, the capture time given to the schedule lies within 150 ms of the frame's arrival; a
  stamp that is already sane is passed through verbatim, with no state changed; and a sane stamp
  that arrives while a stale correction puts it out of range clears the correction.\<close>
theorem video_capture_sane:
  assumes "unat ref < 2 ^ 63"
  shows "\<bar>stamp_err (fst (video_capture_ns ts ref s)) ref\<bar> \<le> 150000000 \<and>
    (\<bar>stamp_err (rtp_unwrap_ns ts 90000 ref) ref\<bar> \<le> 150000000 \<longrightarrow>
       (rx_video_ts_delta s = 0 \<longrightarrow> video_capture_ns ts ref s = (rtp_unwrap_ns ts 90000 ref, s)) \<and>
       (\<bar>stamp_err (rtp_unwrap_ns (ts + rx_video_ts_delta s) 90000 ref) ref\<bar> > 150000000 \<longrightarrow>
          fst (video_capture_ns ts ref s) = rtp_unwrap_ns ts 90000 ref \<and>
          rx_video_ts_delta (snd (video_capture_ns ts ref s)) = 0))"
proof (intro conjI impI)
  obtain cap d r where g: "epoch_guard 150000000 90000 (rx_video_ts_delta s) ts ref = (cap, d, r)"
    by (cases "epoch_guard 150000000 90000 (rx_video_ts_delta s) ts ref")
  show "\<bar>stamp_err (fst (video_capture_ns ts ref s)) ref\<bar> \<le> 150000000"
    using epoch_guard_sane [OF _ _ assms _ g] by (simp add: video_capture_ns_def g)
next
  assume "\<bar>stamp_err (rtp_unwrap_ns ts 90000 ref) ref\<bar> \<le> 150000000" "rx_video_ts_delta s = 0"
  then show "video_capture_ns ts ref s = (rtp_unwrap_ns ts 90000 ref, s)"
    by (cases s) (simp add: video_capture_ns_def epoch_guard_def Let_def abs_le_iff not_less)
next
  assume a: "\<bar>stamp_err (rtp_unwrap_ns ts 90000 ref) ref\<bar> \<le> 150000000"
    "\<bar>stamp_err (rtp_unwrap_ns (ts + rx_video_ts_delta s) 90000 ref) ref\<bar> > 150000000"
  then have "rx_video_ts_delta s \<noteq> 0" by auto
  then have "epoch_guard 150000000 90000 (rx_video_ts_delta s) ts ref = (rtp_unwrap_ns ts 90000 ref, 0, True)"
    using a unfolding epoch_guard_def Let_def by (simp add: abs_le_iff not_le) (auto simp: abs_if split: if_splits)
  then show "fst (video_capture_ns ts ref s) = rtp_unwrap_ns ts 90000 ref"
    "rx_video_ts_delta (snd (video_capture_ns ts ref s)) = 0"
    by (simp_all add: video_capture_ns_def)
qed

theorem video_capture_sane_witness:
  "\<bar>stamp_err (fst (video_capture_ns 12345 1790000000000000000 (rx_start default_rx_params 0 False)))
     1790000000000000000\<bar> \<le> 150000000"
  using video_capture_sane [of 1790000000000000000 12345 "rx_start default_rx_params 0 False"] by simp

section \<open>One frame, from the sender's packetizer to the frame queue\<close>

definition polls :: "(rx_packet \<times> u64) list \<Rightarrow> rx_event list" where
  "polls pkts = map (\<lambda>(pkt, now). Poll pkt now) pkts"

definition carries :: "packetizer \<Rightarrow> bytes \<Rightarrow> packet_plan \<Rightarrow> rx_packet \<times> u64 \<Rightarrow> bool" where
  "carries pk src p pn \<longleftrightarrow> wire_payload pk src p = Some (rp_payload (fst pn)) \<and>
     rp_len (fst pn) = length (rp_payload (fst pn)) \<and> \<not> rp_is_audio (fst pn)"

definition filling :: "rx_op \<Rightarrow> rx_op \<Rightarrow> bool" where
  "filling s s' \<longleftrightarrow> rx_fmt s' = rx_fmt s \<and> rx_cur_buf s' = rx_cur_buf s \<and> rx_frame_q s' = rx_frame_q s \<and>
     rx_frame_q_depth s' = rx_frame_q_depth s \<and> rx_drain_enabled s' = rx_drain_enabled s \<and>
     rx_video_ts_delta s' = rx_video_ts_delta s"

text \<open>One packet that carries plan \<open>p\<close>: the state it leaves before the marker branch.\<close>

lemma poll_plan:
  assumes wf: "rx_wf s" and pk: "rx_fmt s = pk_fmt pk" "fmt_wf (pk_fmt pk)"
    and plan: "srds_wf (pk_fmt pk) mp (pp_srd p) (pp_payload_len p)"
    and src: "length src = frame_oct (pk_fmt pk)" and car: "carries pk src p (pkt, now)"
    and cur: "rx_cur_buf s = Some c"
  obtains s3 where "poll_packet pkt now s = Some (if pp_marker p then finish_frame s3 else s3)"
    "rx_wf s3" "filling s s3" "\<not> rx_cur_first s3"
    "rx_cur_ts s3 = (if rx_cur_first s then pp_rtp_timestamp p else rx_cur_ts s)"
    "rx_cur_arrival_ns s3 = (if rx_cur_first s then rp_ref pkt now else rx_cur_arrival_ns s)"
    "\<forall>i<frame_oct (pk_fmt pk). (rx_bufs s3 ! c) ! i =
       (if i \<in> set (plan_ranges (pk_fmt pk) [p]) then src ! i else (rx_bufs s ! c) ! i)"
proof -
  have c: "c < length (rx_bufs s)" and ring: "ring_wf s" using wf cur by (auto simp: rx_wf_def)
  have len: "length (rx_bufs s ! c) = frame_oct (pk_fmt pk)" using ring c by (auto simp: ring_wf_def pk)
  obtain d info fr where r: "wire_payload pk src p = Some d"
    "parse (pk_fmt pk) d (length d) = Some (Some info)" "ri_marker info = pp_marker p"
    "ri_rtp_timestamp info = pp_rtp_timestamp p" "scatter (pk_fmt pk) info d (rx_bufs s ! c) = Some fr"
    "length fr = length (rx_bufs s ! c)"
    "\<forall>i<length (rx_bufs s ! c). fr ! i =
       (if i \<in> set (plan_ranges (pk_fmt pk) [p]) then src ! i else (rx_bufs s ! c) ! i)"
    by (rule plan_received [OF pk(2) plan src len])
  have pkt: "rp_payload pkt = d" "rp_len pkt = length d" "\<not> rp_is_audio pkt"
    using car r(1) by (simp_all add: carries_def)
  let ?s3 = "(video_prep info pkt now s)\<lparr>rx_bufs := (rx_bufs s)[c := fr]\<rparr>"
  have "poll_packet pkt now s = Some (if pp_marker p then finish_frame ?s3 else ?s3)"
    using r pkt cur c by (simp add: poll_packet_def pk(1) poll_video_eq mem_get_def)
  moreover have "rx_wf ?s3"
    by (rule rx_wf_write [OF wf cur]) (simp_all add: video_prep_keeps cur r(6) len pk(1))
  ultimately show thesis
    using r(4,7) len c by (intro that [of ?s3]) (simp_all add: filling_def video_prep_keeps)
qed

lemma filling_trans: "filling a b \<Longrightarrow> filling b c \<Longrightarrow> filling a c"
  by (simp add: filling_def)

lemma poll_plans:
  assumes "rx_wf s" "rx_fmt s = pk_fmt pk" "fmt_wf (pk_fmt pk)"
    and "\<forall>p\<in>set ps. srds_wf (pk_fmt pk) mp (pp_srd p) (pp_payload_len p) \<and> \<not> pp_marker p \<and> pp_rtp_timestamp p = ts"
    and "length src = frame_oct (pk_fmt pk)" "list_all2 (carries pk src) ps pkts" "rx_cur_buf s = Some c"
  shows "\<exists>s'. rx_run (polls pkts) s = Some ([], s') \<and> rx_wf s' \<and> filling s s' \<and>
    rx_cur_first s' = (rx_cur_first s \<and> ps = []) \<and>
    rx_cur_ts s' = (if rx_cur_first s \<and> ps \<noteq> [] then ts else rx_cur_ts s) \<and>
    rx_cur_arrival_ns s' = (if rx_cur_first s \<and> ps \<noteq> [] then rp_ref (fst (hd pkts)) (snd (hd pkts))
       else rx_cur_arrival_ns s) \<and>
    (\<forall>i<frame_oct (pk_fmt pk). (rx_bufs s' ! c) ! i =
       (if i \<in> set (plan_ranges (pk_fmt pk) ps) then src ! i else (rx_bufs s ! c) ! i))"
  using assms(1,2,4,6,7)
proof (induction ps arbitrary: s pkts)
  case Nil
  then show ?case by (simp add: polls_def plan_ranges_def filling_def)
next
  case (Cons p ps)
  obtain pkt now rest where pkts: "pkts = (pkt, now) # rest" "carries pk src p (pkt, now)"
    "list_all2 (carries pk src) ps rest"
    using Cons.prems(4) by (auto simp: list_all2_Cons1)
  obtain s1 where s1: "poll_packet pkt now s = Some (if pp_marker p then finish_frame s1 else s1)"
    "rx_wf s1" "filling s s1" "\<not> rx_cur_first s1"
    "rx_cur_ts s1 = (if rx_cur_first s then pp_rtp_timestamp p else rx_cur_ts s)"
    "rx_cur_arrival_ns s1 = (if rx_cur_first s then rp_ref pkt now else rx_cur_arrival_ns s)"
    "\<forall>i<frame_oct (pk_fmt pk). (rx_bufs s1 ! c) ! i =
       (if i \<in> set (plan_ranges (pk_fmt pk) [p]) then src ! i else (rx_bufs s ! c) ! i)"
    using poll_plan [OF Cons.prems(1,2) assms(3) _ assms(5) pkts(2) Cons.prems(5)] Cons.prems(3) by auto
  obtain s' where s': "rx_run (polls rest) s1 = Some ([], s')" "rx_wf s'" "filling s1 s'"
    "\<not> rx_cur_first s'" "rx_cur_ts s' = rx_cur_ts s1" "rx_cur_arrival_ns s' = rx_cur_arrival_ns s1"
    "\<forall>i<frame_oct (pk_fmt pk). (rx_bufs s' ! c) ! i =
       (if i \<in> set (plan_ranges (pk_fmt pk) ps) then src ! i else (rx_bufs s1 ! c) ! i)"
    using Cons.IH [OF s1(2) _ _ pkts(3)] Cons.prems(2,3,5) s1(3,4) by (auto simp: filling_def)
  have "rx_run (polls pkts) s = Some ([], s')"
    using s1(1) s'(1) Cons.prems(3) by (simp add: pkts polls_def rx_event_step_def)
  moreover have "set (plan_ranges (pk_fmt pk) (p # ps)) =
      set (plan_ranges (pk_fmt pk) [p]) \<union> set (plan_ranges (pk_fmt pk) ps)"
    by (simp add: plan_ranges_def)
  ultimately show ?case
    using s1 s' Cons.prems(3) filling_trans [OF s1(3) s'(3)] by (auto simp: pkts)
qed

lemma next_buffer_queue: "rx_frame_q (snd (next_buffer extra s)) = rx_frame_q s"
  by (simp add: next_buffer_def Let_def split: prod.split option.split)

lemma finish_frame_publish:
  assumes "rx_cur_buf s = Some c" "\<not> rx_drain_enabled s" "length (rx_frame_q s) < rx_max_q s"
  shows "\<exists>f. rx_frame_q (finish_frame s) = rx_frame_q s @ [f] \<and> rf_buf f = c \<and>
    rf_capture_ts_ns f = fst (video_capture_ns (rx_cur_ts s) (rx_cur_arrival_ns s) s)"
proof -
  obtain cap s1 where v: "video_capture_ns (rx_cur_ts s) (rx_cur_arrival_ns s) s = (cap, s1)"
    by (cases "video_capture_ns (rx_cur_ts s) (rx_cur_arrival_ns s) s")
  obtain d r where s1: "s1 = s\<lparr>rx_video_ts_delta := d, rx_video_relatch := r\<rparr>"
    by (rule video_capture_keeps [OF v])
  let ?f = "\<lparr>rf_buf = c, rf_format = rx_fmt s1, rf_capture_ts_ns = cap, rf_frame_number = rx_frames s1\<rparr>"
  have "frame_enqueue ?f (drain_governor (s1\<lparr>rx_frames := rx_frames s1 + 1\<rparr>)) =
      (True, s1\<lparr>rx_frames := rx_frames s1 + 1, rx_frame_q := rx_frame_q s @ [?f]\<rparr>)"
    using assms(2,3) by (simp add: frame_enqueue_def drain_governor_def s1 rx_max_q_def)
  moreover obtain nb s4 where n: "next_buffer []
      (s1\<lparr>rx_frames := rx_frames s1 + 1, rx_frame_q := rx_frame_q s @ [?f]\<rparr>) = (nb, s4)" (is "next_buffer [] ?s = _")
    by (cases "next_buffer [] ?s")
  moreover have "rx_frame_q s4 = rx_frame_q s @ [?f]"
    using next_buffer_queue [of "[]" ?s] by (simp add: n)
  ultimately have "rx_frame_q (finish_frame s) = rx_frame_q s @ [?f]"
    using v assms(1) by (simp add: finish_frame_def Let_def)
  then show ?thesis using v by simp
qed

lemma video_capture_delta:
  "rx_video_ts_delta s' = rx_video_ts_delta s \<Longrightarrow>
   fst (video_capture_ns ts ref s') = fst (video_capture_ns ts ref s)"
  by (simp add: video_capture_ns_def split: prod.split)

lemma rx_run_append:
  "rx_run es t = Some (o1, t1) \<Longrightarrow> rx_run es' t1 = Some (o2, t2) \<Longrightarrow> rx_run (es @ es') t = Some (o1 @ o2, t2)"
proof (induction es arbitrary: t o1)
  case (Cons e es)
  obtain a t' b where "rx_event_step e t = Some (a, t')" "rx_run es t' = Some (b, t1)" "o1 = a @ b"
    using Cons.prems(1) by (auto split: bind_splits)
  then show ?case using Cons.IH [of t' b] Cons.prems(2) by simp
qed simp

text \<open>What the receiver knows of a frame's plans: only the last is marked.\<close>

lemma frame_plans:
  assumes "walk_ok (start_frame ts pk) ps pk'"
  shows "\<forall>p\<in>set ps. srds_wf (pk_fmt pk) (pk_max_payload pk) (pp_srd p) (pp_payload_len p) \<and> pp_rtp_timestamp p = ts"
    and "pp_marker (last ps)" and "\<forall>p\<in>set ps. p \<noteq> last ps \<longrightarrow> \<not> pp_marker p" and "ps \<noteq> []"
proof -
  show ne: "ps \<noteq> []" using assms by (simp add: walk_ok_def)
  show "\<forall>p\<in>set ps. srds_wf (pk_fmt pk) (pk_max_payload pk) (pp_srd p) (pp_payload_len p) \<and> pp_rtp_timestamp p = ts"
    using assms by (auto simp: walk_ok_def in_set_conv_nth start_frame_def)
  show "pp_marker (last ps)" using assms ne by (simp add: walk_ok_def last_conv_nth)
  show "\<forall>p\<in>set ps. p \<noteq> last ps \<longrightarrow> \<not> pp_marker p"
  proof (intro ballI impI notI)
    fix p assume "p \<in> set ps" "p \<noteq> last ps" "pp_marker p"
    then obtain i where i: "i < length ps" "p = ps ! i" by (auto simp: in_set_conv_nth)
    with assms \<open>pp_marker p\<close> have "length ps = i + 1" by (simp add: walk_ok_def)
    then have "p = last ps" using i ne by (simp add: last_conv_nth)
    then show False using \<open>p \<noteq> last ps\<close> by contradiction
  qed
qed

lemma frame_ranges:
  assumes "walk_ok (start_frame ts pk) ps pk'" "fmt_wf (pk_fmt pk)" "budget_ok (pk_fmt pk) (pk_max_payload pk)"
    and "set order \<union> {last ps} = set ps" "i < frame_oct (pk_fmt pk)"
  shows "i \<in> set (plan_ranges (pk_fmt pk) order) \<or> i \<in> set (plan_ranges (pk_fmt pk) [last ps])"
proof -
  have un: "set (plan_ranges (pk_fmt pk) qs) = (\<Union>p\<in>set qs. set (plan_ranges (pk_fmt pk) [p]))" for qs
    by (simp add: plan_ranges_def)
  have "plan_ranges (pk_fmt pk) ps = [0 ..< frame_oct (pk_fmt pk)]"
    using assms(1) start_frame_drain(2) [OF assms(2,3), of ts] by (simp add: walk_ok_def start_frame_def)
  then have "i \<in> set (plan_ranges (pk_fmt pk) ps)" using assms(5) by simp
  then obtain p where "p \<in> set order \<union> {last ps}" "i \<in> set (plan_ranges (pk_fmt pk) [p])"
    using un [of ps] assms(4) by blast
  then show ?thesis using un [of order] by blast
qed

text \<open>The receiver's state when the marker packet has been scattered.\<close>

lemma frame_filled:
  assumes "fmt_wf (pk_fmt pk)" "budget_ok (pk_fmt pk) (pk_max_payload pk)"
    and walk: "walk_ok (start_frame ts pk) ps pk'"
    and "set order \<union> {last ps} = set ps" "last ps \<notin> set order" "length src = frame_oct (pk_fmt pk)"
    and "rx_wf s" "rx_fmt s = pk_fmt pk" "rx_cur_first s" "rx_cur_buf s = Some c"
    and "list_all2 (carries pk src) (order @ [last ps]) pkts"
  obtains s3 where "rx_run (polls pkts) s = Some ([], finish_frame s3)" "rx_wf s3" "filling s s3"
    "rx_bufs s3 ! c = src" "rx_cur_ts s3 = ts"
    "rx_cur_arrival_ns s3 = rp_ref (fst (hd pkts)) (snd (hd pkts))"
proof -
  obtain front pkt now where pkts: "pkts = front @ [(pkt, now)]" "list_all2 (carries pk src) order front"
    "carries pk src (last ps) (pkt, now)"
    using assms(11) by (auto simp: list_all2_append1 list_all2_Cons1)
  note plans = frame_plans [OF walk]
  have "\<forall>p\<in>set order. srds_wf (pk_fmt pk) (pk_max_payload pk) (pp_srd p) (pp_payload_len p) \<and>
      \<not> pp_marker p \<and> pp_rtp_timestamp p = ts"
  proof
    fix p assume "p \<in> set order"
    then have "p \<in> set ps" "p \<noteq> last ps" using assms(4,5) by auto
    then show "srds_wf (pk_fmt pk) (pk_max_payload pk) (pp_srd p) (pp_payload_len p) \<and>
        \<not> pp_marker p \<and> pp_rtp_timestamp p = ts"
      using plans(1,3) by simp
  qed
  note fold = poll_plans [OF assms(7,8,1) this assms(6) pkts(2) assms(10)]
  obtain s1 where s1: "rx_run (polls front) s = Some ([], s1)" "rx_wf s1" "filling s s1"
    "rx_cur_first s1 = (order = [])" "order \<noteq> [] \<longrightarrow> rx_cur_ts s1 = ts"
    "order \<noteq> [] \<longrightarrow> rx_cur_arrival_ns s1 = rp_ref (fst (hd front)) (snd (hd front))"
    "\<forall>i<frame_oct (pk_fmt pk). (rx_bufs s1 ! c) ! i =
       (if i \<in> set (plan_ranges (pk_fmt pk) order) then src ! i else (rx_bufs s ! c) ! i)"
    using fold assms(9) by fastforce
  have s1': "rx_fmt s1 = pk_fmt pk" "rx_cur_buf s1 = Some c"
    using s1(3) assms(8,10) by (simp_all add: filling_def)
  have last: "srds_wf (pk_fmt pk) (pk_max_payload pk) (pp_srd (last ps)) (pp_payload_len (last ps))"
    "pp_rtp_timestamp (last ps) = ts" using plans(1,4) by simp_all
  obtain s3 where s3: "poll_packet pkt now s1 = Some (if pp_marker (last ps) then finish_frame s3 else s3)"
    "rx_wf s3" "filling s1 s3" "\<not> rx_cur_first s3"
    "rx_cur_ts s3 = (if rx_cur_first s1 then pp_rtp_timestamp (last ps) else rx_cur_ts s1)"
    "rx_cur_arrival_ns s3 = (if rx_cur_first s1 then rp_ref pkt now else rx_cur_arrival_ns s1)"
    "\<forall>i<frame_oct (pk_fmt pk). (rx_bufs s3 ! c) ! i =
       (if i \<in> set (plan_ranges (pk_fmt pk) [last ps]) then src ! i else (rx_bufs s1 ! c) ! i)"
    by (rule poll_plan [OF s1(2) s1'(1) assms(1) last(1) assms(6) pkts(3) s1'(2)])
  have fill: "filling s s3" by (rule filling_trans [OF s1(3) s3(3)])
  have run1: "rx_run (polls [(pkt, now)]) s1 = Some ([], finish_frame s3)"
    using s3(1) plans(2) by (simp add: polls_def rx_event_step_def)
  have run: "rx_run (polls pkts) s = Some ([], finish_frame s3)"
    using rx_run_append [OF s1(1) run1] by (simp add: pkts(1) polls_def)
  have len: "length (rx_bufs s3 ! c) = frame_oct (pk_fmt pk)"
    using s3(2) fill assms(8,10) by (auto simp: rx_wf_def ring_wf_def filling_def)
  have "rx_bufs s3 ! c = src"
  proof (rule nth_equalityI)
    fix i assume "i < length (rx_bufs s3 ! c)"
    then have i: "i < frame_oct (pk_fmt pk)" using len by simp
    show "(rx_bufs s3 ! c) ! i = src ! i"
      using frame_ranges [OF walk assms(1,2,4) i] s3(7) s1(7) i by auto
  qed (simp add: len assms(6))
  moreover have "rx_cur_ts s3 = ts" using s3(5) s1(4,5) last(2) by simp
  moreover have "rx_cur_arrival_ns s3 = rp_ref (fst (hd pkts)) (snd (hd pkts))"
  proof (cases "order = []")
    case True
    then have "front = []" using pkts(2) by simp
    then show ?thesis using s3(6) s1(4) True by (simp add: pkts(1))
  next
    case False
    then have "front \<noteq> []" using pkts(2) by auto
    then show ?thesis using s3(6) s1(4,6) False by (simp add: pkts(1))
  qed
  ultimately show thesis using that run s3(2) fill by blast
qed

lemma rx_frame_published:
  assumes "fmt_wf (pk_fmt pk)" "budget_ok (pk_fmt pk) (pk_max_payload pk)"
    and "pk_drain (start_frame ts pk) = Some (ps, pk')"
    and "set order \<union> {last ps} = set ps" "last ps \<notin> set order"
    and "length src = unat (octets_per_frame (pk_fmt pk))"
    and "rx_wf s" "rx_fmt s = pk_fmt pk" "rx_cur_first s" "\<not> rx_drain_enabled s"
    and "length (rx_frame_q s) < rx_max_q s"
    and "list_all2 (carries pk src) (order @ [last ps]) pkts"
  shows "\<exists>s' f. rx_run (polls pkts) s = Some ([], s') \<and> rx_frame_q s' = rx_frame_q s @ [f] \<and>
    rx_bufs s' ! rf_buf f = src \<and>
    rf_capture_ts_ns f = fst (video_capture_ns ts (rp_ref (fst (hd pkts)) (snd (hd pkts))) s)"
proof -
  have walk: "walk_ok (start_frame ts pk) ps pk'"
    using start_frame_drain(1) [OF assms(1,2), of ts] assms(3) by auto
  have src: "length src = frame_oct (pk_fmt pk)" using assms(6) by (simp add: unat_octets_per_frame)
  obtain c where c: "rx_cur_buf s = Some c" "c < length (rx_bufs s)" using assms(7) by (auto simp: rx_wf_def)
  obtain s3 where s3: "rx_run (polls pkts) s = Some ([], finish_frame s3)" "rx_wf s3" "filling s s3"
    "rx_bufs s3 ! c = src" "rx_cur_ts s3 = ts"
    "rx_cur_arrival_ns s3 = rp_ref (fst (hd pkts)) (snd (hd pkts))"
    by (rule frame_filled [OF assms(1,2) walk assms(4,5) src assms(7,8,9) c(1) assms(12)])
  have c3: "rx_cur_buf s3 = Some c" "c < length (rx_bufs s3)"
    using s3(2,3) c(1) by (auto simp: filling_def rx_wf_def)
  obtain more where fin: "rx_bufs (finish_frame s3) = rx_bufs s3 @ more"
    by (rule finish_frame_ok [OF s3(2) c3(1)])
  obtain f where f: "rx_frame_q (finish_frame s3) = rx_frame_q s3 @ [f]" "rf_buf f = c"
    "rf_capture_ts_ns f = fst (video_capture_ns (rx_cur_ts s3) (rx_cur_arrival_ns s3) s3)"
    using finish_frame_publish [OF c3(1)] s3(3) assms(10,11) by (auto simp: filling_def rx_max_q_def)
  have "rf_capture_ts_ns f = fst (video_capture_ns ts (rp_ref (fst (hd pkts)) (snd (hd pkts))) s)"
    using f(3) s3(3,5,6) video_capture_delta [of s3 s] by (simp add: filling_def)
  moreover have "rx_bufs (finish_frame s3) ! rf_buf f = src"
    using fin c3(2) f(2) s3(4) by (simp add: nth_append)
  moreover have "rx_frame_q s3 = rx_frame_q s" using s3(3) by (simp add: filling_def)
  ultimately show ?thesis using s3(1) f(1) by auto
qed

text \<open>C6 - End to end through the receiver: when every packet of a frame arrives at least once, in any
  order with any duplicates, the marker packet last, and the queue has room, the operator publishes
  exactly one frame whose buffer holds the sender's bytes and whose capture time is the guarded
  unwrap of the frame's timestamp against the first packet's arrival.\<close>
theorem rx_frame_end_to_end:
  assumes "fmt_wf (pk_fmt pk)" "budget_ok (pk_fmt pk) (pk_max_payload pk)"
    and "pk_drain (start_frame ts pk) = Some (ps, pk')"
    and "set order \<union> {last ps} = set ps" "last ps \<notin> set order"
    and "length src = unat (octets_per_frame (pk_fmt pk))"
    and "rx_wf s" "rx_fmt s = pk_fmt pk" "rx_cur_first s" "\<not> rx_drain_enabled s"
    and "length (rx_frame_q s) < rx_max_q s"
    and "list_all2 (carries pk src) (order @ [last ps]) pkts"
  shows "\<exists>s' f. rx_run (polls pkts) s = Some ([], s') \<and> rx_frame_q s' = rx_frame_q s @ [f] \<and>
    rx_bufs s' ! rf_buf f = src \<and>
    rf_capture_ts_ns f = fst (video_capture_ns ts (rp_ref (fst (hd pkts)) (snd (hd pkts))) s)"
  by (rule rx_frame_published [OF assms])

definition tiny_rx_params :: rx_params where
  "tiny_rx_params = default_rx_params\<lparr>p_in_width := 4, p_in_height := 2, p_in_fps := 50\<rparr>"

abbreviation tiny_rx :: rx_op where "tiny_rx \<equiv> rx_running tiny_rx_params 0 False"

lemma tiny_rx_facts:
  "rx_fmt tiny_rx = pk_fmt tiny_pk" "rx_cur_first tiny_rx" "\<not> rx_drain_enabled tiny_rx"
  "rx_frame_q tiny_rx = []" "0 < rx_max_q tiny_rx" "rx_cur_buf tiny_rx = Some 0"
  by (simp_all add: rx_running_state rx_start_def tiny_rx_params_def default_rx_params_def rx_start_format_def
      profile_1080p_def tiny_pk_def mk_packetizer_def rx_max_q_def)

definition tiny_pkts :: "packet_plan list \<Rightarrow> (rx_packet \<times> u64) list" where
  "tiny_pkts ps = map (\<lambda>p. let d = the (wire_payload tiny_pk (replicate 20 9) p)
     in (\<lparr>rp_payload = d, rp_len = length d, rp_hw_timestamp_ns = 1000, rp_has_timestamp = True,
          rp_is_audio = False\<rparr>, 2000)) ps"

lemma last_marked_unique:
  assumes "walk_ok pk ps pk'"
  shows "set (butlast ps) \<union> {last ps} = set ps" "last ps \<notin> set (butlast ps)"
proof -
  have ne: "ps \<noteq> []" using assms by (simp add: walk_ok_def)
  show "set (butlast ps) \<union> {last ps} = set ps"
    using arg_cong [OF append_butlast_last_id [OF ne], of set] by (simp add: Un_commute)
  show "last ps \<notin> set (butlast ps)"
  proof
    assume "last ps \<in> set (butlast ps)"
    then obtain i where i: "i < length (butlast ps)" "butlast ps ! i = last ps" by (auto simp: in_set_conv_nth)
    then have "pp_marker (ps ! i) \<longleftrightarrow> i + 1 = length ps" using assms by (simp add: walk_ok_def)
    moreover have "pp_marker (last ps)" using assms ne by (simp add: walk_ok_def last_conv_nth)
    ultimately show False using i by (simp add: nth_butlast)
  qed
qed

lemma tiny_frame:
  obtains ps pk' where "pk_drain (start_frame 7 tiny_pk) = Some (ps, pk')" "walk_ok (start_frame 7 tiny_pk) ps pk'"
    "set (butlast ps) \<union> {last ps} = set ps" "last ps \<notin> set (butlast ps)"
    "list_all2 (carries tiny_pk (replicate 20 9)) (butlast ps @ [last ps]) (tiny_pkts ps)"
proof -
  obtain ps pk' where d: "pk_drain (start_frame 7 tiny_pk) = Some (ps, pk')" "walk_ok (start_frame 7 tiny_pk) ps pk'"
    using start_frame_drain(1) [OF tiny_pk_ok(1,2), of 7] by blast
  note plans = frame_plans [OF d(2)]
  note marked = last_marked_unique [OF d(2)]
  have "list_all2 (carries tiny_pk (replicate 20 9)) ps (tiny_pkts ps)"
  proof -
    have "carries tiny_pk (replicate 20 9) p (hd (tiny_pkts [p]))" if p: "p \<in> set ps" for p
    proof -
      have "srds_wf (pk_fmt tiny_pk) (pk_max_payload tiny_pk) (pp_srd p) (pp_payload_len p)"
        using plans(1) p by simp
      then obtain w where "wire_payload tiny_pk (replicate 20 9) p = Some w"
        using plan_received [OF tiny_pk_ok(1) _ , of "pk_max_payload tiny_pk" p "replicate 20 9" "replicate 20 0"]
          tiny_pk_ok(3) by (auto simp: unat_octets_per_frame)
      then show ?thesis by (simp add: carries_def tiny_pkts_def Let_def)
    qed
    then show ?thesis
      unfolding tiny_pkts_def by (auto simp: list_all2_map2 list_all2_same Let_def)
  qed
  then show thesis using that d marked plans(4) by simp
qed

theorem rx_frame_end_to_end_witness:
  "\<exists>pkts s' f. rx_run (polls pkts) tiny_rx = Some ([], s') \<and> rx_frame_q s' = [f] \<and>
    rx_bufs s' ! rf_buf f = replicate 20 9"
proof -
  obtain ps pk' where t: "pk_drain (start_frame 7 tiny_pk) = Some (ps, pk')"
    "set (butlast ps) \<union> {last ps} = set ps" "last ps \<notin> set (butlast ps)"
    "list_all2 (carries tiny_pk (replicate 20 9)) (butlast ps @ [last ps]) (tiny_pkts ps)"
    using tiny_frame by metis
  have "\<exists>s' f. rx_run (polls (tiny_pkts ps)) tiny_rx = Some ([], s') \<and> rx_frame_q s' = rx_frame_q tiny_rx @ [f] \<and>
    rx_bufs s' ! rf_buf f = replicate 20 9 \<and>
    rf_capture_ts_ns f = fst (video_capture_ns 7 (rp_ref (fst (hd (tiny_pkts ps))) (snd (hd (tiny_pkts ps)))) tiny_rx)"
    by (intro rx_frame_end_to_end [OF tiny_pk_ok(1,2) t(1-3) _ rx_running_wf _ _ _ _ t(4)])
      (simp_all add: tiny_pk_ok(3) tiny_rx_facts)
  then show ?thesis by (auto simp: tiny_rx_facts)
qed

lemma tiny_published:
  "\<exists>es s f. rx_run es tiny_rx = Some ([], s) \<and> (\<forall>e\<in>set es. event_wf e) \<and> f \<in> set (rx_frame_q s)"
proof -
  obtain ps pk' where t: "walk_ok (start_frame 7 tiny_pk) ps pk'"
    "set (butlast ps) \<union> {last ps} = set ps" "last ps \<notin> set (butlast ps)"
    "list_all2 (carries tiny_pk (replicate 20 9)) (butlast ps @ [last ps]) (tiny_pkts ps)"
    using tiny_frame by metis
  have src: "length (replicate 20 (9 :: u8)) = frame_oct (pk_fmt tiny_pk)"
    using tiny_pk_ok(3) by (simp add: unat_octets_per_frame)
  obtain s3 where s3: "rx_run (polls (tiny_pkts ps)) tiny_rx = Some ([], finish_frame s3)" "filling tiny_rx s3"
    by (rule frame_filled [OF tiny_pk_ok(1,2) t(1-3) src rx_running_wf tiny_rx_facts(1,2,6) t(4)])
  obtain f where "rx_frame_q (finish_frame s3) = rx_frame_q s3 @ [f]"
    using finish_frame_publish [of s3 0] s3(2) tiny_rx_facts by (auto simp: filling_def rx_max_q_def)
  moreover have "\<forall>e\<in>set (polls (tiny_pkts ps)). event_wf e"
    by (auto simp: polls_def tiny_pkts_def Let_def event_wf_def rp_wf_def)
  moreover have "f \<in> set (rx_frame_q (finish_frame s3))" by (simp add: calculation(1))
  ultimately show ?thesis using s3(1) by blast
qed

theorem rx_published_immutable_witness:
  "\<exists>es s f out s'. rx_run es tiny_rx = Some ([], s) \<and> rx_event_step Emit s = Some (out, s') \<and>
     rx_bufs s' ! rf_buf f = rx_bufs s ! rf_buf f \<and> f \<in> set (rx_frame_q s)"
proof -
  obtain es s f where r: "rx_run es tiny_rx = Some ([], s)" "\<forall>e\<in>set es. event_wf e" "f \<in> set (rx_frame_q s)"
    using tiny_published by blast
  obtain out s' where e: "rx_event_step Emit s = Some (out, s')"
    by (cases "compute_emit_one s") (simp add: rx_event_step_def)
  have "rf_buf f \<in> rx_refs s" using r(3) by (simp add: rx_refs_def)
  moreover have "event_wf Emit" by (simp add: event_wf_def)
  ultimately have "rx_bufs s' ! rf_buf f = rx_bufs s ! rf_buf f"
    using rx_published_immutable [OF r(2) _ r(1) e] by simp
  with r e show ?thesis by blast
qed

end
