(* ===== verification/Loopback.thy ===== *)
theory Loopback
  imports Tx_Sched Rx_Backend Rx_Props
begin

text \<open>
  The two halves composed: a frame given to the transmit operator, packetized, framed and queued by
  the transmit backend, carried by the wire, classified by the receive backend and reassembled by
  the receive operator.
\<close>

section \<open>The emit loop\<close>

lemma plan_range_pos:
  assumes "srds_wf f mp (pp_srd p) len"
  shows "plan_ranges f [p] \<noteq> []"
proof -
  obtain x xs where "pp_srd p = x # xs" "srd_ok f x" using assms by (cases "pp_srd p") (auto simp: srds_wf_def)
  then show ?thesis by (simp add: plan_ranges_def srd_range_def srd_ok_def)
qed

lemma plan_ranges_Cons: "plan_ranges f (p # ps) = plan_ranges f [p] @ plan_ranges f ps"
  by (simp add: plan_ranges_def)

lemma packets_le_octets:
  "\<forall>p\<in>set ps. srds_wf f mp (pp_srd p) (pp_payload_len p) \<Longrightarrow> length ps \<le> length (plan_ranges f ps)"
proof (induction ps)
  case (Cons p ps)
  have "1 \<le> length (plan_ranges f [p])"
    using plan_range_pos [of f mp p] Cons.prems by (auto simp: Suc_le_eq)
  then show ?case using Cons by (subst plan_ranges_Cons) simp
qed simp

lemma write_payload_wire:
  assumes "srds_wf (pk_fmt pk) mp (pp_srd p) (pp_payload_len p)" "length src = frame_oct (pk_fmt pk)"
  obtains d where "wire_payload pk src p = Some d" "length d = unat (pp_payload_len p)"
    "\<And>dst. unat (pp_payload_len p) \<le> length dst \<Longrightarrow>
       write_payload pk p src dst = Some (d @ drop (unat (pp_payload_len p)) dst)"
proof -
  obtain px where px: "srd_pixels (pk_fmt pk) (pp_srd p) src = Some px"
    "unat (pp_payload_len p) = 14 + 6 * length (pp_srd p) + length px"
    by (rule plan_bytes [OF assms])
  define d where "d = rtp_header pk p @ be16 (ucast (drop_bit 16 (pp_sequence p))) @ srd_headers (pp_srd p) @ px"
  have "length (srd_headers ss) = 6 * length ss" for ss by (induction ss) simp_all
  then have len: "length d = unat (pp_payload_len p)" using px(2) by (simp add: d_def rtp_header_def)
  have w: "write_payload pk p src dst = Some (d @ drop (unat (pp_payload_len p)) dst)"
    if "unat (pp_payload_len p) \<le> length dst" for dst
  proof -
    have "write_payload pk p src dst = mem_write dst 0 d"
      using px(1) by (simp add: write_payload_def d_def)
    then show ?thesis using that len by (simp add: mem_write_def)
  qed
  have "wire_payload pk src p = Some d"
    using w [of "replicate (unat (pp_payload_len p)) 0"] by (simp add: wire_payload_def)
  then show thesis using len w by (rule that)
qed

definition tx_addrs :: "tx_backend \<Rightarrow> bytes \<times> bytes \<times> u32 \<times> u32 \<times> u16" where
  "tx_addrs b = (tb_src_mac b, tb_dst_mac b, tb_src_ip_be b, tb_dst_ip_be b, tb_udp_port_be b)"

lemma header_bytes_addrs:
  "tx_addrs b = tx_addrs b' \<Longrightarrow> header_bytes ck n (tb_dst_mac b) (tb_dst_ip_be b) (tb_udp_port_be b) b =
     header_bytes ck n (tb_dst_mac b') (tb_dst_ip_be b') (tb_udp_port_be b') b'"
  by (simp add: tx_addrs_def header_bytes_def ip_bytes_def)

text \<open>What a submitted mbuf carries: the header for its size and the payload.\<close>

definition carries_payload :: "(bytes \<Rightarrow> u16) \<Rightarrow> tx_backend \<Rightarrow> bytes \<Rightarrow> tx_mbuf \<Rightarrow> bool" where
  "carries_payload cksum b d m \<longleftrightarrow> unat (mb_data_len m) = kL2L3L4Hdr + length d \<and>
     take (kL2L3L4Hdr + length d) (mb_data m) =
       header_bytes cksum (of_nat (length d)) (tb_dst_mac b) (tb_dst_ip_be b) (tb_udp_port_be b) b @ d"

lemma carries_payload_stamp [simp]: "carries_payload cksum b d (stamp_mbuf ts s m) = carries_payload cksum b d m"
  by (simp add: carries_payload_def stamp_mbuf_def)

lemma carries_payload_addrs: "tx_addrs b = tx_addrs b' \<Longrightarrow> carries_payload ck b d m = carries_payload ck b' d m"
  using header_bytes_addrs [of b b'] by (simp add: carries_payload_def)

lemma drain_pending_keeps:
  "drain_pending burst s = (x, y, s') \<Longrightarrow> tx_addrs s' = tx_addrs s \<and> hdr_cache_ok cksum s' = hdr_cache_ok cksum s"
  by (auto simp: drain_pending_def tx_addrs_def hdr_cache_ok_def header_bytes_def ip_bytes_def split: prod.splits)

lemma submit_keeps:
  "submit burst m ts s = Some (x, y, s') \<Longrightarrow> tx_addrs s' = tx_addrs s \<and> hdr_cache_ok cksum s' = hdr_cache_ok cksum s"
  using drain_pending_keeps [of burst "s\<lparr>tb_pending := tb_pending s @ [stamp_mbuf ts s m]\<rparr>" x y s' cksum]
  by (auto simp: submit_def Let_def tx_addrs_def hdr_cache_ok_def header_bytes_def ip_bytes_def split: if_splits)

lemma emit_packet_ok:
  assumes "hdr_cache_ok cksum b" "length (tb_pending b) < kTxBurst"
    and "srds_wf (pk_fmt pk) mp (pp_srd p) (pp_payload_len p)" "length src = frame_oct (pk_fmt pk)"
    and "wire_payload pk src p = Some d" "unat mp + kL2L3L4Hdr < 65536" "kL2L3L4Hdr + unat mp \<le> length room"
  obtains m r where "emit_packet cksum burst (Some room) pk src p ts b = Some (Inr r)" "progressed burst [m] b r"
    "length (tb_pending (snd (snd r))) < kTxBurst" "hdr_cache_ok cksum (snd (snd r))"
    "tx_addrs (snd (snd r)) = tx_addrs b" "carries_payload cksum b d m"
proof -
  let ?n = "unat (pp_payload_len p)" and ?L = "pp_payload_len p"
  have n: "?n \<le> unat mp" "?L \<noteq> 0" using assms(3) by (auto simp: srds_wf_def word_le_nat_alt)
  obtain d' where d': "wire_payload pk src p = Some d'" "length d' = ?n"
    "\<And>dst. ?n \<le> length dst \<Longrightarrow> write_payload pk p src dst = Some (d' @ drop ?n dst)"
    by (rule write_payload_wire [OF assms(3,4)]) (rule that)
  have d: "d' = d" using d'(1) assms(5) by simp
  let ?h = "header_bytes cksum ?L (tb_dst_mac b) (tb_dst_ip_be b) (tb_udp_port_be b) b"
  have "kL2L3L4Hdr \<le> length room" using assms(7) by simp
  from reserve_packet_builds [OF assms(1) n(2) this] obtain b1 where
    r: "reserve_packet cksum (Some room) ?L b = Some (Inr (mk_mbuf ?L (?h @ drop kL2L3L4Hdr room), b1))"
    "hdr_cache_ok cksum b1" "\<exists>c l. b1 = b\<lparr>tb_hdr_cache := c, tb_hdr_cache_len := l\<rparr>" by blast
  have lh: "length ?h = kL2L3L4Hdr"
    using assms(1) by (auto simp: hdr_cache_ok_def length_header_bytes)
  let ?body = "d @ drop ?n (drop kL2L3L4Hdr room)"
  have w: "write_payload pk p src (drop kL2L3L4Hdr room) = Some ?body"
    using d'(3) [of "drop kL2L3L4Hdr room"] assms(7) n(1) d by simp
  let ?m = "(mk_mbuf ?L (?h @ drop kL2L3L4Hdr room))\<lparr>mb_data := ?h @ ?body\<rparr>"
  have b1: "length (tb_pending b1) < kTxBurst" "tx_addrs b1 = tx_addrs b" "tb_pending b1 = tb_pending b"
    "tb_dropped b1 = tb_dropped b" "\<And>ts m. stamp_mbuf ts b1 m = stamp_mbuf ts b m"
    using r(3) assms(2) by (auto simp: tx_addrs_def stamp_mbuf_def)
  from submit_progressed [OF b1(1), of burst ?m ts] obtain out where
    out: "submit burst ?m ts b1 = Some out" "progressed burst [stamp_mbuf ts b1 ?m] b1 out"
    "length (tb_pending (snd (snd out))) < kTxBurst" by blast
  obtain x y b2 where xyb: "out = (x, y, b2)" by (cases out)
  note k = submit_keeps [OF out(1) [unfolded xyb], of cksum]
  have e: "emit_packet cksum burst (Some room) pk src p ts b = Some (Inr out)"
    using r(1) w out(1) lh by (simp add: emit_packet_def mk_mbuf_def)
  have p: "progressed burst [stamp_mbuf ts b1 ?m] b out"
    using out(2) b1(3-5) by (simp add: progressed_def)
  have dl: "unat (mb_data_len ?m) = kL2L3L4Hdr + length d"
  proof -
    have "mb_data_len ?m = (of_nat (kL2L3L4Hdr + ?n) :: u16)"
      using of_nat_down [of "kL2L3L4Hdr + ?n"] by (simp add: mk_mbuf_def)
    moreover have "kL2L3L4Hdr + ?n < 65536" using n(1) assms(6) by simp
    ultimately show ?thesis using d' d by (simp only:) (simp add: unat_of_nat del: of_nat_add)
  qed
  have L: "(of_nat (length d) :: u32) = ?L" using d'(2) d by simp
  have "carries_payload cksum b d (stamp_mbuf ts b1 ?m)"
    unfolding carries_payload_stamp unfolding carries_payload_def dl using lh by (simp add: L)
  then show thesis
    using that [OF e p] out(3) k r(2) b1(2) by (simp add: xyb)
qed

lemma emit_packets_ok:
  assumes "length src = frame_oct (pk_fmt pk)" "unat mp + kL2L3L4Hdr < 65536"
    and "\<forall>x\<in>set rooms. \<exists>room. x = Some room \<and> kL2L3L4Hdr + unat mp \<le> length room"
    and "hdr_cache_ok cksum b" "length (tb_pending b) < kTxBurst" "length pts \<le> length rooms"
    and "\<forall>(p, ts)\<in>set pts. srds_wf (pk_fmt pk) mp (pp_srd p) (pp_payload_len p)"
  shows "\<exists>ms r. emit_packets cksum burst rooms pk src pts b = Some (Inr r) \<and> progressed burst ms b r \<and>
    length (tb_pending (snd (snd r))) < kTxBurst \<and>
    list_all2 (\<lambda>(p, ts) m. carries_payload cksum b (the (wire_payload pk src p)) m) pts ms"
  using assms(3-7)
proof (induction pts arbitrary: rooms b)
  case Nil
  then show ?case by (auto simp: progressed_def split_of_def)
next
  case (Cons x pts)
  obtain p ts where x: "x = (p, ts)" by (cases x)
  obtain y rs where rooms: "rooms = y # rs" using Cons.prems(4) by (cases rooms) auto
  then obtain room where room: "y = Some room" "kL2L3L4Hdr + unat mp \<le> length room" using Cons.prems(1) by auto
  have plan: "srds_wf (pk_fmt pk) mp (pp_srd p) (pp_payload_len p)" using Cons.prems(5) x by auto
  obtain d where d: "wire_payload pk src p = Some d" by (rule write_payload_wire [OF plan assms(1)])
  obtain m r where m: "emit_packet cksum burst (Some room) pk src p ts b = Some (Inr r)" "progressed burst [m] b r"
    "length (tb_pending (snd (snd r))) < kTxBurst" "hdr_cache_ok cksum (snd (snd r))"
    "tx_addrs (snd (snd r)) = tx_addrs b" "carries_payload cksum b d m"
    by (rule emit_packet_ok [OF Cons.prems(2,3) plan assms(1) d assms(2) room(2)])
  obtain s1 f1 b1 where r: "r = (s1, f1, b1)" by (cases r)
  obtain ms r2 where r2: "emit_packets cksum burst rs pk src pts b1 = Some (Inr r2)" "progressed burst ms b1 r2"
    "length (tb_pending (snd (snd r2))) < kTxBurst"
    "list_all2 (\<lambda>(p, ts) m. carries_payload cksum b1 (the (wire_payload pk src p)) m) pts ms"
    using Cons.IH [of rs b1] Cons.prems(1,4,5) m(3,4) by (auto simp: r rooms)
  obtain s2 f2 b2 where r2s: "r2 = (s2, f2, b2)" by (cases r2)
  have "carries_payload cksum b1 d' m' = carries_payload cksum b d' m'" for d' m'
    using m(5) by (intro carries_payload_addrs) (simp add: r)
  then have l: "list_all2 (\<lambda>(p, ts) m. carries_payload cksum b (the (wire_payload pk src p)) m) pts ms"
    using r2(4) by (simp only:)
  have "progressed burst ([m] @ ms) b (s1 @ s2, f1 @ f2, b2)"
    using progressed_trans [OF m(2) [unfolded r] r2(2) [unfolded r2s]] .
  moreover have "emit_packets cksum burst rooms pk src (x # pts) b = Some (Inr (s1 @ s2, f1 @ f2, b2))"
    using m(1) r2(1) by (simp add: x rooms room(1) r r2s)
  ultimately show ?case
    using r2(3) l m(6) d by (intro exI [of _ "m # ms"] exI [of _ "(s1 @ s2, f1 @ f2, b2)"]) (simp add: x r2s)
qed

section \<open>The wire\<close>

text \<open>The receiving NIC writes the bytes of the packet into a data room of exactly that size.\<close>

definition wire :: "u64 \<Rightarrow> u64 \<Rightarrow> tx_mbuf \<Rightarrow> rx_mbuf" where
  "wire fl ts m = \<lparr>xm_data = take (unat (mb_data_len m)) (mb_data m), xm_data_len = mb_data_len m,
     xm_ol_flags = fl, xm_timestamp = ts\<rparr>"

lemma wire_parsed:
  assumes "carries_payload cksum b d m" "length (tb_dst_mac b) = 6" "length (tb_src_mac b) = 6"
    and "length d + kL2L3L4Hdr < 65536"
    and "video_match x (tb_dst_ip_be b) (tb_src_ip_be b) (tb_udp_port_be b)"
  shows "\<exists>pkt. parse_udp x (wire fl ts m) = Some (Some pkt) \<and> rp_payload pkt = d \<and> rp_len pkt = length d \<and>
    \<not> rp_is_audio pkt"
  by (rule parse_udp_of_header [OF assms(2,3) _ _ _ _ assms(5)])
    (use assms(1,4) in \<open>simp_all add: carries_payload_def wire_def kL2L3L4Hdr_def\<close>)

lemma wire_classified:
  assumes "list_all2 (\<lambda>d m. carries_payload cksum b d m \<and> length d + kL2L3L4Hdr < 65536) ds ms"
    and "length (tb_dst_mac b) = 6" "length (tb_src_mac b) = 6"
    and "video_match x (tb_dst_ip_be b) (tb_src_ip_be b) (tb_udp_port_be b)"
  shows "\<exists>out. classify x (map (wire fl ts) ms) = Some (out, []) \<and>
    list_all2 (\<lambda>d (pkt, m). rp_payload pkt = d \<and> rp_len pkt = length d \<and> \<not> rp_is_audio pkt) ds out"
  using assms(1)
proof (induction ds ms rule: list_all2_induct)
  case (Cons d ds m ms)
  obtain pkt where "parse_udp x (wire fl ts m) = Some (Some pkt)" "rp_payload pkt = d"
    "rp_len pkt = length d" "\<not> rp_is_audio pkt"
    using wire_parsed [of cksum b d m x fl ts] Cons.hyps(1) assms(2-4) by blast
  then show ?case using Cons.IH by auto
qed simp

section \<open>The frame as emitted\<close>

lemma length_send_times [simp]: "length (send_times s base now ps c) = length ps"
  by (induction ps arbitrary: c) (simp_all split: prod.split)

lemma media_stamp_pktz: "to_pktz (snd (media_stamp base s)) = to_pktz s"
  by (simp add: media_stamp_def Let_def)

lemma wire_payload_start: "wire_payload (start_frame ts pk) src p = wire_payload pk src p"
  by (simp add: wire_payload_def write_payload_def rtp_header_def start_frame_def)

lemma emit_frame_sends:
  assumes "fmt_wf (pk_fmt pk)" "budget_ok (pk_fmt pk) (pk_max_payload pk)" "to_pktz s = Some pk"
    and "pk_drain (start_frame (fst (media_stamp (to_schedule_base_ns s) s)) pk) = Some (ps, pk')"
    and "length src = frame_oct (pk_fmt pk)" "unat (pk_max_payload pk) + kL2L3L4Hdr < 65536"
    and "hdr_cache_ok cksum b" "tb_pending b = []" "\<forall>c k. 0 < k \<longrightarrow> 0 < burst c k"
    and "length ps \<le> length rooms"
    and "\<forall>x\<in>set rooms. \<exists>room. x = Some room \<and> kL2L3L4Hdr + unat (pk_max_payload pk) \<le> length room"
  shows "\<exists>ms s' b'. emit_frame cksum burst rooms capped now src s b = Some (Inr (ms, [], s', b')) \<and>
    list_all2 (\<lambda>p m. carries_payload cksum b (the (wire_payload pk src p)) m) ps ms"
proof -
  obtain rtp s1 where ms: "media_stamp (to_schedule_base_ns s) s = (rtp, s1)" by fastforce
  let ?pk = "start_frame rtp pk" and ?mp = "pk_max_payload pk"
  have pk: "to_pktz s1 = Some pk" using media_stamp_pktz [of "to_schedule_base_ns s" s] assms(3) ms by simp
  have f: "pk_fmt ?pk = pk_fmt pk" by (simp add: start_frame_def)
  have "walk_ok ?pk ps pk'" using start_frame_drain(1) [OF assms(1,2), of rtp] assms(4) ms by auto
  from frame_plans(1) [OF this]
  have plans: "\<forall>p\<in>set ps. srds_wf (pk_fmt ?pk) ?mp (pp_srd p) (pp_payload_len p)" by (simp add: f)
  let ?pts = "zip ps (send_times s1 (to_schedule_base_ns s) now ps pace_start)"
  have pts: "\<forall>(p, ts)\<in>set ?pts. srds_wf (pk_fmt ?pk) ?mp (pp_srd p) (pp_payload_len p)"
    using plans by (auto dest: set_zip_leftD)
  have src: "length src = frame_oct (pk_fmt ?pk)" using assms(5) f by simp
  have "length (tb_pending b) < kTxBurst" "length ?pts \<le> length rooms"
    using assms(8,10) by (simp_all add: kTxBurst_def)
  from emit_packets_ok [OF src assms(6,11,7) this pts, of burst] obtain mbs r where
    r: "emit_packets cksum burst rooms ?pk src ?pts b = Some (Inr r)" "progressed burst mbs b r"
    "list_all2 (\<lambda>(p, ts) m. carries_payload cksum b (the (wire_payload ?pk src p)) m) ?pts mbs" by blast
  obtain sent freed b1 where r3: "r = (sent, freed, b1)" by (cases r)
  obtain sent2 freed2 b2 where d: "tx_flush burst b1 = (sent2, freed2, b2)" by (cases "tx_flush burst b1")
  have fr: "freed = []" "sent @ tb_pending b1 = mbs"
    using r(2) assms(8,9) by (auto simp: progressed_def r3 split_of_Nil)
  note D = drain_pending_split [OF d [unfolded tx_flush_def]]
  have fr2: "freed2 = []" "sent2 = tb_pending b1" using D(1,4) assms(9) by (auto simp: split_of_Nil)
  have "list_all2 (\<lambda>x m. carries_payload cksum b (the (wire_payload pk src (fst x))) m) ?pts mbs"
    using r(3) by (simp add: wire_payload_start case_prod_unfold)
  then have l: "list_all2 (\<lambda>p m. carries_payload cksum b (the (wire_payload pk src p)) m) ps mbs"
    by (auto simp: list_all2_conv_all_nth)
  have "\<exists>s' b'. emit_frame cksum burst rooms capped now src s b = Some (Inr (mbs, [], s', b'))"
    using assms(4) r(1) fr fr2 d ms pk by (simp add: emit_frame_def r3 Let_def)
  then show ?thesis using l by blast
qed

section \<open>End to end\<close>

text \<open>C4 - Sender to receiver: for a frame the transmit operator has scheduled, of a valid format, with a
  mbuf from the pool for every packet and a NIC that takes at least one packet per burst, the operator
  sends the packets of the frame and frees none; a receive backend that listens on that address
  classifies every one of them as video; and a receive operator of that format that is between frames
  and has room publishes exactly one frame, whose buffer holds the sender's bytes.\<close>
theorem loopback_end_to_end:
  assumes "fmt_wf (pk_fmt pk)" "budget_ok (pk_fmt pk) (pk_max_payload pk)" "to_pktz s = Some pk"
    and "pk_drain (start_frame (fst (media_stamp (to_schedule_base_ns s) s)) pk) = Some (ps, pk')"
    and "length src = unat (octets_per_frame (pk_fmt pk))" "unat (pk_max_payload pk) + kL2L3L4Hdr < 65536"
    and "hdr_cache_ok cksum b" "tb_pending b = []" "\<forall>c k. 0 < k \<longrightarrow> 0 < burst c k"
    and "length ps \<le> length rooms"
    and "\<forall>x\<in>set rooms. \<exists>room. x = Some room \<and> kL2L3L4Hdr + unat (pk_max_payload pk) \<le> length room"
    and "video_match x (tb_dst_ip_be b) (tb_src_ip_be b) (tb_udp_port_be b)"
    and "rx_wf r" "rx_fmt r = pk_fmt pk" "rx_cur_first r" "\<not> rx_drain_enabled r"
    and "length (rx_frame_q r) < rx_max_q r"
  shows "\<exists>sent s' b' out r' f.
    emit_frame cksum burst rooms capped now src s b = Some (Inr (sent, [], s', b')) \<and>
    classify x (map (wire fl ts) sent) = Some (out, []) \<and>
    rx_run (polls (map (\<lambda>(pkt, m). (pkt, t)) out)) r = Some ([], r') \<and>
    rx_frame_q r' = rx_frame_q r @ [f] \<and> rx_bufs r' ! rf_buf f = src"
proof -
  let ?rtp = "fst (media_stamp (to_schedule_base_ns s) s)"
  have src: "length src = frame_oct (pk_fmt pk)" using assms(5) by (simp add: unat_octets_per_frame)
  have walk: "walk_ok (start_frame ?rtp pk) ps pk'"
    using start_frame_drain(1) [OF assms(1,2), of ?rtp] assms(4) by auto
  note plans = frame_plans [OF walk]
  obtain ms s' b' where sent: "emit_frame cksum burst rooms capped now src s b = Some (Inr (ms, [], s', b'))"
    "list_all2 (\<lambda>p m. carries_payload cksum b (the (wire_payload pk src p)) m) ps ms"
    using emit_frame_sends [where burst = burst and capped = capped and now = now, OF assms(1-4) src assms(6-11)]
    by blast
  have pay: "\<exists>d. wire_payload pk src p = Some d \<and> length d + kL2L3L4Hdr < 65536" if p: "p \<in> set ps" for p
  proof -
    have wf: "srds_wf (pk_fmt pk) (pk_max_payload pk) (pp_srd p) (pp_payload_len p)" using plans(1) p by simp
    then have "unat (pp_payload_len p) \<le> unat (pk_max_payload pk)" by (simp add: srds_wf_def word_le_nat_alt)
    moreover obtain d where "wire_payload pk src p = Some d" "length d = unat (pp_payload_len p)"
      by (rule write_payload_wire [OF wf src])
    ultimately show ?thesis using assms(6) by auto
  qed
  let ?ds = "map (\<lambda>p. the (wire_payload pk src p)) ps"
  have "list_all2 (\<lambda>d m. carries_payload cksum b d m \<and> length d + kL2L3L4Hdr < 65536) ?ds ms"
    unfolding list_all2_map1 by (rule list.rel_mono_strong [OF sent(2)]) (use pay in fastforce)
  moreover have "length (tb_dst_mac b) = 6" "length (tb_src_mac b) = 6"
    using assms(7) by (auto simp: hdr_cache_ok_def)
  ultimately obtain out where out: "classify x (map (wire fl ts) ms) = Some (out, [])"
    "list_all2 (\<lambda>d (pkt, m). rp_payload pkt = d \<and> rp_len pkt = length d \<and> \<not> rp_is_audio pkt) ?ds out"
    using wire_classified [where fl = fl and ts = ts, OF _ _ _ assms(12)] by blast
  let ?pkts = "map (\<lambda>(pkt, m). (pkt, t)) out"
  have "list_all2 (carries pk src) ps ?pkts"
    unfolding list_all2_map2
    by (rule list.rel_mono_strong [OF out(2) [unfolded list_all2_map1]])
      (use pay in \<open>fastforce simp: carries_def split: prod.splits\<close>)
  then have car: "list_all2 (carries pk src) (butlast ps @ [last ps]) ?pkts" using plans(4) by simp
  from rx_frame_published [OF assms(1,2,4) last_marked_unique [OF walk] assms(5,13-17) car]
  show ?thesis using sent(1) out(1) by blast
qed

lemma tiny_pk_budget: "pk_max_payload tiny_pk = 40" by (simp add: tiny_pk_def mk_packetizer_def)

definition tiny_tx :: tx_op where
  "tiny_tx = (tx_op_new default_tx_params)\<lparr>to_pktz := Some tiny_pk, to_schedule_base_ns := 1000000\<rparr>"

theorem loopback_end_to_end_witness:
  "\<exists>sent s' b' out r' f.
    emit_frame (\<lambda>h. 0) (\<lambda>c k. 1) (replicate 100 (Some (replicate 2048 0))) (\<lambda>i. False) 0 (replicate 20 9) tiny_tx
      (tx_backend_new\<lparr>tb_udp_port_be := 7\<rparr>) = Some (Inr (sent, [], s', b')) \<and>
    classify (rx_backend_new\<lparr>xb_udp_port_be := 7\<rparr>) (map (wire 0 0) sent) = Some (out, []) \<and>
    rx_run (polls (map (\<lambda>(pkt, m). (pkt, 2000)) out)) tiny_rx = Some ([], r') \<and>
    rx_frame_q r' = [f] \<and> rx_bufs r' ! rf_buf f = replicate 20 9"
proof -
  let ?b = "tx_backend_new\<lparr>tb_udp_port_be := 7\<rparr>" and ?rtp = "fst (media_stamp (to_schedule_base_ns tiny_tx) tiny_tx)"
  let ?rooms = "replicate 100 (Some (replicate 2048 (0 :: u8)))"
  have p: "to_pktz tiny_tx = Some tiny_pk" by (simp add: tiny_tx_def)
  obtain ps pk' where d: "pk_drain (start_frame ?rtp tiny_pk) = Some (ps, pk')" "walk_ok (start_frame ?rtp tiny_pk) ps pk'"
    using start_frame_drain(1) [OF tiny_pk_ok(1,2), of ?rtp] by blast
  have "\<forall>p\<in>set ps. srds_wf (pk_fmt tiny_pk) (pk_max_payload tiny_pk) (pp_srd p) (pp_payload_len p)"
    using frame_plans(1) [OF d(2)] by simp
  from packets_le_octets [OF this] have n: "length ps \<le> 20"
    using d(2) tiny_pk_ok(3) by (simp add: walk_ok_def start_frame_def cur_pos_def pk_cursor_def unat_octets_per_frame)
  have "\<exists>sent s' b' out r' f.
    emit_frame (\<lambda>h. 0) (\<lambda>c k. 1) ?rooms (\<lambda>i. False) 0 (replicate 20 9) tiny_tx ?b = Some (Inr (sent, [], s', b')) \<and>
    classify (rx_backend_new\<lparr>xb_udp_port_be := 7\<rparr>) (map (wire 0 0) sent) = Some (out, []) \<and>
    rx_run (polls (map (\<lambda>(pkt, m). (pkt, 2000)) out)) tiny_rx = Some ([], r') \<and>
    rx_frame_q r' = rx_frame_q tiny_rx @ [f] \<and> rx_bufs r' ! rf_buf f = replicate 20 9"
    by (intro loopback_end_to_end [OF tiny_pk_ok(1,2) p d(1)])
      (use n in \<open>simp_all add: tiny_pk_ok(3) tiny_rx_facts rx_running_wf tx_backend_new_def rx_backend_new_def hdr_cache_ok_def
        video_match_def kL2L3L4Hdr_def tiny_pk_budget\<close>)
  then show ?thesis by (simp add: tiny_rx_facts)
qed

section \<open>Audio, from the receive operator to the relay\<close>

text \<open>The stamp an unwrapped capture time is the start of, for a reference past the first \<open>2 ^ 31\<close> ticks of
  its clock.\<close>

lemma unwrap_tick:
  assumes "0 < unat r" "unat r \<le> 1000000000" "2 ^ 31 * 1000000000 \<le> unat near * unat r" "unat near < 2 ^ 62"
  obtains T where "of_nat T = (ts :: u32)" "unat (rtp_unwrap_ns ts r near) = T * 1000000000 div unat r"
    "unat (rtp_unwrap_ns ts r near) \<le> unat near + 2 ^ 31 * 1000000000"
proof -
  let ?N = "1000000000 :: nat" and ?n = "rtp_ticks_abs near r"
  define tk where "tk = rtp_unwrap_ticks ts ?n"
  have n: "unat ?n = unat near * unat r div ?N" by (rule unat_rtp_ticks_abs [OF assms(2)])
  have nlo: "2 ^ 31 \<le> unat ?n" using div_le_mono [OF assms(3), of ?N] by (simp add: n)
  have nN: "unat ?n * ?N \<le> unat near * unat r" by (simp add: n)
  have hi: "unat tk \<le> unat ?n + 2 ^ 31"
  proof -
    let ?b = "sint (rtp_unwrap_back ts ?n)"
    have b: "- (2 ^ 31) \<le> ?b" "?b < 2 ^ 31"
      using sint_greater_eq [of "rtp_unwrap_back ts ?n"] sint_less [of "rtp_unwrap_back ts ?n"] by simp_all
    have u: "int (unat ?n) = uint ?n" "int (unat tk) = uint tk" by simp_all
    have "int (2 ^ 31) \<le> int (unat ?n)" using nlo by (simp only: of_nat_le_iff)
    then have lo: "2 ^ 31 \<le> uint ?n" unfolding u by simp
    have "unat near * unat r div ?N \<le> unat near * ?N div ?N"
      using assms(2) by (intro div_le_mono mult_le_mono) simp_all
    then have "unat ?n < 2 ^ 62" using assms(4) n by simp
    then have "int (unat ?n) < int (2 ^ 62)" by (simp only: of_nat_less_iff)
    then have up: "uint ?n < 2 ^ 62" unfolding u by simp
    have "tk = word_of_int (uint ?n) - word_of_int ?b"
      by (simp only: tk_def rtp_unwrap_ticks_def scast_eq word_of_int_uint)
    then have "tk = word_of_int (uint ?n - ?b)" by (simp only: of_int_diff)
    then have "uint tk = (uint ?n - ?b) mod 2 ^ 64" by (simp only: uint_word_of_int) simp
    also have "\<dots> = uint ?n - ?b"
    proof (rule mod_pos_pos_trivial)
      show "0 \<le> uint ?n - ?b" using b(2) lo by linarith
      have "uint ?n - ?b < 2 ^ 62 + 2 ^ 31 + 1" using b(1) up by linarith
      then show "uint ?n - ?b < 2 ^ 64" by simp
    qed
    finally have "int (unat tk) \<le> int (unat ?n) + 2 ^ 31" unfolding u using b by linarith
    then have "int (unat tk) \<le> int (unat ?n + 2 ^ 31)" by simp
    then show ?thesis by (simp only: of_nat_le_iff)
  qed
  have "(unat tk * ?N) div unat r \<le> (unat near * unat r + 2 ^ 31 * ?N) div unat r"
    using hi nN by (intro div_le_mono) (simp add: algebra_simps)
  also have "\<dots> = unat near + 2 ^ 31 * ?N div unat r" using assms(1) by simp
  also have "\<dots> \<le> unat near + 2 ^ 31 * ?N" by simp
  finally have top: "(unat tk * ?N) div unat r \<le> unat near + 2 ^ 31 * ?N" .
  then have fits: "(unat tk * ?N) div unat r < 2 ^ 64" using assms(4) by simp
  have prod: "unat (ucast tk * 1000000000 :: 128 word) = unat tk * ?N"
  proof -
    have "unat (ucast tk :: 128 word) * unat (1000000000 :: 128 word) < 2 ^ LENGTH(128)"
      using unat_u64_less [of tk] by (simp add: unat_ucast_up del: unat_u64_less)
    then show ?thesis by (subst unat_mult_noov) (assumption, simp add: unat_ucast_up)
  qed
  have ur: "unat (ucast r :: 128 word) = unat r" by (rule unat_ucast_up) simp
  have "unat (rtp_unwrap_ns ts r near) = unat tk * ?N div unat r"
    using fits by (simp add: rtp_unwrap_ns_def Let_def tk_def [symmetric] unat_ucast_mod [where 'a = 128] unat_div prod ur)
  moreover have "of_nat (unat tk) = ts"
    using rtp_unwrap_ticks_congruent [of ts ?n] by (simp add: tk_def)
  ultimately show thesis using that [of "unat tk"] top by simp
qed

lemma epoch_guard_unwraps:
  "epoch_guard k rate delta ts ref = (cap, d, b) \<Longrightarrow> cap = rtp_unwrap_ns (ts + d) rate ref"
  by (auto simp: epoch_guard_def Let_def split: if_splits)

lemma audio_ingest_pushes:
  assumes "audio_ingest pkt t s = Some s'" "br_q (rx_bridge s') = br_q (rx_bridge s) @ [bp]"
  obtains "12 \<le> rp_len pkt" "rp_len pkt \<le> length (rp_payload pkt)" "bp_rtp bp = take (rp_len pkt) (rp_payload pkt)"
    "epoch_guard 500000000 (rx_audio_rate s) (rx_audio_ts_delta s)
       (rd32 (bp_rtp bp ! 4) (bp_rtp bp ! 5) (bp_rtp bp ! 6) (bp_rtp bp ! 7)) (rp_ref pkt t) =
     (bp_capture_ns bp, bp_ts_delta bp, rx_audio_relatch s' \<noteq> rx_audio_relatch s)"
proof -
  let ?h = "rp_payload pkt" and ?s = "take (rp_len pkt) (rp_payload pkt)"
  have len: "12 \<le> rp_len pkt" "rp_len pkt \<le> length ?h"
    and r: "s' = audio_relay ?s (rd32 (?h ! 4) (?h ! 5) (?h ! 6) (?h ! 7)) (rp_ref pkt t) s"
    using assms by (auto simp: audio_ingest_def mem_read_def split: if_splits bind_splits)
  obtain cap d rl where g: "epoch_guard 500000000 (rx_audio_rate s) (rx_audio_ts_delta s)
      (rd32 (?h ! 4) (?h ! 5) (?h ! 6) (?h ! 7)) (rp_ref pkt t) = (cap, d, rl)"
    by (rule prod_cases3)
  have bp: "bp = \<lparr>bp_rtp = ?s, bp_capture_ns = cap, bp_ts_delta = d\<rparr>"
    using assms(2) by (auto simp: r audio_relay_def g bridge_push_def Let_def split: if_splits)
  have rl: "(rx_audio_relatch s' \<noteq> rx_audio_relatch s) = rl"
    by (auto simp: r audio_relay_def g bridge_push_def Let_def)
  have "?s ! i = ?h ! i" if "i < 12" for i using that len by simp
  then show thesis using that len g by (simp add: bp rl)
qed

lemma capture_bound: "a \<le> b + 2 ^ 31 * 1000000000 \<Longrightarrow> b < 2 ^ 62 \<Longrightarrow> a < (2 :: nat) ^ 63"
  by simp

text \<open>The difference the guard takes of two \<open>int64_t\<close> is the exact one: neither operand reaches \<open>2 ^ 63\<close>.\<close>

lemma capture_error_fits:
  assumes "0 < unat r" "unat r \<le> 1000000000" "2 ^ 31 * 1000000000 \<le> unat near * unat r" "unat near < 2 ^ 62"
  shows "unat (rtp_unwrap_ns ts r near) < 2 ^ 63 \<and> \<bar>stamp_err (rtp_unwrap_ns ts r near) near\<bar> < 2 ^ 63"
proof -
  have c: "unat (rtp_unwrap_ns ts r near) < 2 ^ 63"
    using unwrap_tick [OF assms(1-4), of ts] assms(4) by (metis (no_types, lifting) capture_bound)
  have n: "unat near < 2 ^ 63" using assms(4) by simp
  have "int (unat (rtp_unwrap_ns ts r near)) < int (2 ^ 63)" "int (unat near) < int (2 ^ 63)"
    using c n by (simp_all only: of_nat_less_iff)
  then have "\<bar>int (unat (rtp_unwrap_ns ts r near)) - int (unat near)\<bar> < int (2 ^ 63)" by linarith
  then show ?thesis using c unfolding stamp_err_def sint_small_u64 [OF c] sint_small_u64 [OF n] by simp
qed

text \<open>C36 - Audio keeps lip-sync with video across the process: a packet the receive operator takes over gets a
  capture time within half a second of its arrival, whatever its sender stamps; the transmit side
  sends it at exactly that time plus the video latency plus the configured offset, at once when that has
  passed by 50 ms or less, and drops it when it is later than that; a relayed packet keeps every byte but
  its timestamp, and that becomes the tick of the instant the packet was due at, or the next tick.
  This is for a shift (latency plus offset) that is not negative, the same audio rate on both sides, and a
  reference clock past its first \<open>2 ^ 31\<close> ticks.\<close>
theorem audio_lip_sync:
  assumes "audio_ingest pkt t s = Some s'" "br_q (rx_bridge s') = br_q (rx_bridge s) @ [bp]"
    and "rx_audio_rate s = tp_audio_rate p" "3 \<le> unat (tp_audio_rate p)" "unat (tp_audio_rate p) \<le> 1000000000"
    and "2 ^ 31 * 1000000000 \<le> unat (rp_ref pkt t) * unat (tp_audio_rate p)" "unat (rp_ref pkt t) < 2 ^ 61"
    and "int (unat (tp_latency_ns p)) + tp_av_offset_ns p = int k" "unat (tp_latency_ns p) < 2 ^ 63" "k < 2 ^ 61"
    and "unat now < 2 ^ 63"
  shows "\<bar>stamp_err (bp_capture_ns bp) (rp_ref pkt t)\<bar> \<le> 500000000 \<and>
    bp_rtp bp = take (rp_len pkt) (rp_payload pkt) \<and>
    (let due = unat (bp_capture_ns bp) + k in
     if due + 50000000 < unat now then audio_relay_packet p now bp = (Dropped, False)
     else \<exists>ts. audio_relay_packet p now bp =
        (Relayed (take 4 (bp_rtp bp) @ be32 ts @ drop 8 (bp_rtp bp)) (if due \<le> unat now then 0 else of_nat due),
         due \<le> unat now) \<and>
      (ts = ucast (rtp_ticks_abs (of_nat due) (tp_audio_rate p)) \<or>
       ts = ucast (rtp_ticks_abs (of_nat due) (tp_audio_rate p)) + 1))"
proof -
  let ?r = "tp_audio_rate p" and ?ref = "rp_ref pkt t"
  let ?ts = "rd32 (bp_rtp bp ! 4) (bp_rtp bp ! 5) (bp_rtp bp ! 6) (bp_rtp bp ! 7)"
  obtain len: "12 \<le> rp_len pkt" "rp_len pkt \<le> length (rp_payload pkt)" "bp_rtp bp = take (rp_len pkt) (rp_payload pkt)"
    and g: "epoch_guard 500000000 ?r (rx_audio_ts_delta s) ?ts ?ref =
      (bp_capture_ns bp, bp_ts_delta bp, rx_audio_relatch s' \<noteq> rx_audio_relatch s)"
    using audio_ingest_pushes [OF assms(1,2)] assms(3) by metis
  have r0: "0 < unat ?r" using assms(4) by simp
  have ref: "unat ?ref < 2 ^ 63" "unat ?ref < 2 ^ 62" using assms(7) by simp_all
  have "int 3 \<le> int (unat ?r)" using assms(4) by (simp only: of_nat_le_iff)
  then have slack: "1000000000 + int (unat ?r) \<le> 500000000 * int (unat ?r)" by linarith
  have sane: "\<bar>stamp_err (bp_capture_ns bp) ?ref\<bar> \<le> 500000000" by (rule epoch_guard_sane [OF r0 assms(5) ref(1) slack g])
  obtain T where T: "of_nat T = ?ts + bp_ts_delta bp" "unat (bp_capture_ns bp) = T * 1000000000 div unat ?r"
    "unat (bp_capture_ns bp) \<le> unat ?ref + 2 ^ 31 * 1000000000"
    using unwrap_tick [OF r0 assms(5,6) ref(2), of "?ts + bp_ts_delta bp"] epoch_guard_unwraps [OF g] by metis
  have due: "unat (bp_capture_ns bp) + k < 2 ^ 63" using T(3) assms(7,10) by simp
  have "12 \<le> length (bp_rtp bp)" using len by simp
  from audio_relay_exact [OF this assms(8,9) due assms(11) r0 assms(5) T(1) [symmetric] T(2)] sane len(3)
  show ?thesis unfolding Let_def by blast
qed

theorem audio_lip_sync_witness:
  "\<exists>s' bp x. audio_ingest \<lparr>rp_payload = [0x80, 97, 0, 1, 0, 0, 0, 48, 0, 0, 0, 9], rp_len = 12, rp_hw_timestamp_ns = 0,
       rp_has_timestamp = False, rp_is_audio = True\<rparr> 1790000000000000000 (rx_start default_rx_params 0 False) = Some s' \<and>
     br_q (rx_bridge s') = [bp] \<and> \<bar>stamp_err (bp_capture_ns bp) 1790000000000000000\<bar> \<le> 500000000 \<and>
     audio_relay_packet (default_tx_params\<lparr>tp_latency_ns := 100000000\<rparr>) 0 bp =
       (Relayed x (of_nat (unat (bp_capture_ns bp) + 100000000)), False)"
proof -
  let ?pkt = "\<lparr>rp_payload = [0x80, 97, 0, 1, 0, 0, 0, 48, 0, 0, 0, 9 :: u8], rp_len = 12, rp_hw_timestamp_ns = 0,
       rp_has_timestamp = False, rp_is_audio = True\<rparr>"
  let ?s = "rx_start default_rx_params 0 False" and ?p = "default_tx_params\<lparr>tp_latency_ns := 100000000\<rparr>"
  obtain cap d rl where g: "epoch_guard 500000000 (rx_audio_rate ?s) (rx_audio_ts_delta ?s) (rd32 0 0 0 48)
      1790000000000000000 = (cap, d, rl)"
    by (rule prod_cases3)
  have ref: "rp_ref ?pkt 1790000000000000000 = 1790000000000000000" by (simp add: rp_ref_def)
  obtain s' bp where i: "audio_ingest ?pkt 1790000000000000000 ?s = Some s'" "br_q (rx_bridge s') = br_q (rx_bridge ?s) @ [bp]"
    using g ref by (simp add: audio_ingest_def mem_read_def audio_relay_def bridge_push_def rx_start_def bridge_init_def
        kBridgeCap_def Let_def)
  have rates: "rx_audio_rate ?s = tp_audio_rate ?p" "tp_audio_rate ?p = 48000" "tp_latency_ns ?p = 100000000"
    "tp_av_offset_ns ?p = 0" "br_q (rx_bridge ?s) = []"
    by (simp_all add: rx_start_def default_rx_params_def default_tx_params_def bridge_init_def)
  from audio_lip_sync [OF i rates(1), of 100000000 0] show ?thesis
    using i by (auto simp: rates ref Let_def)
qed

end
