(* ===== verification/Audio_Ops.thy ===== *)
theory Audio_Ops
  imports Audio_St2110 Rx_Types
begin

text \<open>
  The audio operators of \<open>engine/operators/audio\<close>: receive (\<open>audio_rx.cpp\<close>), lip-sync delay
  (\<open>audio_delay.cpp\<close>) and transmit (\<open>audio_tx.cpp\<close>).  The receive operator's buffers are shared
  pointers: the state holds the buffer contents by address, and a queued block names its buffer, so
  that reuse of a buffer that is still queued is visible.
\<close>

section \<open>Receive\<close>

record audio_block =
  ab_pcm :: nat
  ab_format :: audio_format
  ab_capture_ts_ns :: u64
  ab_rtp_timestamp :: u32

record audio_rx =
  ar_fmt :: audio_format
  ar_bufs :: "bytes list"
  ar_buf_idx :: nat
  ar_q :: "audio_block list"
  ar_packets :: u64
  ar_dropped :: u64

definition audio_rx_format :: "u32 \<Rightarrow> u32 \<Rightarrow> rat \<Rightarrow> audio_format" where
  "audio_rx_format channels bit_depth packet_time_ms =
     \<lparr>af_sample_rate = 48000, af_channels = ucast channels,
      af_encoding = (if bit_depth = 16 then L16 else L24), af_packet_time_ms = packet_time_ms\<rparr>"

definition audio_rx_start :: "audio_format \<Rightarrow> audio_rx" where
  "audio_rx_start fmt =
     \<lparr>ar_fmt = fmt, ar_bufs = [], ar_buf_idx = 0, ar_q = [], ar_packets = 0, ar_dropped = 0\<rparr>"

definition kAudioRing :: nat where "kAudioRing = 64"
definition kAudioMaxQ :: nat where "kAudioMaxQ = 256"

definition audio_next_buffer :: "audio_rx \<Rightarrow> (nat \<times> audio_rx) option" where
  "audio_next_buffer s = do {
     s1 \<leftarrow> (if ar_bufs s = [] then
              map_option (\<lambda>n. s\<lparr>ar_bufs := replicate kAudioRing (replicate (unat n) 0)\<rparr>) (packet_payload_bytes (ar_fmt s))
            else Some s);
     Some (ar_buf_idx s1, s1\<lparr>ar_buf_idx := (ar_buf_idx s1 + 1) mod length (ar_bufs s1)\<rparr>)
   }"

definition audio_enqueue :: "audio_block \<Rightarrow> audio_rx \<Rightarrow> bool \<times> audio_rx" where
  "audio_enqueue blk s =
     (if length (ar_q s) < kAudioMaxQ then (True, s\<lparr>ar_q := ar_q s @ [blk]\<rparr>)
      else (False, s\<lparr>ar_dropped := ar_dropped s + 1\<rparr>))"

text \<open>One packet of the poll loop; \<open>None\<close> is an access outside a buffer.\<close>

definition audio_rx_packet :: "u64 \<Rightarrow> rx_packet \<Rightarrow> audio_rx \<Rightarrow> audio_rx option" where
  "audio_rx_packet now pkt s = do {
     r \<leftarrow> audio_parse (ar_fmt s) (rp_payload pkt) (rp_len pkt);
     case r of
       None \<Rightarrow> Some s
     | Some info \<Rightarrow> do {
         (a, s1) \<leftarrow> audio_next_buffer s;
         let buf = ar_bufs s1 ! a;
         let n = (if ai_pcm_len info < length buf then ai_pcm_len info else length buf);
         px \<leftarrow> mem_read (rp_payload pkt) (ai_data_offset info) n;
         buf' \<leftarrow> mem_write buf 0 px;
         let s2 = s1\<lparr>ar_bufs := (ar_bufs s1)[a := buf'], ar_packets := ar_packets s1 + 1\<rparr>;
         let blk = \<lparr>ab_pcm = a, ab_format = ar_fmt s, ab_capture_ts_ns = rp_ref pkt now,
                    ab_rtp_timestamp = ai_rtp_timestamp info\<rparr>;
         Some (snd (audio_enqueue blk s2))
       }
   }"

fun audio_rx_burst :: "u64 \<Rightarrow> rx_packet list \<Rightarrow> audio_rx \<Rightarrow> audio_rx option" where
  "audio_rx_burst now [] s = Some s"
| "audio_rx_burst now (p # ps) s = do { s' \<leftarrow> audio_rx_packet now p s; audio_rx_burst now ps s' }"

definition audio_rx_compute :: "audio_rx \<Rightarrow> audio_block option \<times> audio_rx" where
  "audio_rx_compute s =
     (case ar_q s of [] \<Rightarrow> (None, s) | b # bs \<Rightarrow> (Some b, s\<lparr>ar_q := bs\<rparr>))"

interpretation arxq: bounded_queue ar_q audio_enqueue audio_rx_compute "\<lambda>_. kAudioMaxQ"
  by unfold_locales (auto simp: audio_enqueue_def audio_rx_compute_def)

section \<open>Delay\<close>

text \<open>\<open>std::lround\<close>: halves away from zero.\<close>

definition lround :: "rat \<Rightarrow> int" where
  "lround q = (if q < 0 then - \<lfloor>- q + 1 / 2\<rfloor> else \<lfloor>q + 1 / 2\<rfloor>)"

definition delay_blocks_of :: "rat \<Rightarrow> audio_format \<Rightarrow> u64" where
  "delay_blocks_of delay_ms fmt =
     (let ptime = (if af_packet_time_ms fmt > 0 then af_packet_time_ms fmt else 1)
      in of_int (lround (dbl (delay_ms / ptime))))"

text \<open>The operator's state is its delay line, absent until the first block arrives.\<close>

definition audio_delay_compute ::
  "rat \<Rightarrow> audio_block \<Rightarrow> audio_block delay_line option \<Rightarrow> audio_block option \<times> audio_block delay_line option" where
  "audio_delay_compute delay_ms blk line =
     (let l = (case line of Some l \<Rightarrow> l
               | None \<Rightarrow> \<lparr>dl_delay_blocks = unat (delay_blocks_of delay_ms (ab_format blk)), dl_q = []\<rparr>);
          (out, l') = delay_push blk l
      in (out, Some l'))"

section \<open>Transmit\<close>

record audio_tx =
  at_pktz :: "audio_packetizer option"
  at_packet_time_ns :: u64
  at_schedule_base_ns :: u64
  at_packets_sent :: u64

definition audio_tx_init :: audio_tx where
  "audio_tx_init = \<lparr>at_pktz = None, at_packet_time_ns = 1000000, at_schedule_base_ns = 0, at_packets_sent = 0\<rparr>"

text \<open>\<open>compute\<close> for a block whose PCM bytes are \<open>pcm\<close> at backend time \<open>now\<close>: the payload written
  into the reserved packet and its send time.\<close>

definition audio_tx_compute ::
  "u32 \<Rightarrow> u32 \<Rightarrow> u64 \<Rightarrow> audio_block \<Rightarrow> bytes \<Rightarrow> audio_tx \<Rightarrow> (bytes \<times> u64 \<times> audio_tx) option" where
  "audio_tx_compute ssrc pacing_horizon_ns now blk pcm s = do {
     s1 \<leftarrow> (case at_pktz s of Some _ \<Rightarrow> Some s
             | None \<Rightarrow> map_option (\<lambda>ns. s\<lparr>at_pktz := Some \<lparr>ap_fmt = ab_format blk, ap_pt = 97, ap_ssrc = ssrc, ap_seq = 0\<rparr>,
                                              at_packet_time_ns := of_nat ns\<rparr>)
                        (to_unsigned 64 (dbl (af_packet_time_ms (ab_format blk) * 1000000))));
     let s2 = (if at_schedule_base_ns s1 = 0 \<or> now > at_schedule_base_ns s1
               then s1\<lparr>at_schedule_base_ns := now + ucast pacing_horizon_ns\<rparr> else s1);
     let send_ts = at_schedule_base_ns s2;
     let s3 = s2\<lparr>at_schedule_base_ns := send_ts + at_packet_time_ns s2\<rparr>;
     n \<leftarrow> packet_payload_bytes (ab_format blk);
     let payload_len = kRtpHeaderBytes + unat n;
     (payload, _, pk) \<leftarrow> write_packet (ab_rtp_timestamp blk) pcm (replicate payload_len 0)
                            (the (at_pktz s3));
     Some (payload, send_ts, s3\<lparr>at_pktz := Some pk, at_packets_sent := at_packets_sent s3 + 1\<rparr>)
   }"

section \<open>Properties\<close>

lemma audio_parse_safe: "rp_wf pkt \<Longrightarrow> \<exists>r. audio_parse f (rp_payload pkt) (rp_len pkt) = Some r"
  by (auto simp: audio_parse_def rp_wf_def kRtpHeaderBytes_def mem_read_Some Let_def)

lemma audio_parse_bound:
  "audio_parse f p len = Some (Some info) \<Longrightarrow> ai_data_offset info + ai_pcm_len info = len"
  by (auto simp: audio_parse_def Let_def split: if_splits bind_splits)

definition audio_rx_wf :: "audio_rx \<Rightarrow> bool" where
  "audio_rx_wf s \<longleftrightarrow>
     (ar_bufs s = [] \<and> ar_buf_idx s = 0 \<or> length (ar_bufs s) = kAudioRing) \<and> ar_buf_idx s < kAudioRing \<and>
     length (ar_q s) \<le> kAudioMaxQ \<and> packet_payload_bytes (ar_fmt s) \<noteq> None"

lemma audio_rx_start_wf: "packet_payload_bytes fmt \<noteq> None \<Longrightarrow> audio_rx_wf (audio_rx_start fmt)"
  by (simp add: audio_rx_wf_def audio_rx_start_def kAudioRing_def)

lemma audio_next_buffer_ok:
  assumes "audio_rx_wf s"
  obtains a s1 where "audio_next_buffer s = Some (a, s1)"
  using assms by (fastforce simp: audio_next_buffer_def audio_rx_wf_def)

lemma audio_next_buffer_wf:
  assumes "audio_rx_wf s" "audio_next_buffer s = Some (a, s1)"
  shows "length (ar_bufs s1) = kAudioRing" "a = ar_buf_idx s" "a < kAudioRing"
    "ar_buf_idx s1 = (a + 1) mod kAudioRing" "ar_q s1 = ar_q s" "ar_fmt s1 = ar_fmt s"
  using assms by (auto simp: audio_next_buffer_def audio_rx_wf_def Let_def kAudioRing_def split: if_splits)

text \<open>Packets accepted, less those queued and those dropped: what has been handed on.\<close>

definition audio_balance :: "audio_rx \<Rightarrow> u64" where
  "audio_balance s = ar_packets s - of_nat (length (ar_q s)) - ar_dropped s"

lemma audio_rx_packet_ok:
  assumes "audio_rx_wf s" "rp_wf pkt"
  shows "\<exists>s'. audio_rx_packet now pkt s = Some s' \<and> audio_rx_wf s' \<and> ar_fmt s' = ar_fmt s \<and>
    audio_balance s' = audio_balance s"
proof -
  obtain r where r: "audio_parse (ar_fmt s) (rp_payload pkt) (rp_len pkt) = Some r"
    using audio_parse_safe [OF assms(2)] by blast
  show ?thesis
  proof (cases r)
    case None
    then show ?thesis using r assms(1) by (simp add: audio_rx_packet_def)
  next
    case (Some info)
    obtain a s1 where nb: "audio_next_buffer s = Some (a, s1)" by (rule audio_next_buffer_ok [OF assms(1)])
    note wf = audio_next_buffer_wf [OF assms(1) nb]
    let ?n = "if ai_pcm_len info < length (ar_bufs s1 ! a) then ai_pcm_len info else length (ar_bufs s1 ! a)"
    have "ai_data_offset info + ?n \<le> length (rp_payload pkt)"
      using audio_parse_bound [of "ar_fmt s"] r Some assms(2) by (fastforce simp: rp_wf_def)
    then obtain px where px: "mem_read (rp_payload pkt) (ai_data_offset info) ?n = Some px" "length px = ?n"
      by (simp add: mem_read_Some)
    moreover have "?n \<le> length (ar_bufs s1 ! a)" by simp
    ultimately obtain buf' where "mem_write (ar_bufs s1 ! a) 0 px = Some buf'"
      using mem_write_Some_ex [of 0 px "ar_bufs s1 ! a"] by auto
    moreover have "audio_balance s1 = audio_balance s"
      using nb by (auto simp: audio_next_buffer_def audio_balance_def Option.bind_eq_Some_conv split: if_splits)
    ultimately show ?thesis
      using r Some nb px(1) wf assms(1) by (auto simp: audio_balance_def audio_rx_packet_def Let_def audio_enqueue_def audio_rx_wf_def kAudioRing_def kAudioMaxQ_def)
  qed
qed

lemma audio_rx_burst_ok:
  "audio_rx_wf s \<Longrightarrow> \<forall>p\<in>set ps. rp_wf p \<Longrightarrow>
   \<exists>s'. audio_rx_burst now ps s = Some s' \<and> audio_rx_wf s' \<and> ar_fmt s' = ar_fmt s \<and> audio_balance s' = audio_balance s"
proof (induction ps arbitrary: s)
  case (Cons p ps)
  obtain s1 where s1: "audio_rx_packet now p s = Some s1" "audio_rx_wf s1" "ar_fmt s1 = ar_fmt s"
    "audio_balance s1 = audio_balance s"
    using audio_rx_packet_ok [OF Cons.prems(1), of p now] Cons.prems(2) by auto
  then show ?case using Cons.IH [OF s1(2)] Cons.prems(2) by auto
qed simp

text \<open>The operator at work: the poll thread's bursts and the pipeline's \<open>compute\<close> calls, in any order.\<close>

datatype audio_event = Burst u64 "rx_packet list" | Take

fun audio_rx_run :: "audio_event list \<Rightarrow> audio_rx \<Rightarrow> (audio_block list \<times> audio_rx) option" where
  "audio_rx_run [] s = Some ([], s)"
| "audio_rx_run (Burst now ps # es) s = do { s1 \<leftarrow> audio_rx_burst now ps s; audio_rx_run es s1 }"
| "audio_rx_run (Take # es) s = do {
     let (b, s1) = audio_rx_compute s;
     (out, s2) \<leftarrow> audio_rx_run es s1;
     Some ((case b of None \<Rightarrow> out | Some b \<Rightarrow> b # out), s2)
   }"

definition audio_event_wf :: "audio_event \<Rightarrow> bool" where
  "audio_event_wf e \<longleftrightarrow> (case e of Burst now ps \<Rightarrow> \<forall>p\<in>set ps. rp_wf p | Take \<Rightarrow> True)"

lemma audio_rx_run_ok:
  "audio_rx_wf s \<Longrightarrow> \<forall>e\<in>set es. audio_event_wf e \<Longrightarrow>
   \<exists>out s'. audio_rx_run es s = Some (out, s') \<and> audio_rx_wf s' \<and> audio_balance s' = audio_balance s + of_nat (length out)"
proof (induction es arbitrary: s)
  case (Cons e es)
  show ?case
  proof (cases e)
    case (Burst now ps)
    then obtain s1 where "audio_rx_burst now ps s = Some s1" "audio_rx_wf s1" "audio_balance s1 = audio_balance s"
      using audio_rx_burst_ok [OF Cons.prems(1), of ps now] Cons.prems(2) by (auto simp: audio_event_wf_def)
    then show ?thesis using Cons.IH [of s1] Cons.prems(2) Burst by auto
  next
    case Take
    obtain b s1 where c: "audio_rx_compute s = (b, s1)" by (cases "audio_rx_compute s")
    then have "audio_rx_wf s1" "audio_balance s1 = audio_balance s + (case b of None \<Rightarrow> 0 | Some _ \<Rightarrow> 1)"
      using Cons.prems(1) by (auto simp: audio_rx_compute_def audio_rx_wf_def audio_balance_def split: list.splits)
    then show ?thesis using Cons.IH [of s1] Cons.prems(2) Take c by (cases b) (auto simp: algebra_simps)
  qed
qed simp

text \<open>C40 - The audio receive operator from its start, under any sequence of packet bursts and \<open>compute\<close> calls in
  which each packet's announced length lies inside its mbuf (which the backend does not check), for a format whose
  packet size is in range: it accesses memory only inside the packets and its 64 ring buffers, never queues more than 256 blocks,
  and every packet it accepts is handed on, still queued or counted as dropped.\<close>
theorem audio_rx_safe:
  assumes "\<forall>e\<in>set es. audio_event_wf e" "packet_payload_bytes fmt \<noteq> None"
  shows "\<exists>out s. audio_rx_run es (audio_rx_start fmt) = Some (out, s) \<and> length (ar_q s) \<le> kAudioMaxQ \<and>
    (ar_bufs s = [] \<or> length (ar_bufs s) = kAudioRing) \<and>
    ar_packets s = of_nat (length out) + of_nat (length (ar_q s)) + ar_dropped s"
proof -
  note wf = audio_rx_start_wf [OF assms(2)]
  have b0: "audio_balance (audio_rx_start fmt) = 0" by (simp add: audio_rx_start_def audio_balance_def)
  obtain out s where r: "audio_rx_run es (audio_rx_start fmt) = Some (out, s)" "audio_rx_wf s"
    "audio_balance s = of_nat (length out)"
    using audio_rx_run_ok [OF wf assms(1)] b0 by auto
  then have "ar_packets s = of_nat (length out) + of_nat (length (ar_q s)) + ar_dropped s"
    by (simp add: audio_balance_def algebra_simps)
  with r show ?thesis by (auto simp: audio_rx_wf_def)
qed

lemma stereo_packet_bytes: "packet_payload_bytes audio_stereo_l24 \<noteq> None"
proof -
  have d: "dbl 48000 = 48000" "dbl 48 = 48" using dbl_of_nat [of 48000] dbl_of_nat [of 48] by simp_all
  have "\<bar>dbl (97 / 2) - 97 / 2\<bar> \<le> 1" by (rule order_trans [OF dbl_error]) simp_all
  then have "- 1 < dbl (97 / 2) \<and> dbl (97 / 2) < 4294967296" unfolding abs_le_iff by linarith
  then show ?thesis
    by (simp add: packet_payload_bytes_def samples_per_packet_def audio_stereo_l24_def d to_unsigned_def)
qed

theorem audio_rx_safe_witness:
  "\<exists>out s. audio_rx_run [Take, Burst 5 [\<lparr>rp_payload = [0x80, 1], rp_len = 2, rp_hw_timestamp_ns = 0,
     rp_has_timestamp = False, rp_is_audio = True\<rparr>], Take] (audio_rx_start audio_stereo_l24) = Some (out, s)"
  using audio_rx_safe [of "[Take, Burst 5 [\<lparr>rp_payload = [0x80, 1], rp_len = 2, rp_hw_timestamp_ns = 0,
     rp_has_timestamp = False, rp_is_audio = True\<rparr>], Take]" audio_stereo_l24]
  by (auto simp: rp_wf_def audio_event_wf_def stereo_packet_bytes)

definition audio_accepted :: "audio_format \<Rightarrow> rx_packet \<Rightarrow> bool" where
  "audio_accepted fmt p \<longleftrightarrow> rp_wf p \<and> (\<exists>info. audio_parse fmt (rp_payload p) (rp_len p) = Some (Some info))"

lemma audio_rx_packet_accepted:
  assumes "audio_rx_wf s" "audio_accepted (ar_fmt s) p" "length (ar_q s) < kAudioMaxQ"
  obtains s' b where "audio_rx_packet now p s = Some s'" "audio_rx_wf s'" "ar_fmt s' = ar_fmt s"
    "ar_q s' = ar_q s @ [b]" "ab_pcm b = ar_buf_idx s" "ar_buf_idx s' = (ar_buf_idx s + 1) mod kAudioRing"
proof -
  obtain s' where s': "audio_rx_packet now p s = Some s'" "audio_rx_wf s'" "ar_fmt s' = ar_fmt s"
    using audio_rx_packet_ok [OF assms(1), of p now] assms(2) by (auto simp: audio_accepted_def)
  obtain info where info: "audio_parse (ar_fmt s) (rp_payload p) (rp_len p) = Some (Some info)"
    using assms(2) by (auto simp: audio_accepted_def)
  obtain a s1 where nb: "audio_next_buffer s = Some (a, s1)" by (rule audio_next_buffer_ok [OF assms(1)])
  note wf = audio_next_buffer_wf [OF assms(1) nb]
  have "ar_q s' = ar_q s @ [\<lparr>ab_pcm = a, ab_format = ar_fmt s, ab_capture_ts_ns = rp_ref p now,
      ab_rtp_timestamp = ai_rtp_timestamp info\<rparr>] \<and> ar_buf_idx s' = (a + 1) mod kAudioRing"
    using s'(1) info nb wf assms(3)
    by (auto simp: audio_rx_packet_def Let_def audio_enqueue_def split: bind_splits)
  with wf(2) that [OF s'] show thesis by auto
qed

lemma audio_rx_burst_slots:
  "audio_rx_wf s \<Longrightarrow> \<forall>p\<in>set ps. audio_accepted (ar_fmt s) p \<Longrightarrow>
   length (ar_q s) + length ps \<le> kAudioMaxQ \<Longrightarrow>
   \<exists>s' bs. audio_rx_burst now ps s = Some s' \<and> ar_q s' = ar_q s @ bs \<and>
     map ab_pcm bs = map (\<lambda>i. (ar_buf_idx s + i) mod kAudioRing) [0..<length ps]"
proof (induction ps arbitrary: s)
  case (Cons p ps)
  have room: "length (ar_q s) < kAudioMaxQ" using Cons.prems(3) by simp
  obtain s1 b where s1: "audio_rx_packet now p s = Some s1" "audio_rx_wf s1" "ar_fmt s1 = ar_fmt s"
    "ar_q s1 = ar_q s @ [b]" "ab_pcm b = ar_buf_idx s" "ar_buf_idx s1 = (ar_buf_idx s + 1) mod kAudioRing"
    using audio_rx_packet_accepted [OF Cons.prems(1) _ room, of p now] Cons.prems(2) by auto
  obtain s' bs where r: "audio_rx_burst now ps s1 = Some s'" "ar_q s' = ar_q s1 @ bs"
    "map ab_pcm bs = map (\<lambda>i. (ar_buf_idx s1 + i) mod kAudioRing) [0..<length ps]"
    using Cons.IH [OF s1(2)] Cons.prems(2,3) s1(3,4) by auto
  have idx: "ar_buf_idx s mod kAudioRing = ar_buf_idx s"
    using Cons.prems(1) by (simp add: audio_rx_wf_def)
  have "map ab_pcm (b # bs) = map (\<lambda>i. (ar_buf_idx s + i) mod kAudioRing) [0..<length (p # ps)]"
  proof -
    have "(ar_buf_idx s1 + i) mod kAudioRing = (ar_buf_idx s + Suc i) mod kAudioRing" for i
      by (simp add: s1(6) mod_add_left_eq)
    then show ?thesis
      using r(3) idx by (simp add: s1(5) upt_conv_Cons map_Suc_upt [symmetric] del: upt_Suc)
  qed
  then show ?case using s1(1,4) r(1,2) by (intro exI [of _ s'] exI [of _ "b # bs"]) simp
qed simp

text \<open>The receive ring is smaller than the queue it feeds: 65 packets with no consumer in between
  leave two queued blocks on one buffer, so the oldest block's samples have been overwritten by
  the newest's before it was ever emitted.\<close>
theorem audio_ring_reuses_queued_buffer:
  assumes "length ps = 65" "\<forall>p\<in>set ps. audio_accepted fmt p" "packet_payload_bytes fmt \<noteq> None"
  shows "\<exists>s. audio_rx_burst now ps (audio_rx_start fmt) = Some s \<and> length (ar_q s) = 65 \<and>
    ab_pcm (ar_q s ! 0) = ab_pcm (ar_q s ! 64)"
proof -
  have "audio_rx_wf (audio_rx_start fmt)" by (rule audio_rx_start_wf [OF assms(3)])
  then obtain s bs where s: "audio_rx_burst now ps (audio_rx_start fmt) = Some s" "ar_q s = bs"
    "map ab_pcm bs = map (\<lambda>i. i mod kAudioRing) [0..<65]"
    using audio_rx_burst_slots [of "audio_rx_start fmt" ps now] assms
    by (auto simp: audio_rx_start_def kAudioMaxQ_def)
  have len: "length bs = 65" using arg_cong [OF s(3), of length] by simp
  have "ab_pcm (bs ! 0) = map ab_pcm bs ! 0" "ab_pcm (bs ! 64) = map ab_pcm bs ! 64"
    using len by simp_all
  then have "ab_pcm (bs ! 0) = ab_pcm (bs ! 64)"
    by (simp only: s(3)) (simp add: kAudioRing_def del: upt_Suc)
  with s len show ?thesis by auto
qed

text \<open>Audio transmit scheduling: no block is scheduled in the past; a block that is not late goes
  out exactly one packet time after its predecessor, a late one (or the first) re-anchors one
  horizon ahead; and the packet carries the block's own timestamp under the next sequence number.\<close>
theorem audio_tx_schedule:
  assumes "audio_tx_compute ssrc horizon now blk pcm s = Some (payload, send_ts, s')"
    and "unat now + unat horizon < 2 ^ 64"
  shows "now \<le> send_ts \<and> at_schedule_base_ns s' = send_ts + at_packet_time_ns s' \<and>
    (at_schedule_base_ns s \<noteq> 0 \<and> now \<le> at_schedule_base_ns s \<longrightarrow> send_ts = at_schedule_base_ns s) \<and>
    (at_schedule_base_ns s = 0 \<or> at_schedule_base_ns s < now \<longrightarrow> send_ts = now + ucast horizon) \<and>
    at_packets_sent s' = at_packets_sent s + 1 \<and>
    (\<forall>pk. at_pktz s = Some pk \<longrightarrow>
       take 12 payload = write_rtp_header (ap_pt pk) False (ap_seq pk) (ab_rtp_timestamp blk) (ap_ssrc pk) \<and>
       (\<exists>pk'. at_pktz s' = Some pk' \<and> ap_seq pk' = ap_seq pk + 1 \<and> ap_ssrc pk' = ap_ssrc pk))"
proof -
  define base where "base = (if at_schedule_base_ns s = 0 \<or> now > at_schedule_base_ns s
      then now + ucast horizon else at_schedule_base_ns s)"
  let ?s1 = "case at_pktz s of Some _ \<Rightarrow> Some s
             | None \<Rightarrow> map_option (\<lambda>ns. s\<lparr>at_pktz := Some \<lparr>ap_fmt = ab_format blk, ap_pt = 97, ap_ssrc = ssrc, ap_seq = 0\<rparr>,
                                              at_packet_time_ns := of_nat ns\<rparr>)
                        (to_unsigned 64 (dbl (af_packet_time_ms (ab_format blk) * 1000000)))"
  obtain s1 where c: "?s1 = Some s1" using assms(1) unfolding audio_tx_compute_def by (auto simp: Option.bind_eq_Some_conv)
  then obtain pk0 where b1: "at_schedule_base_ns s1 = at_schedule_base_ns s" "at_packets_sent s1 = at_packets_sent s"
    "\<forall>k. at_pktz s = Some k \<longrightarrow> s1 = s" "at_pktz s1 = Some pk0"
    by (auto split: option.splits)
  obtain d n pk len where w: "at_pktz s1 = Some pk0"
    "write_packet (ab_rtp_timestamp blk) pcm (replicate len 0) pk0 = Some (d, n, pk)"
    "payload = d" "send_ts = base"
    "s' = s1\<lparr>at_schedule_base_ns := base + at_packet_time_ns s1, at_pktz := Some pk,
        at_packets_sent := at_packets_sent s1 + 1\<rparr>"
    using assms(1) b1 unfolding audio_tx_compute_def Let_def c
    by (auto simp: base_def Option.bind_eq_Some_conv split: if_splits)
  have hdr: "take 12 d = write_rtp_header (ap_pt pk0) False (ap_seq pk0) (ab_rtp_timestamp blk) (ap_ssrc pk0)"
    "ap_seq pk = ap_seq pk0 + 1" "ap_ssrc pk = ap_ssrc pk0"
  proof -
    have l: "length (write_rtp_header (ap_pt pk0) False (ap_seq pk0) (ab_rtp_timestamp blk) (ap_ssrc pk0)) = 12"
      by (simp add: write_rtp_header_def)
    show "take 12 d = write_rtp_header (ap_pt pk0) False (ap_seq pk0) (ab_rtp_timestamp blk) (ap_ssrc pk0)"
      "ap_seq pk = ap_seq pk0 + 1" "ap_ssrc pk = ap_ssrc pk0"
      using w(2) l by (auto simp: write_packet_def mem_write_def mem_read_def kRtpHeaderBytes_def Let_def
          split: if_splits bind_splits)
  qed
  have "now \<le> now + ucast horizon"
    using assms(2) by (simp add: word_le_nat_alt unat_add_noov unat_ucast_up)
  then have "now \<le> base" by (auto simp: base_def not_less)
  then show ?thesis
    using w hdr b1 by (auto simp: base_def)
qed

theorem audio_tx_schedule_witness:
  "\<exists>payload send_ts s'. audio_tx_compute 1 2000000 100
      \<lparr>ab_pcm = 0, ab_format = \<lparr>af_sample_rate = 0, af_channels = 2, af_encoding = L24, af_packet_time_ms = 1\<rparr>,
       ab_capture_ts_ns = 5, ab_rtp_timestamp = 7\<rparr> [] audio_tx_init = Some (payload, send_ts, s') \<and>
     send_ts = 2000100"
proof -
  let ?b = "\<lparr>ab_pcm = 0, ab_format = \<lparr>af_sample_rate = 0, af_channels = 2, af_encoding = L24, af_packet_time_ms = 1\<rparr>,
       ab_capture_ts_ns = 5, ab_rtp_timestamp = 7\<rparr>"
  have p0: "packet_payload_bytes (ab_format ?b) = Some 0"
  proof -
    have "dbl 0 = 0" by simp
    moreover have "to_unsigned 32 (dbl (1 / 2)) = Some 0"
    proof -
      have "\<bar>dbl (1 / 2) - 1 / 2\<bar> \<le> 1 / 4" by (rule order_trans [OF dbl_error]) simp_all
      then have "- 1 < dbl (1 / 2) \<and> dbl (1 / 2) < 1" unfolding abs_le_iff by linarith
      then show ?thesis by (simp add: to_unsigned_def trunc_nat_def floor_less_iff)
    qed
    ultimately show ?thesis by (simp add: packet_payload_bytes_def samples_per_packet_def)
  qed
  have t: "to_unsigned 64 (dbl 1000000) \<noteq> None" using dbl_of_nat [of 1000000] by (simp add: to_unsigned_def)
  obtain payload send_ts s' where r: "audio_tx_compute 1 2000000 100 ?b [] audio_tx_init = Some (payload, send_ts, s')"
    using p0 t by (auto simp: audio_tx_compute_def audio_tx_init_def Let_def write_packet_def mem_write_def
        mem_read_def kRtpHeaderBytes_def write_rtp_header_def)
  from audio_tx_schedule [OF r] have "send_ts = 2000100" by (simp add: audio_tx_init_def)
  with r show ?thesis by blast
qed

end
