(* ===== verification/Kernel_Mem.thy ===== *)
theory Kernel_Mem
  imports Spark_Prelude "HOL-Library.Multiset"
begin

text \<open>
  What the models of the CUDA kernels share.  A thread reads its inputs and yields the list of its
  stores; a launch runs the threads in any interleaving, so its result is stated for every order of
  the stores of all the threads.  A store list whose addresses determine their values has one result
  in every order.
\<close>

type_synonym ('k, 'a) store = "'k \<times> 'a"

definition apply_stores :: "(nat, 'a) store list \<Rightarrow> 'a list \<Rightarrow> 'a list" where
  "apply_stores ss m = fold (\<lambda>(a, v) m. m[a := v]) ss m"

definition gather :: "'a list \<Rightarrow> nat \<Rightarrow> nat \<Rightarrow> nat \<Rightarrow> 'a list option" where
  "gather m base stride n = those (map (\<lambda>k. mem_get m (base + k * stride)) [0..<n])"

text \<open>All the stores of \<open>n\<close> threads; \<open>None\<close> when a thread reads outside its input.\<close>

definition launch :: "(nat \<Rightarrow> 'a list option) \<Rightarrow> nat \<Rightarrow> 'a list option" where
  "launch thread n = map_option concat (those (map thread [0..<n]))"

text \<open>The number of threads of a one-dimensional launch of whole blocks.\<close>

definition grid_threads :: "nat \<Rightarrow> nat \<Rightarrow> nat" where
  "grid_threads block n = ((n + block - 1) div block) * block"

lemma grid_threads_covers: "0 < block \<Longrightarrow> n \<le> grid_threads block n"
proof -
  assume b: "0 < block"
  have "(n + block - 1) mod block < block" using b by simp
  moreover have "(n + block - 1) div block * block + (n + block - 1) mod block = n + block - 1"
    by (rule div_mult_mod_eq)
  ultimately show ?thesis unfolding grid_threads_def by linarith
qed

section \<open>Options\<close>

lemma those_map_Some: "(\<And>x. x \<in> set xs \<Longrightarrow> f x = Some (g x)) \<Longrightarrow> those (map f xs) = Some (map g xs)"
  by (induction xs) auto

lemma those_Some_iff: "those xs = Some ys \<longleftrightarrow> xs = map Some ys"
  by (induction xs arbitrary: ys) (auto split: option.splits)

lemma gather_Some:
  "(\<And>k. k < n \<Longrightarrow> base + k * stride < length m) \<Longrightarrow>
   gather m base stride n = Some (map (\<lambda>k. m ! (base + k * stride)) [0..<n])"
  unfolding gather_def by (rule those_map_Some) (simp add: mem_get_Some)

lemma launch_Some:
  "(\<And>t. t < n \<Longrightarrow> thread t = Some (g t)) \<Longrightarrow> launch thread n = Some (concat (map g [0..<n]))"
  unfolding launch_def by (subst those_map_Some [of _ _ g]) auto

text \<open>Threads beyond the work do nothing.\<close>

lemma guarded_stores:
  "n \<le> N \<Longrightarrow> x \<in> set (concat (map (\<lambda>k. if k < n then g k else []) [0..<N])) \<longleftrightarrow> (\<exists>k<n. x \<in> set (g k))"
  by (auto split: if_splits)

lemma zip_stores:
  assumes "length vs = n"
  shows "(a, v) \<in> set (zip (map f [0..<n]) vs) \<longleftrightarrow> (\<exists>j<n. a = f j \<and> v = vs ! j)"
proof -
  have "zip (map f [0..<n]) vs = map (\<lambda>j. (f j, vs ! j)) [0..<n]"
    using assms by (intro nth_equalityI) simp_all
  then show ?thesis by auto
qed

section \<open>Stores\<close>

lemma length_apply_stores [simp]: "length (apply_stores ss m) = length m"
  unfolding apply_stores_def by (induction ss arbitrary: m) auto

lemma apply_stores_Cons: "apply_stores ((a, v) # ss) m = apply_stores ss (m[a := v])"
  by (simp add: apply_stores_def)

lemma apply_stores_other: "a \<notin> fst ` set ss \<Longrightarrow> apply_stores ss m ! a = m ! a"
proof (induction ss arbitrary: m)
  case (Cons s ss)
  then show ?case by (cases s) (auto simp: apply_stores_Cons)
qed (simp add: apply_stores_def)

lemma apply_stores_nth:
  assumes "(a, v) \<in> set ss" "\<forall>w. (a, w) \<in> set ss \<longrightarrow> w = v" "a < length m"
  shows "apply_stores ss m ! a = v"
  using assms
proof (induction ss arbitrary: m)
  case (Cons s ss)
  obtain b w where s: "s = (b, w)" by (cases s)
  have uniq: "\<forall>w. (a, w) \<in> set ss \<longrightarrow> w = v" using Cons.prems(2) by simp
  show ?case
  proof (cases "(a, v) \<in> set ss")
    case True
    have "apply_stores ss (m[b := w]) ! a = v" by (rule Cons.IH [OF True uniq]) (simp add: Cons.prems(3))
    then show ?thesis by (simp add: s apply_stores_Cons)
  next
    case False
    then have "s = (a, v)" using Cons.prems(1) by simp
    moreover have "a \<notin> fst ` set ss" using uniq False by force
    ultimately show ?thesis using Cons.prems(3) by (simp add: apply_stores_Cons apply_stores_other)
  qed
qed simp

text \<open>Where the stores give every cell of the memory a value, and one only, the result is that list.\<close>

lemma apply_stores_all:
  assumes "length m = length vs" "\<And>i. i < length vs \<Longrightarrow> (i, vs ! i) \<in> set ss"
    and "\<And>a v. (a, v) \<in> set ss \<Longrightarrow> a < length vs \<and> v = vs ! a"
  shows "apply_stores ss m = vs"
proof (rule nth_equalityI)
  fix i assume "i < length (apply_stores ss m)"
  then have "i < length vs" using assms(1) by simp
  then show "apply_stores ss m ! i = vs ! i"
    using assms by (intro apply_stores_nth) auto
qed (simp add: assms(1))

section \<open>Row, column and component of an address\<close>

lemma split_addr: "i < n * k \<Longrightarrow> 0 < k \<Longrightarrow> \<exists>r j. i = r * k + j \<and> r < n \<and> (j :: nat) < k"
  by (metis div_mult_mod_eq less_mult_imp_div_less mod_less_divisor)

lemma addr_less: "r < n \<Longrightarrow> (j :: nat) < k \<Longrightarrow> r * k + j < n * k"
proof -
  assume "r < n" "j < k"
  then have "r * k + j < Suc r * k" "Suc r * k \<le> n * k" by (simp, intro mult_le_mono1, simp)
  then show ?thesis by linarith
qed

lemma addr_split: "(j :: nat) < k \<Longrightarrow> (r * k + j) div k = r" "j < k \<Longrightarrow> (r * k + j) mod k = j"
  by simp_all

lemma addr_eq: "(j :: nat) < k \<Longrightarrow> j' < k \<Longrightarrow> r * k + j = r' * k + j' \<longleftrightarrow> r = r' \<and> j = j'"
  using addr_split [of j k r] addr_split [of j' k r'] by metis

end
