(* ===== verification/Ip10_Codec.thy ===== *)
theory Ip10_Codec
  imports Kernel_Mem
begin

text \<open>
  The 10:8 codec of \<open>engine/operators/codec/ip10_codec.hpp\<close>, its CPU row walk in \<open>ip10_codec.cpp\<close> and
  its CUDA kernels in \<open>ip10_codec.cu\<close>.  Samples and code words are C \<open>int\<close>s in the arithmetic (all
  values stay far from its bounds) and 16 and 8 bit cells in the planes.
\<close>

section \<open>The per-sample primitives\<close>

record ip10_cfg =
  lossy_code_width :: int
  lossy_rounding :: int
  lossless_codes :: int
  lossy_codes :: int
  code_tables :: int
  default_table :: int
  lowest_table_thresh :: int
  highest_table_thresh :: int
  lossy_flag :: int

definition make_cfg :: "nat \<Rightarrow> nat \<Rightarrow> ip10_cfg" where
  "make_cfg sample_bits coded_bits =
     (let sample_states = push_bit sample_bits 1; coded_states = push_bit coded_bits 1;
          width = push_bit (sample_bits - coded_bits + 1) 1 - 1
      in \<lparr>lossy_code_width = width, lossy_rounding = width div 2, lossless_codes = coded_states div 2,
          lossy_codes = coded_states div 2, code_tables = 1 + coded_states div 2,
          default_table = (1 + coded_states div 2) div 2, lowest_table_thresh = coded_states div 2 div 2,
          highest_table_thresh = sample_states - coded_states div 2 div 2, lossy_flag = coded_states div 2\<rparr>)"

definition next_table :: "ip10_cfg \<Rightarrow> int \<Rightarrow> int" where
  "next_table c sample =
     (if sample < lowest_table_thresh c then 0
      else if sample \<ge> highest_table_thresh c then lossy_codes c
      else (sample - lowest_table_thresh c + lossy_rounding c) div lossy_code_width c)"

definition encode_sample :: "ip10_cfg \<Rightarrow> int \<Rightarrow> int \<Rightarrow> int" where
  "encode_sample c table sample =
     (let lossless_low = table * lossy_code_width c; lossless_high = lossless_low + lossless_codes c
      in if sample \<ge> lossless_low \<and> sample < lossless_high then sample - lossless_low
         else if sample < lossless_low then lossy_flag c OR (sample div lossy_code_width c)
         else lossy_flag c OR ((sample - lossless_high) div lossy_code_width c + table))"

definition decode_sample :: "ip10_cfg \<Rightarrow> int \<Rightarrow> int \<Rightarrow> int" where
  "decode_sample c table code_word =
     (let index = code_word AND NOT (lossy_flag c)
      in if code_word AND lossy_flag c \<noteq> 0 then
           if index < table then index * lossy_code_width c + lossy_rounding c
           else index * lossy_code_width c + lossy_rounding c + lossless_codes c
         else table * lossy_code_width c + index)"

abbreviation ip10 :: ip10_cfg where "ip10 \<equiv> make_cfg 10 8"

section \<open>The row walk\<close>

text \<open>The loop over a row that \<open>encode_plane\<close> and \<open>decode_plane\<close> share: the lane of position \<open>i\<close>, its table
  from the lane's last reconstruction, one step of the coder.\<close>

fun row_walk :: "(int \<Rightarrow> 'a \<Rightarrow> 'b \<times> int) \<Rightarrow> nat \<Rightarrow> nat \<Rightarrow> int list \<Rightarrow> 'a list \<Rightarrow> 'b list" where
  "row_walk step back i last_recon [] = []"
| "row_walk step back i last_recon (x # xs) =
     (let lane = i mod back;
          table = (if i < back then default_table ip10 else next_table ip10 (last_recon ! lane));
          (out, recon) = step table x
      in out # row_walk step back (i + 1) (last_recon[lane := recon]) xs)"

definition encode_step :: "int \<Rightarrow> u16 \<Rightarrow> u8 \<times> int" where
  "encode_step table s =
     (let code_word = encode_sample ip10 table (uint (s AND 0x3ff))
      in (word_of_int code_word, decode_sample ip10 table code_word))"

definition decode_step :: "int \<Rightarrow> u8 \<Rightarrow> u16 \<times> int" where
  "decode_step table b = (let recon = decode_sample ip10 table (uint b) in (word_of_int recon, recon))"

definition plane_rows :: "'a list \<Rightarrow> nat \<Rightarrow> nat \<Rightarrow> 'a list list option" where
  "plane_rows m width height = those (map (\<lambda>row. mem_read m (row * width) width) [0..<height])"

definition encode_plane :: "u16 list \<Rightarrow> nat \<Rightarrow> nat \<Rightarrow> nat \<Rightarrow> u8 list option" where
  "encode_plane m width height back =
     map_option (\<lambda>rows. concat (map (row_walk encode_step back 0 [0, 0]) rows)) (plane_rows m width height)"

definition decode_plane :: "u8 list \<Rightarrow> nat \<Rightarrow> nat \<Rightarrow> nat \<Rightarrow> u16 list option" where
  "decode_plane m width height back =
     map_option (\<lambda>rows. concat (map (row_walk decode_step back 0 [0, 0]) rows)) (plane_rows m width height)"

section \<open>The kernels\<close>

datatype plane = PlaneY | PlaneCb | PlaneCr

record planar =
  pl_y :: "u16 list"
  pl_cb :: "u16 list"
  pl_cr :: "u16 list"

fun plane_of :: "plane \<Rightarrow> planar \<Rightarrow> u16 list" where
  "plane_of PlaneY f = pl_y f"
| "plane_of PlaneCb f = pl_cb f"
| "plane_of PlaneCr f = pl_cr f"

definition lane_ptr :: "nat \<Rightarrow> nat \<Rightarrow> nat \<Rightarrow> nat \<Rightarrow> plane \<times> nat \<times> nat" where
  "lane_ptr row width ppl lane =
     (if lane = 0 then (PlaneCb, row * ppl, 1)
      else if lane = 2 then (PlaneCr, row * ppl, 1)
      else if lane = 1 then (PlaneY, row * width, 2)
      else (PlaneY, row * width + 1, 2))"

text \<open>The serial scan of one lane.\<close>

fun lane_walk :: "(int \<Rightarrow> 'a \<Rightarrow> 'b \<times> int) \<Rightarrow> int \<Rightarrow> 'a list \<Rightarrow> 'b list" where
  "lane_walk step table [] = []"
| "lane_walk step table (x # xs) =
     (let (out, recon) = step table x in out # lane_walk step (next_table ip10 recon) xs)"

definition ip10_encode422 :: "planar \<Rightarrow> nat \<Rightarrow> nat \<Rightarrow> nat \<Rightarrow> (nat, u8) store list option" where
  "ip10_encode422 f width height tid =
     (let row = tid div 4; lane = tid mod 4; ppl = width div 2 in
      if row \<ge> height then Some []
      else
        let (pl, off, istride) = lane_ptr row width ppl lane in
        map_option (\<lambda>xs. zip (map (\<lambda>pg. row * ppl * 4 + lane + pg * 4) [0..<ppl])
            (lane_walk encode_step (default_table ip10) xs))
          (gather (plane_of pl f) off istride ppl))"

definition ip10_decode422 :: "u8 list \<Rightarrow> nat \<Rightarrow> nat \<Rightarrow> nat \<Rightarrow> (plane \<times> nat, u16) store list option" where
  "ip10_decode422 packed width height tid =
     (let row = tid div 4; lane = tid mod 4; ppl = width div 2 in
      if row \<ge> height then Some []
      else
        let (pl, off, ostride) = lane_ptr row width ppl lane in
        map_option (\<lambda>xs. zip (map (\<lambda>pg. (pl, off + pg * ostride)) [0..<ppl])
            (lane_walk decode_step (default_table ip10) xs))
          (gather packed (row * ppl * 4 + lane) 4 ppl))"

definition kBlock :: nat where "kBlock = 128"

definition ip10_pack_422 :: "planar \<Rightarrow> nat \<Rightarrow> nat \<Rightarrow> (nat, u8) store list option" where
  "ip10_pack_422 f width height = launch (ip10_encode422 f width height) (grid_threads kBlock (height * 4))"

definition ip10_unpack_422 :: "u8 list \<Rightarrow> nat \<Rightarrow> nat \<Rightarrow> (plane \<times> nat, u16) store list option" where
  "ip10_unpack_422 packed width height =
     launch (ip10_decode422 packed width height) (grid_threads kBlock (height * 4))"

text \<open>The stores into one plane.\<close>

definition plane_stores :: "plane \<Rightarrow> (plane \<times> nat, 'a) store list \<Rightarrow> (nat, 'a) store list" where
  "plane_stores p ss = map (\<lambda>((_, a), v). (a, v)) (filter (\<lambda>((q, _), _). q = p) ss)"

section \<open>Samples\<close>

lemma ip10_cfg_values:
  "ip10 = \<lparr>lossy_code_width = 7, lossy_rounding = 3, lossless_codes = 128, lossy_codes = 128,
     code_tables = 129, default_table = 64, lowest_table_thresh = 64, highest_table_thresh = 960,
     lossy_flag = 128\<rparr>"
  by (simp add: make_cfg_def)

lemmas ip10_unfold = ip10_cfg_values next_table_def encode_sample_def decode_sample_def

lemma next_table_range: "0 \<le> next_table ip10 r" "next_table ip10 r \<le> 128"
  by (auto simp: next_table_def ip10_cfg_values)

text \<open>The flag and the index of a code word.\<close>

lemma flag_bits:
  assumes "0 \<le> i" "i < 128"
  shows "128 OR i = 128 + (i :: int)" "(128 + i) AND 128 = 128" "(128 + i) AND NOT 128 = i"
    "i AND 128 = 0" "i AND NOT 128 = i"
proof -
  have "\<forall>k\<in>set [0..<128 :: nat]. let j = int k in 128 OR j = 128 + j \<and> (128 + j) AND 128 = 128 \<and>
      (128 + j) AND NOT 128 = j \<and> j AND 128 = 0 \<and> j AND NOT 128 = j"
    by code_simp
  moreover have "nat i \<in> set [0..<128]" "int (nat i) = i" using assms by auto
  ultimately have "128 OR i = 128 + i \<and> (128 + i) AND 128 = 128 \<and> (128 + i) AND NOT 128 = i \<and>
      i AND 128 = 0 \<and> i AND NOT 128 = i"
    by (metis (no_types, lifting))
  then show "128 OR i = 128 + (i :: int)" "(128 + i) AND 128 = 128" "(128 + i) AND NOT 128 = i"
    "i AND 128 = 0" "i AND NOT 128 = i" by blast+
qed

lemma decode_flagged:
  assumes "0 \<le> i" "i < 128"
  shows "decode_sample ip10 t (128 + i) = (if i < t then i * 7 + 3 else i * 7 + 131)"
    "decode_sample ip10 t i = t * 7 + i"
proof -
  have "128 + i AND -129 = i" "i AND -129 = i" using flag_bits(3,5) [OF assms] by simp_all
  then show "decode_sample ip10 t (128 + i) = (if i < t then i * 7 + 3 else i * 7 + 131)"
    "decode_sample ip10 t i = t * 7 + i"
    using flag_bits(2,4) [OF assms] by (simp_all add: decode_sample_def ip10_cfg_values)
qed

text \<open>The code word of a sample is a byte; the reconstruction is a 10-bit sample at most 3 away, and the
  sample itself inside the table's window.\<close>

lemma encode_decode:
  assumes t: "0 \<le> t" "t \<le> 128" and s: "0 \<le> s" "s < 1024"
  shows "0 \<le> encode_sample ip10 t s" "encode_sample ip10 t s < 256"
    and "0 \<le> decode_sample ip10 t (encode_sample ip10 t s)" "decode_sample ip10 t (encode_sample ip10 t s) < 1024"
    and "\<bar>decode_sample ip10 t (encode_sample ip10 t s) - s\<bar> \<le> 3"
    and "t * 7 \<le> s \<Longrightarrow> s < t * 7 + 128 \<Longrightarrow> decode_sample ip10 t (encode_sample ip10 t s) = s"
proof -
  let ?e = "encode_sample ip10 t s"
  let ?d = "decode_sample ip10 t ?e"
  have "0 \<le> ?e \<and> ?e < 256 \<and> 0 \<le> ?d \<and> ?d < 1024 \<and> \<bar>?d - s\<bar> \<le> 3 \<and> (t * 7 \<le> s \<and> s < t * 7 + 128 \<longrightarrow> ?d = s)"
  proof (cases "t * 7 \<le> s \<and> s < t * 7 + 128")
    case True
    define i where "i = s - t * 7"
    have e: "?e = i" using True by (simp add: encode_sample_def ip10_cfg_values i_def)
    have i: "0 \<le> i" "i < 128" using True by (auto simp: i_def)
    have "?d = s" unfolding e decode_flagged(2) [OF i] by (simp add: i_def)
    then show ?thesis using e i s by simp
  next
    case False
    show ?thesis
    proof (cases "s < t * 7")
      case True
      define i where "i = s div 7"
      have i: "0 \<le> i" "i < t" "i < 128" using True s t by (auto simp: i_def)
      have e: "?e = 128 + i"
        using True flag_bits(1) [OF i(1,3)] by (simp add: encode_sample_def ip10_cfg_values i_def)
      have "?d = i * 7 + 3" unfolding e decode_flagged(1) [OF i(1,3)] using i(2) by simp
      moreover have "7 * i \<le> s" "s < 7 * i + 7" by (auto simp: i_def)
      ultimately show ?thesis using e i s t True by auto
    next
      case notlow: False
      define i where "i = (s - (t * 7 + 128)) div 7 + t"
      have hi: "t * 7 + 128 \<le> s" using False notlow by auto
      have i: "t \<le> i" "0 \<le> i" "i < 128" "7 * (i - t) \<le> s - (t * 7 + 128)" "s - (t * 7 + 128) < 7 * (i - t) + 7"
        using hi s t by (auto simp: i_def)
      have e: "?e = 128 + i"
        using False notlow flag_bits(1) [OF i(2,3)] by (simp add: encode_sample_def ip10_cfg_values i_def Let_def)
      have "?d = i * 7 + 131" unfolding e decode_flagged(1) [OF i(2,3)] using i(1) by simp
      then show ?thesis using e i s t hi by auto
    qed
  qed
  then show "0 \<le> ?e" "?e < 256" "0 \<le> ?d" "?d < 1024" "\<bar>?d - s\<bar> \<le> 3"
    "t * 7 \<le> s \<Longrightarrow> s < t * 7 + 128 \<Longrightarrow> ?d = s" by auto
qed

text \<open>The window of the table chosen from a reconstruction holds every sample within 60 of it.\<close>

lemma next_table_window:
  assumes "0 \<le> s" "s < 1024" "\<bar>s - r\<bar> \<le> 60"
  shows "next_table ip10 r * 7 \<le> s" "s < next_table ip10 r * 7 + 128"
  using assms by (auto simp: next_table_def ip10_cfg_values)

section \<open>Lanes\<close>

lemma length_lane_walk [simp]: "length (lane_walk step t xs) = length xs"
  by (induction xs arbitrary: t) (simp_all split: prod.split)

lemma length_row_walk [simp]: "length (row_walk step back i lr xs) = length xs"
  by (induction xs arbitrary: i lr) (simp_all add: Let_def split: prod.split)

text \<open>With one lane the row walk is the scan of the lane; with two, the interleaving of two scans.\<close>

lemma row_walk_1:
  "length lr = 2 \<Longrightarrow>
   row_walk step 1 i lr xs = lane_walk step (if i < 1 then default_table ip10 else next_table ip10 (lr ! 0)) xs"
proof (induction xs arbitrary: i lr)
  case (Cons x xs)
  obtain out recon where st: "step (if i < 1 then default_table ip10 else next_table ip10 (lr ! 0)) x = (out, recon)"
    by fastforce
  have "row_walk step 1 (i + 1) (lr[0 := recon]) xs = lane_walk step (next_table ip10 recon) xs"
    using Cons.IH [of "lr[0 := recon]" "i + 1"] Cons.prems by simp
  then show ?case using st by (simp add: Let_def)
qed simp

fun interleave :: "'a list \<Rightarrow> 'a list \<Rightarrow> 'a list" where
  "interleave (a # as) (b # bs) = a # b # interleave as bs"
| "interleave _ _ = []"

lemma length_interleave [simp]: "length as = length bs \<Longrightarrow> length (interleave as bs) = 2 * length as"
  by (induction as bs rule: list_induct2) simp_all

lemma interleave_nth:
  "length as = length bs \<Longrightarrow> j < length as \<Longrightarrow>
   interleave as bs ! (j * 2) = as ! j \<and> interleave as bs ! (j * 2 + 1) = bs ! j"
proof (induction as bs arbitrary: j rule: list_induct2)
  case (Cons a as b bs)
  then show ?case by (cases j) auto
qed simp

lemma row_walk_2:
  "length as = length bs \<Longrightarrow> even i \<Longrightarrow> length lr = 2 \<Longrightarrow>
   row_walk step 2 i lr (interleave as bs) =
     interleave (lane_walk step (if i < 2 then default_table ip10 else next_table ip10 (lr ! 0)) as)
       (lane_walk step (if i < 2 then default_table ip10 else next_table ip10 (lr ! 1)) bs)"
proof (induction as bs arbitrary: i lr rule: list_induct2)
  case (Cons a as b bs)
  let ?t0 = "if i < 2 then default_table ip10 else next_table ip10 (lr ! 0)"
  let ?t1 = "if i < 2 then default_table ip10 else next_table ip10 (lr ! 1)"
  obtain o0 r0 where s0: "step ?t0 a = (o0, r0)" by fastforce
  obtain o1 r1 where s1: "step ?t1 b = (o1, r1)" by fastforce
  have m: "i mod 2 = 0" "(i + 1) mod 2 = 1" using Cons.prems(1) by presburger+
  have i1: "i + 1 < 2 \<longleftrightarrow> i < 2" using Cons.prems(1) by presburger
  have "row_walk step 2 (i + 2) (lr[0 := r0, 1 := r1]) (interleave as bs) =
      interleave (lane_walk step (next_table ip10 r0) as) (lane_walk step (next_table ip10 r1) bs)"
    using Cons.IH [of "i + 2" "lr[0 := r0, 1 := r1]"] Cons.prems by simp
  moreover have "row_walk step 2 i lr (interleave (a # as) (b # bs)) =
      o0 # o1 # row_walk step 2 (i + 2) (lr[0 := r0, 1 := r1]) (interleave as bs)"
    by (simp only: interleave.simps row_walk.simps Let_def m i1 nth_list_update_neq s0 prod.case)
      (use s1 in \<open>cases "i < 2"; simp\<close>)
  ultimately show ?case using s0 s1 by simp
qed simp

definition lane_of :: "nat \<Rightarrow> nat \<Rightarrow> nat \<Rightarrow> 'a list \<Rightarrow> 'a list" where
  "lane_of back n l xs = map (\<lambda>k. xs ! (k * back + l)) [0..<n]"

lemma length_lane_of [simp]: "length (lane_of back n l xs) = n"
  by (simp add: lane_of_def)

lemma row_walk_lane:
  assumes "back = 1 \<or> back = 2" "length xs = n * back" "j < n" "l < back"
  shows "row_walk step back 0 [0, 0] xs ! (j * back + l) =
    lane_walk step (default_table ip10) (lane_of back n l xs) ! j"
proof (cases "back = 1")
  case True
  then have "lane_of back n l xs = xs" using assms by (auto simp: lane_of_def intro: nth_equalityI)
  then show ?thesis using row_walk_1 [of "[0, 0]" step 0 xs] True assms(4) by simp
next
  case False
  then have b: "back = 2" using assms(1) by simp
  have len: "length (lane_of back n 0 xs) = length (lane_of back n 1 xs)" by simp
  have xs: "xs = interleave (lane_of back n 0 xs) (lane_of back n 1 xs)"
  proof (rule nth_equalityI)
    fix i assume "i < length xs"
    then have k: "i div 2 < n" using assms(2) b by simp
    have "i = i div 2 * 2 \<or> i = i div 2 * 2 + 1" by presburger
    then show "xs ! i = interleave (lane_of back n 0 xs) (lane_of back n 1 xs) ! i"
      using interleave_nth [OF len, of "i div 2"] k by (auto simp: lane_of_def b)
  qed (use assms(2) b in simp)
  have "row_walk step back 0 [0, 0] xs = interleave (lane_walk step (default_table ip10) (lane_of back n 0 xs))
      (lane_walk step (default_table ip10) (lane_of back n 1 xs))"
    using row_walk_2 [OF len, of 0 "[0, 0]" step] xs b by simp
  then show ?thesis
    using interleave_nth [of "lane_walk step (default_table ip10) (lane_of back n 0 xs)"
        "lane_walk step (default_table ip10) (lane_of back n 1 xs)" j] assms(3,4) b
    by (cases "l = 0") (auto simp: less_2_cases_iff)
qed

section \<open>Planes\<close>

lemma concat_rows_nth:
  "\<forall>row\<in>set rows. length row = w \<Longrightarrow> r < length rows \<Longrightarrow> j < w \<Longrightarrow> concat rows ! (r * w + j) = rows ! r ! j"
proof (induction rows arbitrary: r)
  case (Cons row rows)
  then show ?case by (cases r) (auto simp: nth_append)
qed simp

lemma length_concat_rows: "\<forall>row\<in>set rows. length row = w \<Longrightarrow> length (concat rows) = length rows * w"
  by (induction rows) auto

lemma plane_rows_Some:
  assumes "length m = w * h"
  shows "plane_rows m w h = Some (map (\<lambda>r. take w (drop (r * w) m)) [0..<h])"
  unfolding plane_rows_def
proof (rule those_map_Some)
  fix r assume "r \<in> set [0..<h]"
  then have "Suc r \<le> h" by simp
  then have "Suc r * w \<le> h * w" by (rule mult_le_mono1)
  then show "mem_read m (r * w) w = Some (take w (drop (r * w) m))"
    using assms by (simp add: mem_read_def mult.commute add.commute)
qed

text \<open>What a plane walk yields, lane by lane.\<close>

lemma plane_walk_lane:
  assumes "back = 1 \<or> back = 2" "w = n * back" "length m = w * h"
  obtains out where "map_option (\<lambda>rows. concat (map (row_walk step back 0 [0, 0]) rows)) (plane_rows m w h) = Some out"
    "length out = w * h"
    "\<forall>r<h. \<forall>j<n. \<forall>l<back. out ! (r * w + (j * back + l)) =
       lane_walk step (default_table ip10) (map (\<lambda>k. m ! (r * w + (k * back + l))) [0..<n]) ! j"
proof -
  let ?row = "\<lambda>r. take w (drop (r * w) m)"
  let ?rows = "map (\<lambda>r. row_walk step back 0 [0, 0] (?row r)) [0..<h]"
  have in_range: "r * w + w \<le> w * h" if "r < h" for r
  proof -
    have "Suc r * w \<le> h * w" using that by (intro mult_le_mono1) simp
    then show ?thesis by (simp add: mult.commute add.commute)
  qed
  have "length (?row r) = w" if "r < h" for r using in_range [OF that] assms(3) by simp
  then have lens: "\<forall>row\<in>set ?rows. length row = w" by auto
  have out: "map_option (\<lambda>rows. concat (map (row_walk step back 0 [0, 0]) rows)) (plane_rows m w h) = Some (concat ?rows)"
    using plane_rows_Some [OF assms(3)] by (simp add: comp_def)
  have "concat ?rows ! (r * w + (j * back + l)) =
      lane_walk step (default_table ip10) (map (\<lambda>k. m ! (r * w + (k * back + l))) [0..<n]) ! j"
    if r: "r < h" and j: "j < n" and l: "l < back" for r j l
  proof -
    have i: "k * back + l < w" if "k < n" for k using addr_less [OF that l] assms(2) by simp
    have rl: "length (?row r) = n * back" using in_range [OF r] assms(2,3) by simp
    have "concat ?rows ! (r * w + (j * back + l)) = ?rows ! r ! (j * back + l)"
      using r i [OF j] by (intro concat_rows_nth [OF lens]) simp_all
    also have "\<dots> = row_walk step back 0 [0, 0] (?row r) ! (j * back + l)" using r by simp
    also have "\<dots> = lane_walk step (default_table ip10) (lane_of back n l (?row r)) ! j"
      by (rule row_walk_lane [OF assms(1) rl j l])
    also have "lane_of back n l (?row r) = map (\<lambda>k. m ! (r * w + (k * back + l))) [0..<n]"
      unfolding lane_of_def
    proof (intro map_cong refl)
      fix k assume "k \<in> set [0..<n]"
      then have "k * back + l < w" using i by simp
      then show "?row r ! (k * back + l) = m ! (r * w + (k * back + l))"
      proof -
        assume "k * back + l < w"
        moreover have "r * w \<le> length m" using in_range [OF r] assms(3) by linarith
        ultimately show ?thesis by (simp add: nth_drop)
      qed
    qed
    finally show ?thesis .
  qed
  moreover have "length (concat ?rows) = w * h" using length_concat_rows [OF lens] by simp
  ultimately show thesis using out that by blast
qed

section \<open>The round trip\<close>

abbreviation sample10 :: "u16 \<Rightarrow> int" where "sample10 s \<equiv> uint (s AND 0x3ff)"

lemma sample10_range: "0 \<le> sample10 s" "sample10 s < 1024"
proof -
  have "(0x3ff :: u16) = mask 10" by (simp add: mask_eq_exp_minus_1)
  then have "unat (s AND 0x3ff) < 1024" by (simp only: unat_and_mask) simp
  then have "int (unat (s AND 0x3ff)) < 1024" by (simp only: of_nat_less_numeral_iff)
  then show "sample10 s < 1024" by (simp only: uint_nat)
qed simp

text \<open>One step in lockstep: the decoder sees the byte the encoder wrote and reconstructs what the encoder
  tracked.\<close>

lemma step_lockstep:
  assumes "0 \<le> t" "t \<le> 128"
  obtains cw r where "encode_step t s = (cw, r)" "decode_step t cw = (word_of_int r, r)" "0 \<le> r" "r < 1024"
    "\<bar>r - sample10 s\<bar> \<le> 3" "t * 7 \<le> sample10 s \<and> sample10 s < t * 7 + 128 \<longrightarrow> r = sample10 s"
proof -
  note ed = encode_decode [OF assms sample10_range [of s]]
  define e where "e = encode_sample ip10 t (sample10 s)"
  have u: "uint (word_of_int e :: u8) = e"
    using ed(1,2) by (simp add: e_def uint_word_of_int)
  have "decode_step t (word_of_int e) = (word_of_int (decode_sample ip10 t e), decode_sample ip10 t e)"
    unfolding decode_step_def u by (simp add: Let_def)
  moreover have "encode_step t s = (word_of_int e, decode_sample ip10 t e)"
    by (simp add: encode_step_def e_def Let_def)
  ultimately show thesis using ed(3-6) unfolding e_def [symmetric] by (rule_tac that) (assumption | blast)+
qed

lemma lane_roundtrip:
  assumes "0 \<le> t" "t \<le> 128"
  shows "let ds = lane_walk decode_step t (lane_walk encode_step t xs) in
    (\<forall>k<length xs. \<bar>uint (ds ! k) - sample10 (xs ! k)\<bar> \<le> 3) \<and>
    (\<forall>k<length xs. (if k = 0 then t * 7 \<le> sample10 (xs ! 0) \<and> sample10 (xs ! 0) < t * 7 + 128
        else \<bar>sample10 (xs ! k) - sample10 (xs ! (k - 1))\<bar> \<le> 57) \<longrightarrow> ds ! k = xs ! k AND 0x3ff)"
  using assms
proof (induction xs arbitrary: t)
  case (Cons x xs)
  obtain cw r where s: "encode_step t x = (cw, r)" "decode_step t cw = (word_of_int r, r)" "0 \<le> r" "r < 1024"
    "\<bar>r - sample10 x\<bar> \<le> 3" "t * 7 \<le> sample10 x \<and> sample10 x < t * 7 + 128 \<longrightarrow> r = sample10 x"
    by (rule step_lockstep [OF Cons.prems, of x])
  let ?n = "next_table ip10 r"
  let ?ds = "lane_walk decode_step ?n (lane_walk encode_step ?n xs)"
  note IH = Cons.IH [OF next_table_range [of r], unfolded Let_def]
  have ds: "lane_walk decode_step t (lane_walk encode_step t (x # xs)) = word_of_int r # ?ds"
    using s(1,2) by simp
  have u: "uint (word_of_int r :: u16) = r" using s(3,4) by (simp add: uint_word_of_int)
  have w: "r = sample10 x \<Longrightarrow> (word_of_int r :: u16) = x AND 0x3ff" by simp
  have near: "?n * 7 \<le> sample10 y \<and> sample10 y < ?n * 7 + 128" if "\<bar>sample10 y - sample10 x\<bar> \<le> 57" for y
  proof -
    have "\<bar>sample10 y - r\<bar> \<le> 60" using that s(5) by linarith
    from next_table_window [OF sample10_range this] show ?thesis by blast
  qed
  show ?case
    unfolding Let_def ds
  proof (intro conjI allI impI)
    fix k assume k: "k < length (x # xs)"
    show "\<bar>uint ((word_of_int r # ?ds) ! k) - sample10 ((x # xs) ! k)\<bar> \<le> 3"
      using IH k u s(5) by (cases k) simp_all
    assume c: "if k = 0 then t * 7 \<le> sample10 ((x # xs) ! 0) \<and> sample10 ((x # xs) ! 0) < t * 7 + 128
        else \<bar>sample10 ((x # xs) ! k) - sample10 ((x # xs) ! (k - 1))\<bar> \<le> 57"
    show "(word_of_int r # ?ds) ! k = (x # xs) ! k AND 0x3ff"
    proof (cases k)
      case 0
      then show ?thesis using c s(6) w by simp
    next
      case (Suc j)
      have j: "j < length xs" using k Suc by simp
      have "if j = 0 then ?n * 7 \<le> sample10 (xs ! 0) \<and> sample10 (xs ! 0) < ?n * 7 + 128
          else \<bar>sample10 (xs ! j) - sample10 (xs ! (j - 1))\<bar> \<le> 57"
        using c Suc near by (cases j) simp_all
      then show ?thesis using IH j Suc by simp
    qed
  qed
qed simp

lemma plane_roundtrip_error:
  assumes "back = 1 \<or> back = 2" "width = n * back" "length m = width * height"
  shows "\<exists>code recon. encode_plane m width height back = Some code \<and>
    decode_plane code width height back = Some recon \<and>
    length code = width * height \<and> length recon = width * height \<and>
    (\<forall>r<height. \<forall>i<width.
       \<bar>sample10 (m ! (r * width + i)) - uint (recon ! (r * width + i))\<bar> \<le> 3 \<and>
       (back \<le> i \<and> \<bar>sample10 (m ! (r * width + i)) - sample10 (m ! (r * width + i - back))\<bar> \<le> 57 \<longrightarrow>
          recon ! (r * width + i) = m ! (r * width + i) AND 0x3ff))"
proof -
  obtain code where e: "encode_plane m width height back = Some code" "length code = width * height"
    "\<forall>r<height. \<forall>j<n. \<forall>l<back. code ! (r * width + (j * back + l)) =
       lane_walk encode_step (default_table ip10) (map (\<lambda>k. m ! (r * width + (k * back + l))) [0..<n]) ! j"
    unfolding encode_plane_def by (rule plane_walk_lane [where step = encode_step, OF assms])
  obtain recon where d: "decode_plane code width height back = Some recon" "length recon = width * height"
    "\<forall>r<height. \<forall>j<n. \<forall>l<back. recon ! (r * width + (j * back + l)) =
       lane_walk decode_step (default_table ip10) (map (\<lambda>k. code ! (r * width + (k * back + l))) [0..<n]) ! j"
    unfolding decode_plane_def by (rule plane_walk_lane [where step = decode_step, OF assms(1,2) e(2)])
  have dt: "0 \<le> default_table ip10" "default_table ip10 \<le> 128" by (simp_all add: ip10_cfg_values)
  have "\<bar>sample10 (m ! (r * width + i)) - uint (recon ! (r * width + i))\<bar> \<le> 3 \<and>
      (back \<le> i \<and> \<bar>sample10 (m ! (r * width + i)) - sample10 (m ! (r * width + i - back))\<bar> \<le> 57 \<longrightarrow>
         recon ! (r * width + i) = m ! (r * width + i) AND 0x3ff)" if r: "r < height" and i: "i < width" for r i
  proof -
    define j l where "j = i div back" and "l = i mod back"
    have b: "0 < back" using assms(1) by auto
    have ji: "i = j * back + l" by (simp add: j_def l_def)
    have jl: "j < n" "l < back"
      using i b assms(2) by (simp_all add: j_def l_def less_mult_imp_div_less)
    let ?xs = "map (\<lambda>k. m ! (r * width + (k * back + l))) [0..<n]"
    have codes: "map (\<lambda>k. code ! (r * width + (k * back + l))) [0..<n] = lane_walk encode_step (default_table ip10) ?xs"
      using e(3) r jl(2) by (intro nth_equalityI) simp_all
    have rec: "recon ! (r * width + i) =
        lane_walk decode_step (default_table ip10) (lane_walk encode_step (default_table ip10) ?xs) ! j"
      using d(3) r jl unfolding ji codes [symmetric] by blast
    have x: "?xs ! j = m ! (r * width + i)" using jl(1) by (simp add: ji)
    note rt = lane_roundtrip [OF dt, of ?xs, unfolded Let_def]
    have "\<bar>uint (recon ! (r * width + i)) - sample10 (m ! (r * width + i))\<bar> \<le> 3"
      using rt jl(1) x unfolding rec by (metis length_map length_upt minus_nat.diff_0)
    moreover have "recon ! (r * width + i) = m ! (r * width + i) AND 0x3ff"
      if "back \<le> i" "\<bar>sample10 (m ! (r * width + i)) - sample10 (m ! (r * width + i - back))\<bar> \<le> 57"
    proof -
      have j0: "0 < j" using that(1) jl(2) unfolding ji by (cases j) auto
      then have "r * width + (j * back + l) - back = r * width + ((j - 1) * back + l)"
        by (cases j) simp_all
      moreover have "j - 1 < n" using jl(1) by simp
      ultimately have prev: "?xs ! (j - 1) = m ! (r * width + i - back)" by (simp add: ji)
      have "j < length ?xs" using jl(1) by simp
      note rt' = conjunct2 [OF rt, rule_format, OF this]
      have "lane_walk decode_step (default_table ip10) (lane_walk encode_step (default_table ip10) ?xs) ! j =
          ?xs ! j AND 0x3ff"
        by (rule rt', unfold prev x) (use j0 that(2) in simp)
      then show ?thesis unfolding rec x .
    qed
    ultimately show ?thesis by auto
  qed
  with e(1,2) d(1,2) show ?thesis by blast
qed

text \<open>What the encoder tracks: its walk over a plane, with the reconstructions for output.\<close>

definition recon_step :: "int \<Rightarrow> u16 \<Rightarrow> u16 \<times> int" where
  "recon_step table s = (let (code_word, recon) = encode_step table s in (word_of_int recon, recon))"

definition encoder_recon :: "u16 list \<Rightarrow> nat \<Rightarrow> nat \<Rightarrow> nat \<Rightarrow> u16 list option" where
  "encoder_recon m width height back =
     map_option (\<lambda>rows. concat (map (row_walk recon_step back 0 [0, 0]) rows)) (plane_rows m width height)"

lemma row_walk_recon: "row_walk decode_step back i lr (row_walk encode_step back i lr xs) = row_walk recon_step back i lr xs"
proof (induction xs arbitrary: i lr)
  case (Cons x xs)
  define t where "t = (if i < back then default_table ip10 else next_table ip10 (lr ! (i mod back)))"
  have "0 \<le> t" "t \<le> 128" using next_table_range by (simp_all add: t_def ip10_cfg_values)
  then obtain cw r where s: "encode_step t x = (cw, r)" "decode_step t cw = (word_of_int r, r)"
    by (rule step_lockstep)
  then show ?case using Cons.IH [of "i + 1" "lr[i mod back := r]"]
    by (simp add: recon_step_def Let_def flip: t_def)
qed simp

lemma plane_rows_concat:
  assumes "\<forall>row\<in>set rows. length row = w"
  shows "plane_rows (concat rows) w (length rows) = Some rows"
proof -
  have len: "length (concat rows) = w * length rows" using length_concat_rows [OF assms] by simp
  have "map (\<lambda>r. take w (drop (r * w) (concat rows))) [0..<length rows] = rows"
  proof (rule nth_equalityI)
    fix r assume "r < length (map (\<lambda>r. take w (drop (r * w) (concat rows))) [0..<length rows])"
    then have r: "r < length rows" by simp
    have "Suc r * w \<le> length rows * w" using r by (intro mult_le_mono1) simp
    then have l: "r * w + w \<le> length (concat rows)" using len by (simp add: mult.commute add.commute)
    have "length (rows ! r) = w" using assms r by simp
    then have "take w (drop (r * w) (concat rows)) = rows ! r"
      using l concat_rows_nth [OF assms r] by (intro nth_equalityI) simp_all
    then show "map (\<lambda>r. take w (drop (r * w) (concat rows))) [0..<length rows] ! r = rows ! r" using r by simp
  qed simp
  then show ?thesis using plane_rows_Some [OF len] by simp
qed

lemma decode_encode_plane:
  assumes "length m = width * height" "encode_plane m width height back = Some code"
  shows "decode_plane code width height back = encoder_recon m width height back"
proof -
  let ?rows = "map (\<lambda>r. take width (drop (r * width) m)) [0..<height]"
  let ?codes = "map (row_walk encode_step back 0 [0, 0]) ?rows"
  have in_range: "r * width + width \<le> length m" if "r < height" for r
  proof -
    have "Suc r * width \<le> height * width" using that by (intro mult_le_mono1) simp
    then show ?thesis using assms(1) by (simp add: mult.commute add.commute)
  qed
  have "length (take width (drop (r * width) m)) = width" if "r < height" for r using in_range [OF that] by simp
  then have lens: "\<forall>row\<in>set ?codes. length row = width" by auto
  have "code = concat ?codes" using assms(2) unfolding encode_plane_def plane_rows_Some [OF assms(1)] by simp
  then have "plane_rows code width height = Some ?codes" using plane_rows_concat [OF lens] by simp
  then show ?thesis
    unfolding decode_plane_def encoder_recon_def plane_rows_Some [OF assms(1)] by (simp add: comp_def row_walk_recon)
qed

text \<open>C10 - The codec is near lossless: for a plane of any size with one or two lanes, the decoder yields exactly the
  samples the encoder tracked while encoding, which are within 3 of the plane's, and equal to them where the sample before in
  the lane lies within 57, whatever came earlier.\<close>
theorem ip10_plane_roundtrip:
  assumes "back = 1 \<or> back = 2" "width = n * back" "length m = width * height"
  shows "\<exists>code recon. encode_plane m width height back = Some code \<and>
    decode_plane code width height back = Some recon \<and> encoder_recon m width height back = Some recon \<and>
    length code = width * height \<and> length recon = width * height \<and>
    (\<forall>r<height. \<forall>i<width.
       \<bar>sample10 (m ! (r * width + i)) - uint (recon ! (r * width + i))\<bar> \<le> 3 \<and>
       (back \<le> i \<and> \<bar>sample10 (m ! (r * width + i)) - sample10 (m ! (r * width + i - back))\<bar> \<le> 57 \<longrightarrow>
          recon ! (r * width + i) = m ! (r * width + i) AND 0x3ff))"
proof -
  obtain code recon where r: "encode_plane m width height back = Some code" "decode_plane code width height back = Some recon"
    and e: "length code = width * height \<and> length recon = width * height \<and>
    (\<forall>r<height. \<forall>i<width.
       \<bar>sample10 (m ! (r * width + i)) - uint (recon ! (r * width + i))\<bar> \<le> 3 \<and>
       (back \<le> i \<and> \<bar>sample10 (m ! (r * width + i)) - sample10 (m ! (r * width + i - back))\<bar> \<le> 57 \<longrightarrow>
          recon ! (r * width + i) = m ! (r * width + i) AND 0x3ff))"
    using plane_roundtrip_error [OF assms] by blast
  have "encoder_recon m width height back = Some recon" using decode_encode_plane [OF assms(3) r(1)] r(2) by simp
  with r e show ?thesis by blast
qed

theorem ip10_plane_roundtrip_witness:
  "\<exists>code recon. encode_plane [500, 100, 900, 140] 2 2 1 = Some code \<and> decode_plane code 2 2 1 = Some recon \<and>
     encoder_recon [500, 100, 900, 140] 2 2 1 = Some recon \<and> \<bar>100 - uint (recon ! 1)\<bar> \<le> 3"
proof -
  have "length [500, 100, 900, 140 :: u16] = 2 * 2" by simp
  from ip10_plane_roundtrip [of 1 2 2, OF _ _ this]
  obtain code recon where "encode_plane [500, 100, 900, 140] 2 2 1 = Some code" "decode_plane code 2 2 1 = Some recon"
    "encoder_recon [500, 100, 900, 140] 2 2 1 = Some recon" and p: "\<forall>r<2. \<forall>i<2. \<bar>sample10 ([500, 100, 900, 140] ! (r * 2 + i)) - uint (recon ! (r * 2 + i))\<bar> \<le> 3"
    by auto
  moreover from p [rule_format, of 0 1] have "\<bar>100 - uint (recon ! 1)\<bar> \<le> 3" by simp
  ultimately show ?thesis by blast
qed

section \<open>The kernels compute the reference\<close>

definition planar_ok :: "planar \<Rightarrow> nat \<Rightarrow> nat \<Rightarrow> bool" where
  "planar_ok f ppl height \<longleftrightarrow> length (pl_y f) = ppl * 2 * height \<and> length (pl_cb f) = ppl * height \<and>
     length (pl_cr f) = ppl * height"

text \<open>Lane \<open>l\<close> of a pgroup row: its plane, its lane within the plane's row and the number of lanes there.\<close>

definition lane_plane :: "nat \<Rightarrow> plane" where
  "lane_plane l = (if l = 0 then PlaneCb else if l = 2 then PlaneCr else PlaneY)"

definition lane_back :: "nat \<Rightarrow> nat" where
  "lane_back l = (if l = 0 \<or> l = 2 then 1 else 2)"

definition lane_off :: "nat \<Rightarrow> nat" where
  "lane_off l = (if l = 3 then 1 else 0)"

lemma lane_ptr_eq:
  "l < 4 \<Longrightarrow> lane_ptr row (ppl * 2) ppl l = (lane_plane l, row * (ppl * lane_back l) + lane_off l, lane_back l)"
  by (cases "l = 0"; cases "l = 1"; cases "l = 2"; cases "l = 3")
    (simp_all add: lane_ptr_def lane_plane_def lane_back_def lane_off_def)

lemma lane_back_cases: "lane_back l = 1 \<or> lane_back l = 2" "lane_off l < lane_back l"
  by (auto simp: lane_back_def lane_off_def)

lemma planar_ok_length: "planar_ok f ppl h \<Longrightarrow> length (plane_of (lane_plane l) f) = ppl * lane_back l * h"
  by (simp add: planar_ok_def lane_plane_def lane_back_def)

lemma encode_thread:
  assumes "planar_ok f ppl height" "tid div 4 < height"
  shows "ip10_encode422 f (ppl * 2) height tid = Some (zip
      (map (\<lambda>pg. (tid div 4 * ppl + pg) * 4 + tid mod 4) [0..<ppl])
      (lane_walk encode_step (default_table ip10)
        (map (\<lambda>k. plane_of (lane_plane (tid mod 4)) f !
           (tid div 4 * (ppl * lane_back (tid mod 4)) + (k * lane_back (tid mod 4) + lane_off (tid mod 4)))) [0..<ppl])))"
proof -
  let ?l = "tid mod 4" and ?r = "tid div 4"
  let ?m = "plane_of (lane_plane ?l) f" and ?b = "lane_back ?l" and ?o = "lane_off ?l"
  have "?r * (ppl * ?b) + (k * ?b + ?o) < length ?m" if "k < ppl" for k
    using addr_less [OF assms(2) addr_less [OF that lane_back_cases(2) [of ?l]]] planar_ok_length [OF assms(1), of ?l]
    by (simp only: mult.commute)
  then have "gather ?m (?r * (ppl * ?b) + ?o) ?b ppl =
      Some (map (\<lambda>k. ?m ! (?r * (ppl * ?b) + ?o + k * ?b)) [0..<ppl])"
    by (intro gather_Some) (simp add: ac_simps)
  then show ?thesis
    using assms(2) lane_ptr_eq [of ?l ?r ppl]
    by (simp add: ip10_encode422_def Let_def algebra_simps)
qed

text \<open>The stores of a launch with a thread per row and lane.\<close>

lemma lane_launch:
  assumes "\<And>tid. thread tid = Some (if tid div 4 < height
      then zip (map (addr (tid div 4) (tid mod 4)) [0..<ppl]) (vals (tid div 4) (tid mod 4)) else [])"
    and "\<And>r l. length (vals r l) = ppl"
  obtains ss where "launch thread (grid_threads kBlock (height * 4)) = Some ss"
    "\<forall>s. s \<in> set ss \<longleftrightarrow>
       (\<exists>row pg l. row < height \<and> pg < ppl \<and> l < 4 \<and> s = (addr row l pg, vals row l ! pg))"
proof -
  define st where "st tid = (if tid div 4 < height
      then zip (map (addr (tid div 4) (tid mod 4)) [0..<ppl]) (vals (tid div 4) (tid mod 4)) else [])" for tid
  let ?n = "grid_threads kBlock (height * 4)"
  have l: "launch thread ?n = Some (concat (map st [0..<?n]))"
    by (rule launch_Some) (simp add: assms(1) st_def)
  have n: "height * 4 \<le> ?n" by (rule grid_threads_covers) (simp add: kBlock_def)
  have st: "s \<in> set (concat (map st [0..<?n])) \<longleftrightarrow>
      (\<exists>row pg l. row < height \<and> pg < ppl \<and> l < 4 \<and> s = (addr row l pg, vals row l ! pg))" (is "?L \<longleftrightarrow> ?R") for s
  proof
    assume ?L
    then obtain tid where tid: "s \<in> set (st tid)" by auto
    then have row: "tid div 4 < height" by (auto simp: st_def split: if_splits)
    with tid obtain pg where "pg < ppl" "s = (addr (tid div 4) (tid mod 4) pg, vals (tid div 4) (tid mod 4) ! pg)"
      by (auto simp: st_def set_zip assms(2))
    moreover have "tid mod 4 < 4" by simp
    ultimately show ?R using row by blast
  next
    assume ?R
    then obtain row pg l where r: "row < height" "pg < ppl" "l < 4" "s = (addr row l pg, vals row l ! pg)" by blast
    let ?t = "row * 4 + l"
    have t: "?t < ?n" "?t div 4 = row" "?t mod 4 = l" using addr_less [OF r(1,3)] n r(3) by simp_all
    let ?z = "zip (map (addr row l) [0..<ppl]) (vals row l)"
    have "?z ! pg \<in> set ?z" using r(2) assms(2) by (intro nth_mem) simp
    then have "s \<in> set (st ?t)" unfolding st_def t(2,3) using r assms(2) by simp
    then show ?L using t(1) by auto
  qed
  show thesis by (rule that [OF l]) (intro allI st)
qed

lemma encode_launch:
  assumes "planar_ok f ppl height"
  obtains ss where "ip10_pack_422 f (ppl * 2) height = Some ss"
    "\<forall>s. s \<in> set ss \<longleftrightarrow> (\<exists>row pg l. row < height \<and> pg < ppl \<and> l < 4 \<and> s = ((row * ppl + pg) * 4 + l,
       lane_walk encode_step (default_table ip10)
         (map (\<lambda>k. plane_of (lane_plane l) f ! (row * (ppl * lane_back l) + (k * lane_back l + lane_off l))) [0..<ppl]) ! pg))"
proof -
  let ?vals = "\<lambda>row l. lane_walk encode_step (default_table ip10)
         (map (\<lambda>k. plane_of (lane_plane l) f ! (row * (ppl * lane_back l) + (k * lane_back l + lane_off l))) [0..<ppl])"
  let ?addr = "\<lambda>row l pg. (row * ppl + pg) * 4 + l"
  have t: "ip10_encode422 f (ppl * 2) height tid = Some (if tid div 4 < height
      then zip (map (?addr (tid div 4) (tid mod 4)) [0..<ppl]) (?vals (tid div 4) (tid mod 4)) else [])" for tid
    using encode_thread [OF assms, of tid] by (auto simp: ip10_encode422_def Let_def)
  obtain ss where "launch (ip10_encode422 f (ppl * 2) height) (grid_threads kBlock (height * 4)) = Some ss"
    "\<forall>s. s \<in> set ss \<longleftrightarrow> (\<exists>row pg l. row < height \<and> pg < ppl \<and> l < 4 \<and> s = (?addr row l pg, ?vals row l ! pg))"
    by (rule lane_launch [where addr = ?addr and vals = ?vals, OF t]) simp_all
  then show thesis by (intro that) (simp_all add: ip10_pack_422_def)
qed

text \<open>The code the reference computes for the plane of a lane.\<close>

lemma lane_reference:
  assumes "planar_ok f ppl height"
  obtains code where "encode_plane (plane_of (lane_plane l) f) (ppl * lane_back l) height (lane_back l) = Some code"
    "\<forall>row<height. \<forall>pg<ppl. code ! ((row * ppl + pg) * lane_back l + lane_off l) =
       lane_walk encode_step (default_table ip10)
         (map (\<lambda>k. plane_of (lane_plane l) f ! (row * (ppl * lane_back l) + (k * lane_back l + lane_off l))) [0..<ppl]) ! pg"
proof -
  obtain code where c: "encode_plane (plane_of (lane_plane l) f) (ppl * lane_back l) height (lane_back l) = Some code"
    "\<forall>r<height. \<forall>j<ppl. \<forall>o'<lane_back l. code ! (r * (ppl * lane_back l) + (j * lane_back l + o')) =
       lane_walk encode_step (default_table ip10)
         (map (\<lambda>k. plane_of (lane_plane l) f ! (r * (ppl * lane_back l) + (k * lane_back l + o'))) [0..<ppl]) ! j"
    unfolding encode_plane_def
    by (rule plane_walk_lane [where step = encode_step, OF lane_back_cases(1) [of l] refl planar_ok_length [OF assms]])
  have a: "(row * ppl + pg) * lane_back l + lane_off l = row * (ppl * lane_back l) + (pg * lane_back l + lane_off l)" for row pg
    by (simp add: algebra_simps)
  show thesis by (rule that [OF c(1)]) (unfold a, use c(2) lane_back_cases(2) [of l] in blast)
qed

lemma ip10_pack_result:
  assumes "planar_ok f ppl height" "ip10_pack_422 f (ppl * 2) height = Some ss"
    and "mset stores = mset ss" "length packed = ppl * height * 4"
  shows "\<exists>ey ecb ecr. encode_plane (pl_y f) (ppl * 2) height 2 = Some ey \<and>
    encode_plane (pl_cb f) ppl height 1 = Some ecb \<and> encode_plane (pl_cr f) ppl height 1 = Some ecr \<and>
    apply_stores stores packed =
      concat (map (\<lambda>k. [ecb ! k, ey ! (k * 2), ecr ! k, ey ! (k * 2 + 1)]) [0..<ppl * height])"
proof -
  obtain c0 where c0: "encode_plane (pl_cb f) ppl height 1 = Some c0"
    "\<forall>row<height. \<forall>pg<ppl. c0 ! (row * ppl + pg) = lane_walk encode_step (default_table ip10)
         (map (\<lambda>k. plane_of (lane_plane 0) f ! (row * (ppl * lane_back 0) + (k * lane_back 0 + lane_off 0))) [0..<ppl]) ! pg"
    using lane_reference [OF assms(1), of 0] by (auto simp: lane_plane_def lane_back_def lane_off_def)
  obtain c2 where c2: "encode_plane (pl_cr f) ppl height 1 = Some c2"
    "\<forall>row<height. \<forall>pg<ppl. c2 ! (row * ppl + pg) = lane_walk encode_step (default_table ip10)
         (map (\<lambda>k. plane_of (lane_plane 2) f ! (row * (ppl * lane_back 2) + (k * lane_back 2 + lane_off 2))) [0..<ppl]) ! pg"
    using lane_reference [OF assms(1), of 2] by (auto simp: lane_plane_def lane_back_def lane_off_def)
  obtain cy where cy: "encode_plane (pl_y f) (ppl * 2) height 2 = Some cy"
    "\<forall>row<height. \<forall>pg<ppl. cy ! ((row * ppl + pg) * 2) = lane_walk encode_step (default_table ip10)
         (map (\<lambda>k. plane_of (lane_plane 1) f ! (row * (ppl * lane_back 1) + (k * lane_back 1 + lane_off 1))) [0..<ppl]) ! pg"
    using lane_reference [OF assms(1), of 1] by (auto simp: lane_plane_def lane_back_def lane_off_def)
  have cy1: "\<forall>row<height. \<forall>pg<ppl. cy ! ((row * ppl + pg) * 2 + 1) = lane_walk encode_step (default_table ip10)
         (map (\<lambda>k. plane_of (lane_plane 3) f ! (row * (ppl * lane_back 3) + (k * lane_back 3 + lane_off 3))) [0..<ppl]) ! pg"
    using lane_reference [OF assms(1), of 3] cy(1) by (auto simp: lane_plane_def lane_back_def lane_off_def)
  let ?grp = "\<lambda>k. [c0 ! k, cy ! (k * 2), c2 ! k, cy ! (k * 2 + 1)]"
  let ?vs = "concat (map ?grp [0..<ppl * height])"
  have rows: "\<forall>row\<in>set (map ?grp [0..<ppl * height]). length row = 4" by auto
  have len: "length ?vs = ppl * height * 4" using length_concat_rows [OF rows] by simp
  obtain ss' where ss': "ip10_pack_422 f (ppl * 2) height = Some ss'"
    "\<forall>s. s \<in> set ss' \<longleftrightarrow> (\<exists>row pg l. row < height \<and> pg < ppl \<and> l < 4 \<and> s = ((row * ppl + pg) * 4 + l,
       lane_walk encode_step (default_table ip10)
         (map (\<lambda>k. plane_of (lane_plane l) f ! (row * (ppl * lane_back l) + (k * lane_back l + lane_off l))) [0..<ppl]) ! pg))"
    by (rule encode_launch [OF assms(1)])
  have set: "set stores = set ss'" using ss'(1) assms(2,3) by (metis option.inject set_mset_mset)
  have v: "?vs ! ((row * ppl + pg) * 4 + l) = lane_walk encode_step (default_table ip10)
      (map (\<lambda>k. plane_of (lane_plane l) f ! (row * (ppl * lane_back l) + (k * lane_back l + lane_off l))) [0..<ppl]) ! pg"
    if r: "row < height" "pg < ppl" "l < 4" for row pg l
  proof -
    have k: "row * ppl + pg < ppl * height" using addr_less [OF r(1,2)] by (simp add: mult.commute)
    have "?vs ! ((row * ppl + pg) * 4 + l) = ?grp (row * ppl + pg) ! l"
      using concat_rows_nth [OF rows, of "row * ppl + pg" l] k r(3) by simp
    moreover have "l = 0 \<or> l = 1 \<or> l = 2 \<or> l = 3" using r(3) by auto
    ultimately show ?thesis using c0(2) c2(2) cy(2) cy1 r(1,2) by (elim disjE) simp_all
  qed
  have "apply_stores stores packed = ?vs"
  proof (rule apply_stores_all)
    show "length packed = length ?vs" using assms(4) len by simp
    show "(i, ?vs ! i) \<in> set stores" if "i < length ?vs" for i
    proof -
      obtain k l where k: "i = k * 4 + l" "k < height * ppl" "l < 4"
        using split_addr [of i "height * ppl" 4] \<open>i < length ?vs\<close> len by (auto simp: mult.commute)
      then obtain row pg where "k = row * ppl + pg" "row < height" "pg < ppl"
        using split_addr [of k height ppl] by (cases "ppl = 0") auto
      with k v show ?thesis unfolding set ss'(2) [rule_format] by blast
    qed
    show "a < length ?vs \<and> w = ?vs ! a" if "(a, w) \<in> set stores" for a w
    proof -
      obtain row pg l where r: "row < height" "pg < ppl" "l < 4" "a = (row * ppl + pg) * 4 + l"
        "w = lane_walk encode_step (default_table ip10)
         (map (\<lambda>k. plane_of (lane_plane l) f ! (row * (ppl * lane_back l) + (k * lane_back l + lane_off l))) [0..<ppl]) ! pg"
        using \<open>(a, w) \<in> set stores\<close> unfolding set ss'(2) [rule_format] prod.inject by blast
      have "w = ?vs ! a" unfolding r(4) by (rule r(5) [folded v [OF r(1-3)]])
      then show ?thesis
        using addr_less [OF addr_less [OF r(1,2)] r(3)] len r(4) by (simp add: mult.commute)
    qed
  qed
  with c0(1) c2(1) cy(1) show ?thesis by blast
qed

text \<open>C8 - The transmit kernel is the reference encoder: for every frame geometry, in every interleaving of
  the stores of all its threads and whatever the buffer held, the packed frame holds exactly the pgroups
  \<open>Cb Y0 Cr Y1\<close> of the code words the CPU walk computes for the three planes.\<close>
theorem ip10_pack_matches_reference:
  assumes "planar_ok f ppl height" "ip10_pack_422 f (ppl * 2) height = Some ss"
    and "mset stores = mset ss" "length packed = ppl * height * 4"
  shows "\<exists>ey ecb ecr. encode_plane (pl_y f) (ppl * 2) height 2 = Some ey \<and>
    encode_plane (pl_cb f) ppl height 1 = Some ecb \<and> encode_plane (pl_cr f) ppl height 1 = Some ecr \<and>
    apply_stores stores packed =
      concat (map (\<lambda>k. [ecb ! k, ey ! (k * 2), ecr ! k, ey ! (k * 2 + 1)]) [0..<ppl * height])"
  by (rule ip10_pack_result [OF assms])

theorem ip10_pack_matches_reference_witness:
  "\<exists>ss. ip10_pack_422 \<lparr>pl_y = [500, 600, 700, 800], pl_cb = [512, 100], pl_cr = [512, 900]\<rparr> 2 2 = Some ss \<and>
     length (apply_stores (rev ss) (replicate 8 0)) = 8 \<and>
     apply_stores (rev ss) (replicate 8 0) ! 0 = the (encode_plane [512, 100] 1 2 1) ! 0"
proof -
  let ?f = "\<lparr>pl_y = [500, 600, 700, 800 :: u16], pl_cb = [512, 100], pl_cr = [512, 900]\<rparr>"
  have ok: "planar_ok ?f 1 2" by (simp add: planar_ok_def)
  obtain ss where ss: "ip10_pack_422 ?f (1 * 2) 2 = Some ss" by (rule encode_launch [OF ok])
  have "mset (rev ss) = mset ss" "length (replicate 8 (0 :: u8)) = 1 * 2 * 4" by simp_all
  from ip10_pack_matches_reference [OF ok ss this] ss show ?thesis by (auto simp: upt_rec)
qed

section \<open>The receive kernel\<close>

fun plane_back :: "plane \<Rightarrow> nat" where
  "plane_back PlaneY = 2"
| "plane_back _ = 1"

fun plane_lane :: "plane \<Rightarrow> nat \<Rightarrow> nat" where
  "plane_lane PlaneCb _ = 0"
| "plane_lane PlaneCr _ = 2"
| "plane_lane PlaneY o' = (if o' = 0 then 1 else 3)"

lemma plane_lane_inv:
  "o' < plane_back p \<Longrightarrow> plane_lane p o' < 4 \<and> lane_plane (plane_lane p o') = p \<and>
     lane_back (plane_lane p o') = plane_back p \<and> lane_off (plane_lane p o') = o'"
  by (cases p) (auto simp: lane_plane_def lane_back_def lane_off_def)

lemma lane_plane_inv:
  "l < 4 \<Longrightarrow> plane_lane (lane_plane l) (lane_off l) = l \<and> plane_back (lane_plane l) = lane_back l"
  by (cases "l = 0"; cases "l = 1"; cases "l = 2"; cases "l = 3")
    (simp_all add: lane_plane_def lane_off_def lane_back_def)

text \<open>The code words of a plane, from the pgroups.\<close>

definition plane_codes :: "plane \<Rightarrow> nat \<Rightarrow> u8 list \<Rightarrow> u8 list" where
  "plane_codes p n packed =
     map (\<lambda>i. packed ! (i div plane_back p * 4 + plane_lane p (i mod plane_back p))) [0..<n * plane_back p]"

lemma plane_codes_nth:
  assumes "k < n" "o' < plane_back p"
  shows "plane_codes p n packed ! (k * plane_back p + o') = packed ! (k * 4 + plane_lane p o')"
  using addr_less [OF assms] assms(2) by (simp add: plane_codes_def)

definition lane_dec :: "u8 list \<Rightarrow> nat \<Rightarrow> nat \<Rightarrow> nat \<Rightarrow> u16 list" where
  "lane_dec packed ppl row l =
     lane_walk decode_step (default_table ip10) (map (\<lambda>k. packed ! ((row * ppl + k) * 4 + l)) [0..<ppl])"

lemma decode_launch:
  assumes "length packed = ppl * height * 4"
  obtains ss where "ip10_unpack_422 packed (ppl * 2) height = Some ss"
    "\<forall>s. s \<in> set ss \<longleftrightarrow> (\<exists>row pg l. row < height \<and> pg < ppl \<and> l < 4 \<and>
       s = ((lane_plane l, (row * ppl + pg) * lane_back l + lane_off l), lane_dec packed ppl row l ! pg))"
proof -
  let ?addr = "\<lambda>row l pg. (lane_plane l, (row * ppl + pg) * lane_back l + lane_off l)"
  have t: "ip10_decode422 packed (ppl * 2) height tid = Some (if tid div 4 < height
      then zip (map (?addr (tid div 4) (tid mod 4)) [0..<ppl]) (lane_dec packed ppl (tid div 4) (tid mod 4)) else [])" for tid
  proof (cases "tid div 4 < height")
    case True
    let ?l = "tid mod 4" and ?r = "tid div 4"
    have "(?r * ppl + k) * 4 + ?l < ppl * height * 4" if "k < ppl" for k
      using addr_less [OF addr_less [OF True that], of ?l 4] by (simp add: mult.commute)
    then have "gather packed (?r * ppl * 4 + ?l) 4 ppl = Some (map (\<lambda>k. packed ! (?r * ppl * 4 + ?l + k * 4)) [0..<ppl])"
      using assms by (intro gather_Some) (simp add: ac_simps add_mult_distrib)
    moreover have "(\<lambda>k. packed ! (?r * ppl * 4 + ?l + k * 4)) = (\<lambda>k. packed ! ((?r * ppl + k) * 4 + ?l))"
      by (simp add: algebra_simps)
    moreover have "(\<lambda>pg. (lane_plane ?l, ?r * (ppl * lane_back ?l) + lane_off ?l + pg * lane_back ?l)) = ?addr ?r ?l"
      by (simp add: algebra_simps)
    ultimately show ?thesis
      using True lane_ptr_eq [of ?l ?r ppl] by (simp add: ip10_decode422_def Let_def lane_dec_def)
  qed (simp add: ip10_decode422_def Let_def)
  obtain ss where "launch (ip10_decode422 packed (ppl * 2) height) (grid_threads kBlock (height * 4)) = Some ss"
    "\<forall>s. s \<in> set ss \<longleftrightarrow> (\<exists>row pg l. row < height \<and> pg < ppl \<and> l < 4 \<and> s = (?addr row l pg, lane_dec packed ppl row l ! pg))"
    by (rule lane_launch [where addr = ?addr and vals = "lane_dec packed ppl", OF t]) (simp_all add: lane_dec_def)
  then show thesis by (intro that) (simp_all add: ip10_unpack_422_def)
qed

lemma plane_decoded:
  assumes "ip10_unpack_422 packed (ppl * 2) height = Some ss" "mset stores = mset ss"
    and "length packed = ppl * height * 4" "length old = ppl * height * plane_back p"
  shows "decode_plane (plane_codes p (ppl * height) packed) (ppl * plane_back p) height (plane_back p) =
    Some (apply_stores (plane_stores p stores) old)"
proof -
  let ?b = "plane_back p"
  have b: "?b = 1 \<or> ?b = 2" by (cases p) simp_all
  have "length (plane_codes p (ppl * height) packed) = ppl * ?b * height" by (simp add: plane_codes_def ac_simps)
  from plane_walk_lane [where step = decode_step, OF b refl this] obtain vs where
    vs: "decode_plane (plane_codes p (ppl * height) packed) (ppl * ?b) height ?b = Some vs" "length vs = ppl * ?b * height"
    and vs_nth: "\<forall>r<height. \<forall>j<ppl. \<forall>o'<?b. vs ! (r * (ppl * ?b) + (j * ?b + o')) = lane_walk decode_step (default_table ip10)
       (map (\<lambda>k. plane_codes p (ppl * height) packed ! (r * (ppl * ?b) + (k * ?b + o'))) [0..<ppl]) ! j"
    unfolding decode_plane_def by metis
  have val: "vs ! ((r * ppl + j) * ?b + o') = lane_dec packed ppl r (plane_lane p o') ! j"
    if r: "r < height" and j: "j < ppl" and o: "o' < ?b" for r j o'
  proof -
    have a: "r * (ppl * ?b) + (k * ?b + o') = (r * ppl + k) * ?b + o'" for k by (simp add: algebra_simps)
    have "plane_codes p (ppl * height) packed ! ((r * ppl + k) * ?b + o') = packed ! ((r * ppl + k) * 4 + plane_lane p o')"
      if "k < ppl" for k
      using addr_less [OF r that] o by (intro plane_codes_nth) (simp_all add: mult.commute)
    then have m: "map (\<lambda>k. plane_codes p (ppl * height) packed ! ((r * ppl + k) * ?b + o')) [0..<ppl] =
        map (\<lambda>k. packed ! ((r * ppl + k) * 4 + plane_lane p o')) [0..<ppl]" by simp
    have "vs ! (r * (ppl * ?b) + (j * ?b + o')) = lane_walk decode_step (default_table ip10)
       (map (\<lambda>k. plane_codes p (ppl * height) packed ! (r * (ppl * ?b) + (k * ?b + o'))) [0..<ppl]) ! j"
      using vs_nth r j o by blast
    then show ?thesis unfolding a m lane_dec_def .
  qed
  obtain ss' where ss': "ip10_unpack_422 packed (ppl * 2) height = Some ss'"
    "\<forall>s. s \<in> set ss' \<longleftrightarrow> (\<exists>row pg l. row < height \<and> pg < ppl \<and> l < 4 \<and>
       s = ((lane_plane l, (row * ppl + pg) * lane_back l + lane_off l), lane_dec packed ppl row l ! pg))"
    by (rule decode_launch [OF assms(3)])
  have set: "set stores = set ss'" using ss'(1) assms(1,2) by (metis option.inject set_mset_mset)
  have mem: "(a, v) \<in> set (plane_stores p stores) \<longleftrightarrow> ((p, a), v) \<in> set stores" for a v
    by (force simp: plane_stores_def)
  have "apply_stores (plane_stores p stores) old = vs"
  proof (rule apply_stores_all)
    show "length old = length vs" using assms(4) vs(2) by (simp add: ac_simps)
    show "(i, vs ! i) \<in> set (plane_stores p stores)" if i: "i < length vs" for i
    proof -
      obtain k o' where k: "i = k * ?b + o'" "k < height * ppl" "o' < ?b"
        using split_addr [of i "height * ppl" ?b] i vs(2) b by (auto simp: ac_simps)
      then obtain row pg where rp: "k = row * ppl + pg" "row < height" "pg < ppl"
        using split_addr [of k height ppl] by (cases "ppl = 0") auto
      have v: "vs ! i = lane_dec packed ppl row (plane_lane p o') ! pg" unfolding k(1) rp(1) by (rule val [OF rp(2,3) k(3)])
      show ?thesis
        unfolding mem set ss'(2) [rule_format] v
        using rp k plane_lane_inv [OF k(3)] by (intro exI [of _ row] exI [of _ pg] exI [of _ "plane_lane p o'"]) simp
    qed
    show "a < length vs \<and> v = vs ! a" if "(a, v) \<in> set (plane_stores p stores)" for a v
    proof -
      obtain row pg l where r: "row < height" "pg < ppl" "l < 4" "p = lane_plane l"
        "a = (row * ppl + pg) * lane_back l + lane_off l" "v = lane_dec packed ppl row l ! pg"
        using \<open>(a, v) \<in> _\<close> unfolding mem set ss'(2) [rule_format] prod.inject by blast
      have l: "plane_lane p (lane_off l) = l" "?b = lane_back l" using lane_plane_inv [OF r(3)] r(4) by simp_all
      have o: "lane_off l < ?b" using lane_back_cases(2) l(2) by simp
      have "vs ! a = lane_dec packed ppl row l ! pg" using val [OF r(1,2) o] l by (simp add: r(5))
      moreover have "a < length vs"
        using addr_less [OF addr_less [OF r(1,2)] o] vs(2) l(2) by (simp add: r(5) ac_simps)
      ultimately show ?thesis using r(6) by simp
    qed
  qed
  with vs(1) show ?thesis by simp
qed

text \<open>C9 - The receive kernel is the reference decoder: in every interleaving of the stores of all its
  threads and whatever the planes held, each plane of the frame becomes what the CPU walk decodes from
  that plane's code words in the pgroups.\<close>
theorem ip10_unpack_matches_reference:
  assumes "ip10_unpack_422 packed (ppl * 2) height = Some ss" "mset stores = mset ss"
    and "length packed = ppl * height * 4" "planar_ok old ppl height"
  shows "decode_plane (plane_codes PlaneY (ppl * height) packed) (ppl * 2) height 2 =
      Some (apply_stores (plane_stores PlaneY stores) (pl_y old)) \<and>
    decode_plane (plane_codes PlaneCb (ppl * height) packed) ppl height 1 =
      Some (apply_stores (plane_stores PlaneCb stores) (pl_cb old)) \<and>
    decode_plane (plane_codes PlaneCr (ppl * height) packed) ppl height 1 =
      Some (apply_stores (plane_stores PlaneCr stores) (pl_cr old))"
  using plane_decoded [OF assms(1-3), of "pl_y old" PlaneY] plane_decoded [OF assms(1-3), of "pl_cb old" PlaneCb]
    plane_decoded [OF assms(1-3), of "pl_cr old" PlaneCr] assms(4)
  by (simp add: planar_ok_def ac_simps)

theorem ip10_unpack_matches_reference_witness:
  "\<exists>ss. ip10_unpack_422 [10, 20, 30, 40, 50, 60, 70, 80] 2 2 = Some ss \<and>
     decode_plane (plane_codes PlaneCb 2 [10, 20, 30, 40, 50, 60, 70, 80]) 1 2 1 =
       Some (apply_stores (plane_stores PlaneCb (rev ss)) [0, 0])"
proof -
  let ?p = "[10, 20, 30, 40, 50, 60, 70, 80 :: u8]"
  have len: "length ?p = 1 * 2 * 4" by simp
  obtain ss where ss: "ip10_unpack_422 ?p (1 * 2) 2 = Some ss" by (rule decode_launch [OF len])
  have "planar_ok \<lparr>pl_y = [0, 0, 0, 0], pl_cb = [0, 0], pl_cr = [0, 0]\<rparr> 1 2" by (simp add: planar_ok_def)
  from ip10_unpack_matches_reference [OF ss mset_rev len this] ss show ?thesis by auto
qed

end
