(* ===== verification/Pixel_Codec.thy ===== *)
theory Pixel_Codec
  imports Ip10_Codec
begin

text \<open>
  The 10-bit pgroup kernels of \<open>engine/operators/codec/pixel_codec.cu\<close>: a thread per pgroup of two
  pixels, five octets on the packed side, two luma and two chroma samples on the planar side.
\<close>

section \<open>One pgroup\<close>

type_synonym pgroup = "u16 \<times> u16 \<times> u16 \<times> u16"

text \<open>\<open>Cb\<close>, \<open>Y0\<close>, \<open>Cr\<close>, \<open>Y1\<close> of five octets.\<close>

fun unpack_pgroup :: "u8 list \<Rightarrow> pgroup" where
  "unpack_pgroup [p0, p1, p2, p3, p4] =
     (let b0 = ucast p0 :: u32; b1 = ucast p1 :: u32; b2 = ucast p2 :: u32; b3 = ucast p3 :: u32; b4 = ucast p4 :: u32
      in (ucast (push_bit 2 b0 OR drop_bit 6 b1), ucast (push_bit 4 (b1 AND 0x3f) OR drop_bit 4 b2),
          ucast (push_bit 6 (b2 AND 0x0f) OR drop_bit 2 b3), ucast (push_bit 8 (b3 AND 0x03) OR b4)))"
| "unpack_pgroup _ = (0, 0, 0, 0)"

fun pack_pgroup :: "pgroup \<Rightarrow> u8 list" where
  "pack_pgroup (cb, y, cr, yy) =
     (let cb0 = ucast cb AND 0x3ff :: u32; cr0 = ucast cr AND 0x3ff :: u32;
          y0 = ucast y AND 0x3ff :: u32; y1 = ucast yy AND 0x3ff :: u32
      in [ucast (drop_bit 2 cb0), ucast (push_bit 6 (cb0 AND 0x3) OR drop_bit 4 y0),
          ucast (push_bit 4 (y0 AND 0xf) OR drop_bit 6 cr0), ucast (push_bit 2 (cr0 AND 0x3f) OR drop_bit 8 y1),
          ucast (y1 AND 0xff)])"

section \<open>The kernels\<close>

definition unpack422_10 :: "u8 list \<Rightarrow> nat \<Rightarrow> nat \<Rightarrow> nat \<Rightarrow> (plane \<times> nat, u16) store list option" where
  "unpack422_10 packed width height idx =
     (let ppl = width div 2 in
      if idx \<ge> ppl * height then Some []
      else
        let r = idx div ppl; pg = idx mod ppl; yrow = r * width + pg * 2; crow = r * ppl + pg in
        map_option (\<lambda>p. let (cb0, y0, cr0, y1) = unpack_pgroup p in
            [((PlaneY, yrow), y0), ((PlaneY, yrow + 1), y1), ((PlaneCb, crow), cb0), ((PlaneCr, crow), cr0)])
          (mem_read packed (idx * 5) 5))"

definition pack422_10 :: "planar \<Rightarrow> nat \<Rightarrow> nat \<Rightarrow> nat \<Rightarrow> (nat, u8) store list option" where
  "pack422_10 f width height idx =
     (let ppl = width div 2 in
      if idx \<ge> ppl * height then Some []
      else
        let r = idx div ppl; pg = idx mod ppl; yrow = r * width + pg * 2; crow = r * ppl + pg in
        do {
          cb0 \<leftarrow> mem_get (pl_cb f) crow;
          cr0 \<leftarrow> mem_get (pl_cr f) crow;
          y0 \<leftarrow> mem_get (pl_y f) yrow;
          y1 \<leftarrow> mem_get (pl_y f) (yrow + 1);
          Some (zip (map (\<lambda>k. idx * 5 + k) [0..<5]) (pack_pgroup (cb0, y0, cr0, y1)))
        })"

definition unpack_422_10 :: "u8 list \<Rightarrow> nat \<Rightarrow> nat \<Rightarrow> (plane \<times> nat, u16) store list option" where
  "unpack_422_10 packed width height =
     launch (unpack422_10 packed width height) (grid_threads 256 (width div 2 * height))"

definition pack_422_10 :: "planar \<Rightarrow> nat \<Rightarrow> nat \<Rightarrow> (nat, u8) store list option" where
  "pack_422_10 f width height = launch (pack422_10 f width height) (grid_threads 256 (width div 2 * height))"

section \<open>The pgroup bijection\<close>

lemma hex_masks:
  "(0x3ff :: 'a::len word) = mask 10" "(0xff :: 'a word) = mask 8" "(0x3f :: 'a word) = mask 6"
  "(0xf :: 'a word) = mask 4" "(0x3 :: 'a word) = mask 2"
  by (simp_all add: mask_eq_exp_minus_1)

lemma byte_bit_beyond [simp]: "8 \<le> n \<Longrightarrow> \<not> bit (w :: u8) n"
  by (auto dest: bit_imp_le_length)

lemma byte_eqI: "\<forall>n\<in>set [0..<8]. bit v n = bit w n \<Longrightarrow> v = (w :: u8)"
  by (rule bit_word_eqI) simp

lemma sample_eqI: "\<forall>n\<in>set [0..<16]. bit v n = bit w n \<Longrightarrow> v = (w :: u16)"
  by (rule bit_word_eqI) simp

lemma pack_unpack_pgroup: "length p = 5 \<Longrightarrow> pack_pgroup (unpack_pgroup p) = p"
proof -
  assume "length p = 5"
  then obtain p0 p1 p2 p3 p4 where p: "p = [p0, p1, p2, p3, p4]"
    by (auto simp: length_Suc_conv eval_nat_numeral)
  show ?thesis
    unfolding p unpack_pgroup.simps pack_pgroup.simps Let_def prod.case hex_masks list.inject
    by (intro conjI refl TrueI; rule byte_eqI; (simp add: upt_rec bit_simps; simp add: eval_nat_numeral)?)
qed

lemma unpack_pack_pgroup:
  "unpack_pgroup (pack_pgroup (cb, y, cr, yy)) = (cb AND 0x3ff, y AND 0x3ff, cr AND 0x3ff, yy AND 0x3ff)"
  unfolding unpack_pgroup.simps pack_pgroup.simps Let_def hex_masks prod.inject
  by (intro conjI; rule sample_eqI; (simp add: upt_rec bit_simps; simp add: eval_nat_numeral)?)

lemma length_pack_pgroup [simp]: "length (pack_pgroup g) = 5"
  by (cases g) (simp add: Let_def)

declare pack_pgroup.simps [simp del]

section \<open>A frame through unpack and pack\<close>

lemma unpack_launch:
  assumes "length packed = ppl * height * 5"
  obtains ss where "unpack_422_10 packed (ppl * 2) height = Some ss"
    "\<forall>a v. (a, v) \<in> set ss \<longleftrightarrow> (\<exists>k < ppl * height. case unpack_pgroup (take 5 (drop (k * 5) packed)) of
       (cb, y0, cr, y1) \<Rightarrow> (a, v) = ((PlaneY, k * 2), y0) \<or> (a, v) = ((PlaneY, k * 2 + 1), y1) \<or>
         (a, v) = ((PlaneCb, k), cb) \<or> (a, v) = ((PlaneCr, k), cr))"
proof -
  define st where "st k = (if k < ppl * height then
      (let (cb, y0, cr, y1) = unpack_pgroup (take 5 (drop (k * 5) packed)) in
       [((PlaneY, k * 2), y0), ((PlaneY, k * 2 + 1), y1), ((PlaneCb, k), cb), ((PlaneCr, k), cr)]) else [])" for k
  let ?n = "grid_threads 256 (ppl * height)"
  have t: "unpack422_10 packed (ppl * 2) height k = Some (st k)" for k
  proof (cases "k < ppl * height")
    case True
    then have k: "k * 5 + 5 \<le> length packed" using assms by simp
    have "k div ppl * (ppl * 2) + k mod ppl * 2 = (k div ppl * ppl + k mod ppl) * 2"
      by (simp only: add_mult_distrib mult.assoc)
    then have a: "k div ppl * (ppl * 2) + k mod ppl * 2 = k * 2" "k div ppl * ppl + k mod ppl = k"
      by (simp_all only: div_mult_mod_eq)
    show ?thesis
      unfolding unpack422_10_def Let_def nonzero_mult_div_cancel_right [OF zero_neq_numeral [symmetric]] a
      using True k by (simp add: mem_read_def st_def Let_def split: prod.split)
  qed (simp add: unpack422_10_def st_def)
  have l: "unpack_422_10 packed (ppl * 2) height = Some (concat (map st [0..<?n]))"
    using launch_Some [OF t] by (simp add: unpack_422_10_def)
  have mem: "(a, v) \<in> set (concat (map st [0..<?n])) \<longleftrightarrow>
      (\<exists>k < ppl * height. case unpack_pgroup (take 5 (drop (k * 5) packed)) of
       (cb, y0, cr, y1) \<Rightarrow> (a, v) = ((PlaneY, k * 2), y0) \<or> (a, v) = ((PlaneY, k * 2 + 1), y1) \<or>
         (a, v) = ((PlaneCb, k), cb) \<or> (a, v) = ((PlaneCr, k), cr))" for a v
  proof -
    have "(a, v) \<in> set (concat (map st [0..<?n])) \<longleftrightarrow> (\<exists>k < ppl * height. (a, v) \<in> set (let (cb, y0, cr, y1) = unpack_pgroup (take 5 (drop (k * 5) packed)) in
       [((PlaneY, k * 2), y0), ((PlaneY, k * 2 + 1), y1), ((PlaneCb, k), cb), ((PlaneCr, k), cr)]))"
      unfolding st_def by (rule guarded_stores, rule grid_threads_covers) simp
    moreover have "(a, v) \<in> set (let (cb, y0, cr, y1) = unpack_pgroup (take 5 (drop (k * 5) packed)) in
       [((PlaneY, k * 2), y0), ((PlaneY, k * 2 + 1), y1), ((PlaneCb, k), cb), ((PlaneCr, k), cr)]) \<longleftrightarrow> (case unpack_pgroup (take 5 (drop (k * 5) packed)) of
       (cb, y0, cr, y1) \<Rightarrow> (a, v) = ((PlaneY, k * 2), y0) \<or> (a, v) = ((PlaneY, k * 2 + 1), y1) \<or>
         (a, v) = ((PlaneCb, k), cb) \<or> (a, v) = ((PlaneCr, k), cr))" for k
      by (simp add: case_prod_unfold Let_def)
    ultimately show ?thesis by (simp only:)
  qed
  show thesis by (rule that [OF l]) (intro allI mem)
qed

text \<open>The planes after an unpack: the samples of the pgroups.\<close>

definition unpacked :: "u8 list \<Rightarrow> nat \<Rightarrow> planar" where
  "unpacked packed n =
     (let g = (\<lambda>k. unpack_pgroup (take 5 (drop (k * 5) packed)))
      in \<lparr>pl_y = concat (map (\<lambda>k. case g k of (cb, y0, cr, y1) \<Rightarrow> [y0, y1]) [0..<n]),
          pl_cb = map (\<lambda>k. fst (g k)) [0..<n], pl_cr = map (\<lambda>k. fst (snd (snd (g k)))) [0..<n]\<rparr>)"

lemma unpacked_y:
  "length (pl_y (unpacked packed n)) = n * 2"
  "k < n \<Longrightarrow> pl_y (unpacked packed n) ! (k * 2) = fst (snd (unpack_pgroup (take 5 (drop (k * 5) packed))))"
  "k < n \<Longrightarrow> pl_y (unpacked packed n) ! (k * 2 + 1) = snd (snd (snd (unpack_pgroup (take 5 (drop (k * 5) packed)))))"
proof -
  let ?r = "\<lambda>k. case unpack_pgroup (take 5 (drop (k * 5) packed)) of (cb, y0, cr, y1) \<Rightarrow> [y0, y1]"
  have rows: "\<forall>row\<in>set (map ?r [0..<n]). length row = 2" by (auto split: prod.splits)
  show "length (pl_y (unpacked packed n)) = n * 2"
    using length_concat_rows [OF rows] by (simp add: unpacked_def Let_def)
  show "k < n \<Longrightarrow> pl_y (unpacked packed n) ! (k * 2) = fst (snd (unpack_pgroup (take 5 (drop (k * 5) packed))))"
    "k < n \<Longrightarrow> pl_y (unpacked packed n) ! (k * 2 + 1) = snd (snd (snd (unpack_pgroup (take 5 (drop (k * 5) packed)))))"
    using concat_rows_nth [OF rows, of k 0] concat_rows_nth [OF rows, of k 1]
    by (auto simp: unpacked_def Let_def split: prod.splits)
qed

lemma unpack_result:
  assumes "unpack_422_10 packed (ppl * 2) height = Some ss" "mset stores = mset ss"
    and "length packed = ppl * height * 5" "planar_ok old ppl height"
  shows "apply_stores (plane_stores PlaneY stores) (pl_y old) = pl_y (unpacked packed (ppl * height))"
    "apply_stores (plane_stores PlaneCb stores) (pl_cb old) = pl_cb (unpacked packed (ppl * height))"
    "apply_stores (plane_stores PlaneCr stores) (pl_cr old) = pl_cr (unpacked packed (ppl * height))"
proof -
  let ?n = "ppl * height" and ?g = "\<lambda>k. unpack_pgroup (take 5 (drop (k * 5) packed))"
  obtain ss' where ss': "unpack_422_10 packed (ppl * 2) height = Some ss'"
    "\<forall>a v. (a, v) \<in> set ss' \<longleftrightarrow> (\<exists>k < ?n. case ?g k of
       (cb, y0, cr, y1) \<Rightarrow> (a, v) = ((PlaneY, k * 2), y0) \<or> (a, v) = ((PlaneY, k * 2 + 1), y1) \<or>
         (a, v) = ((PlaneCb, k), cb) \<or> (a, v) = ((PlaneCr, k), cr))"
    by (rule unpack_launch [OF assms(3)])
  have set: "set stores = set ss'" using ss'(1) assms(1,2) by (metis option.inject set_mset_mset)
  have mem: "(a, v) \<in> set (plane_stores p stores) \<longleftrightarrow> ((p, a), v) \<in> set stores" for p a v
    by (force simp: plane_stores_def)
  note st = mem set ss'(2) [rule_format]
  show "apply_stores (plane_stores PlaneY stores) (pl_y old) = pl_y (unpacked packed ?n)"
  proof (rule apply_stores_all)
    show "length (pl_y old) = length (pl_y (unpacked packed ?n))"
      using assms(4) unpacked_y(1) [of packed ?n] by (simp add: planar_ok_def ac_simps)
    show "(i, pl_y (unpacked packed ?n) ! i) \<in> set (plane_stores PlaneY stores)" if "i < length (pl_y (unpacked packed ?n))" for i
    proof -
      have k: "i div 2 < ?n" using that unpacked_y(1) [of packed ?n] by simp
      have "i = i div 2 * 2 \<or> i = i div 2 * 2 + 1" by presburger
      then show ?thesis
        unfolding st using k unpacked_y(2,3) [OF k, of packed] by (intro exI [of _ "i div 2"]) (auto split: prod.split)
    qed
    show "a < length (pl_y (unpacked packed ?n)) \<and> v = pl_y (unpacked packed ?n) ! a"
      if av: "(a, v) \<in> set (plane_stores PlaneY stores)" for a v
    proof -
      obtain k where k: "k < ?n" and "a = k * 2 \<and> v = fst (snd (?g k)) \<or> a = k * 2 + 1 \<and> v = snd (snd (snd (?g k)))"
        using av unfolding st case_prod_unfold by auto
      then show ?thesis using unpacked_y(2,3) [OF k, of packed] unpacked_y(1) [of packed ?n] by auto
    qed
  qed
  show "apply_stores (plane_stores PlaneCb stores) (pl_cb old) = pl_cb (unpacked packed ?n)"
    by (rule apply_stores_all)
      (use assms(4) in \<open>auto simp: st planar_ok_def unpacked_def Let_def split: prod.splits\<close>)
  show "apply_stores (plane_stores PlaneCr stores) (pl_cr old) = pl_cr (unpacked packed ?n)"
    by (rule apply_stores_all)
      (use assms(4) in \<open>auto simp: st planar_ok_def unpacked_def Let_def split: prod.splits\<close>)
qed

lemma pack_launch:
  assumes "planar_ok f ppl height"
  obtains ss where "pack_422_10 f (ppl * 2) height = Some ss"
    "\<forall>a v. (a, v) \<in> set ss \<longleftrightarrow> (\<exists>k < ppl * height. \<exists>j < 5. a = k * 5 + j \<and>
       v = pack_pgroup (pl_cb f ! k, pl_y f ! (k * 2), pl_cr f ! k, pl_y f ! (k * 2 + 1)) ! j)"
proof -
  let ?g = "\<lambda>k. pack_pgroup (pl_cb f ! k, pl_y f ! (k * 2), pl_cr f ! k, pl_y f ! (k * 2 + 1))"
  define st where "st k = (if k < ppl * height then zip (map (\<lambda>j. k * 5 + j) [0..<5]) (?g k) else [])" for k
  let ?n = "grid_threads 256 (ppl * height)"
  have t: "pack422_10 f (ppl * 2) height k = Some (st k)" for k
  proof (cases "k < ppl * height")
    case True
    then have k: "k < length (pl_cb f)" "k < length (pl_cr f)" "k * 2 + 1 < length (pl_y f)"
      using assms by (simp_all add: planar_ok_def)
    have "k div ppl * (ppl * 2) + k mod ppl * 2 = (k div ppl * ppl + k mod ppl) * 2"
      by (simp only: add_mult_distrib mult.assoc)
    then have a: "k div ppl * (ppl * 2) + k mod ppl * 2 = k * 2" "k div ppl * ppl + k mod ppl = k"
      by (simp_all only: div_mult_mod_eq)
    show ?thesis
      unfolding pack422_10_def Let_def nonzero_mult_div_cancel_right [OF zero_neq_numeral [symmetric]] a
      using True k by (simp add: mem_get_Some st_def)
  qed (simp add: pack422_10_def st_def)
  have l: "pack_422_10 f (ppl * 2) height = Some (concat (map st [0..<?n]))"
    using launch_Some [OF t] by (simp add: pack_422_10_def)
  have mem: "(a, v) \<in> set (concat (map st [0..<?n])) \<longleftrightarrow>
      (\<exists>k < ppl * height. \<exists>j < 5. a = k * 5 + j \<and> v = ?g k ! j)" for a v
  proof -
    have "(a, v) \<in> set (concat (map st [0..<?n])) \<longleftrightarrow> (\<exists>k < ppl * height. (a, v) \<in> set (zip (map (\<lambda>j. k * 5 + j) [0..<5]) (?g k)))"
      unfolding st_def by (rule guarded_stores, rule grid_threads_covers) simp
    moreover have "(a, v) \<in> set (zip (map (\<lambda>j. k * 5 + j) [0..<5]) (?g k)) \<longleftrightarrow>
        (\<exists>j < 5. a = k * 5 + j \<and> v = ?g k ! j)" for k
    proof -
      show ?thesis by (rule zip_stores) simp
    qed
    ultimately show ?thesis by blast
  qed
  show thesis by (rule that [OF l]) (intro allI mem)
qed

text \<open>The packed frame the samples make.\<close>

definition packed_frame :: "planar \<Rightarrow> nat \<Rightarrow> u8 list" where
  "packed_frame f n =
     concat (map (\<lambda>k. pack_pgroup (pl_cb f ! k, pl_y f ! (k * 2), pl_cr f ! k, pl_y f ! (k * 2 + 1))) [0..<n])"

lemma length_packed_frame [simp]: "length (packed_frame f n) = n * 5"
  unfolding packed_frame_def by (subst length_concat_rows [where w = 5]) auto

lemma packed_frame_nth:
  "k < n \<Longrightarrow> j < 5 \<Longrightarrow> packed_frame f n ! (k * 5 + j) =
     pack_pgroup (pl_cb f ! k, pl_y f ! (k * 2), pl_cr f ! k, pl_y f ! (k * 2 + 1)) ! j"
  unfolding packed_frame_def by (subst concat_rows_nth [where w = 5]) auto

lemma pack_result:
  assumes "planar_ok f ppl height" "pack_422_10 f (ppl * 2) height = Some ss" "mset stores = mset ss"
    and "length out = ppl * height * 5"
  shows "apply_stores stores out = packed_frame f (ppl * height)"
proof -
  let ?n = "ppl * height"
  obtain ss' where ss': "pack_422_10 f (ppl * 2) height = Some ss'"
    and st: "\<forall>a v. (a, v) \<in> set ss' \<longleftrightarrow> (\<exists>k < ?n. \<exists>j < 5. a = k * 5 + j \<and>
       v = pack_pgroup (pl_cb f ! k, pl_y f ! (k * 2), pl_cr f ! k, pl_y f ! (k * 2 + 1)) ! j)"
    by (rule pack_launch [OF assms(1)])
  have set: "set stores = set ss'" using ss' assms(2,3) by (metis option.inject set_mset_mset)
  show ?thesis
  proof (rule apply_stores_all)
    show "(i, packed_frame f ?n ! i) \<in> set stores" if "i < length (packed_frame f ?n)" for i
    proof -
      obtain k j where k: "i = k * 5 + j" "k < ?n" "j < 5"
        using split_addr [of i ?n 5] \<open>i < length _\<close> by auto
      then show ?thesis
        unfolding set st [rule_format] by (intro exI [of _ k] exI [of _ j]) (simp add: packed_frame_nth)
    qed
    show "a < length (packed_frame f ?n) \<and> v = packed_frame f ?n ! a" if av: "(a, v) \<in> set stores" for a v
    proof -
      obtain k j where k: "k < ?n" "j < 5" "a = k * 5 + j"
        "v = pack_pgroup (pl_cb f ! k, pl_y f ! (k * 2), pl_cr f ! k, pl_y f ! (k * 2 + 1)) ! j"
        using av unfolding set st [rule_format] by blast
      then show ?thesis using addr_less [OF k(1,2)] packed_frame_nth [OF k(1,2), of f] by simp
    qed
  qed (simp add: assms(4))
qed

lemma unpacked_ok: "planar_ok (unpacked packed (ppl * height)) ppl height"
  using unpacked_y(1) [of packed "ppl * height"] by (simp add: planar_ok_def ac_simps) (simp add: unpacked_def Let_def)

lemma packed_unpacked:
  assumes "length packed = n * 5"
  shows "packed_frame (unpacked packed n) n = packed"
proof (rule nth_equalityI)
  fix i assume "i < length (packed_frame (unpacked packed n) n)"
  then obtain k j where i: "i = k * 5 + j" and k: "k < n" and j: "j < 5" using split_addr [of i n 5] by auto
  let ?p = "take 5 (drop (k * 5) packed)"
  have "k * 5 + 5 \<le> length packed" using k assms by simp
  then have l: "length ?p = 5" "?p ! j = packed ! (k * 5 + j)" using j by simp_all
  have "(pl_cb (unpacked packed n) ! k, pl_y (unpacked packed n) ! (k * 2), pl_cr (unpacked packed n) ! k,
      pl_y (unpacked packed n) ! (k * 2 + 1)) = unpack_pgroup ?p"
    using k unpacked_y(2,3) [OF k, of packed] by (simp add: unpacked_def Let_def)
  then show "packed_frame (unpacked packed n) n ! i = packed ! i"
    unfolding i packed_frame_nth [OF k j] using pack_unpack_pgroup [OF l(1)] l(2) by (simp only:)
qed (simp add: assms)

text \<open>C11 - Bit-exact passthrough: a packed 10-bit frame taken apart by the unpack kernel and put together
  by the pack kernel is the same frame, octet for octet, in every interleaving of the stores of either
  launch and whatever the planes and the output buffer held.\<close>
theorem raw_frame_passthrough:
  assumes "unpack_422_10 packed (ppl * 2) height = Some ss" "mset stores = mset ss"
    and "length packed = ppl * height * 5" "planar_ok old ppl height" "length out = length packed"
  shows "\<exists>ss'. pack_422_10 \<lparr>pl_y = apply_stores (plane_stores PlaneY stores) (pl_y old),
      pl_cb = apply_stores (plane_stores PlaneCb stores) (pl_cb old),
      pl_cr = apply_stores (plane_stores PlaneCr stores) (pl_cr old)\<rparr> (ppl * 2) height = Some ss' \<and>
    (\<forall>stores'. mset stores' = mset ss' \<longrightarrow> apply_stores stores' out = packed)"
proof -
  let ?u = "unpacked packed (ppl * height)"
  obtain ss' where ss': "pack_422_10 ?u (ppl * 2) height = Some ss'"
    by (rule pack_launch [OF unpacked_ok])
  have "apply_stores stores' out = packed" if "mset stores' = mset ss'" for stores'
    using pack_result [OF unpacked_ok ss' that] packed_unpacked [OF assms(3)] assms(3,5) by simp
  moreover have "\<lparr>pl_y = pl_y ?u, pl_cb = pl_cb ?u, pl_cr = pl_cr ?u\<rparr> = ?u" by simp
  ultimately show ?thesis using ss' unfolding unpack_result [OF assms(1-4)] by metis
qed

theorem raw_frame_passthrough_witness:
  "\<exists>ss ss'. unpack_422_10 [1, 2, 3, 4, 5] 2 1 = Some ss \<and>
     pack_422_10 \<lparr>pl_y = apply_stores (plane_stores PlaneY (rev ss)) [0, 0],
       pl_cb = apply_stores (plane_stores PlaneCb (rev ss)) [0],
       pl_cr = apply_stores (plane_stores PlaneCr (rev ss)) [0]\<rparr> 2 1 = Some ss' \<and>
     apply_stores (rev ss') [0, 0, 0, 0, 0] = [1, 2, 3, 4, 5]"
proof -
  have len: "length [1, 2, 3, 4, 5 :: u8] = 1 * 1 * 5" by simp
  obtain ss where ss: "unpack_422_10 [1, 2, 3, 4, 5] (1 * 2) 1 = Some ss" by (rule unpack_launch [OF len])
  have ok: "planar_ok \<lparr>pl_y = [0, 0], pl_cb = [0], pl_cr = [0]\<rparr> 1 1" by (simp add: planar_ok_def)
  have "length [0, 0, 0, 0, 0 :: u8] = length [1, 2, 3, 4, 5 :: u8]" by simp
  from raw_frame_passthrough [OF ss mset_rev len ok this] obtain ss' where
    "pack_422_10 \<lparr>pl_y = apply_stores (plane_stores PlaneY (rev ss)) [0, 0],
       pl_cb = apply_stores (plane_stores PlaneCb (rev ss)) [0],
       pl_cr = apply_stores (plane_stores PlaneCr (rev ss)) [0]\<rparr> 2 1 = Some ss'"
    "\<forall>stores'. mset stores' = mset ss' \<longrightarrow> apply_stores stores' [0, 0, 0, 0, 0] = [1, 2, 3, 4, 5]" by auto
  moreover have "mset (rev ss') = mset ss'" by simp
  ultimately show ?thesis using ss by auto
qed

end
