(* ===== verification/Codec_Ops.thy ===== *)
theory Codec_Ops
  imports Pixel_Codec Video_Format Dpdk_Common
begin

text \<open>
  The operators at the two ends of the GPU graph, \<open>engine/operators/codec/codec_ops.cpp\<close>, and the frame
  they exchange, \<open>engine/operators/resize/gpu_frame.hpp\<close>.  A CUDA stream is the queue of its commands
  not yet executed; an event is complete when no record of it is queued.  CUDA calls that can fail are
  parameters, and their failure is the exception of \<open>cuda_check\<close>.  The receive ring's buffers are
  known by their index.
\<close>

section \<open>GPU frames\<close>

record gpu_frame =
  gf_planes :: planar
  gf_width :: u32
  gf_height :: u32
  gf_t_ingest_ns :: u64
  gf_capture_ts_ns :: u64

definition gpu_frame_alloc :: "u32 \<Rightarrow> u32 \<Rightarrow> gpu_frame" where
  "gpu_frame_alloc w h =
     (let c = replicate (unat (w div 2) * unat h) 0
      in \<lparr>gf_planes = \<lparr>pl_y = replicate (unat w * unat h) 0, pl_cb = c, pl_cr = c\<rparr>,
          gf_width = w, gf_height = h, gf_t_ingest_ns = 0, gf_capture_ts_ns = 0\<rparr>)"

definition kRing :: nat where "kRing = 10"

record cuda_env =
  cu_zerocopy :: bool
  cu_stream_ok :: bool
  cu_malloc_ok :: bool
  cu_frames_ok :: bool
  cu_memcpy_ok :: bool
  cu_record_ok :: bool
  cu_event_ok :: bool
  cu_sync_ok :: bool

text \<open>The variable \<open>SPARK_ZEROCOPY\<close>, else the device's property where it can be read.\<close>

definition host_zerocopy :: "string option \<Rightarrow> int option \<Rightarrow> bool" where
  "host_zerocopy env pageable =
     (case env of
        Some e \<Rightarrow> if e \<noteq> '''' then e \<noteq> ''0'' else (case pageable of None \<Rightarrow> False | Some p \<Rightarrow> p \<noteq> 0)
      | None \<Rightarrow> (case pageable of None \<Rightarrow> False | Some p \<Rightarrow> p \<noteq> 0))"

definition packed_octets :: "u32 \<Rightarrow> u32 \<Rightarrow> bool \<Rightarrow> nat" where
  "packed_octets w h coded = unat (w div 2) * unat h * (if coded then 4 else 5)"

section \<open>The unpack operator\<close>

datatype unpack_src = RxBuffer nat | Staging

datatype gcmd = CmdUnpack unpack_src nat bool | CmdReady nat | CmdRecord nat

record unpack_op =
  up_stream :: "gcmd list option"
  up_dpacked :: bool
  up_dpacked_bytes :: nat
  up_zerocopy :: bool
  up_pool :: "gpu_frame list"
  up_idx :: nat
  up_inflight :: "(nat \<times> nat) list"
  up_ev_pool :: "nat list"
  up_next_ev :: nat

definition unpack_new :: unpack_op where
  "unpack_new = \<lparr>up_stream = None, up_dpacked = False, up_dpacked_bytes = 0, up_zerocopy = False,
     up_pool = [], up_idx = 0, up_inflight = [], up_ev_pool = [], up_next_ev = 0\<rparr>"

text \<open>An exception leaves the operator as it is at the throw.  No frame follows one, so only what stop and the GPU
  use of it matters; the slots of a pool that could not be allocated are not kept.\<close>

definition unpack_ensure :: "'e cuda_env_scheme \<Rightarrow> u32 \<Rightarrow> u32 \<Rightarrow> bool \<Rightarrow> unpack_op \<Rightarrow> string \<times> unpack_op + unpack_op" where
  "unpack_ensure env w h coded s =
     (if up_stream s = None \<and> \<not> cu_stream_ok env then Inl (''codec_ops: unpack stream'', s)
      else
        let s1 = (if up_stream s = None then s\<lparr>up_stream := Some []\<rparr> else s); octets = packed_octets w h coded
        in if up_dpacked_bytes s1 = octets \<and> up_pool s1 \<noteq> [] then Inr s1
           else
             let s2 = s1\<lparr>up_zerocopy := cu_zerocopy env\<rparr>
             in if \<not> cu_zerocopy env \<and> \<not> cu_malloc_ok env then Inl (''codec_ops: cudaMalloc packed'', s2)
                else
                  let s3 = s2\<lparr>up_dpacked := \<not> cu_zerocopy env, up_dpacked_bytes := octets\<rparr>
                  in if \<not> cu_frames_ok env then Inl (''gpu_frame: cudaMalloc'', s3\<lparr>up_pool := []\<rparr>)
                     else Inr (s3\<lparr>up_pool := replicate kRing (gpu_frame_alloc w h)\<rparr>))"

text \<open>\<open>is_done\<close> says of which events the query answers anything but not ready; a wait answers so for all.\<close>

fun drain_inflight :: "(nat \<Rightarrow> bool) \<Rightarrow> (nat \<times> nat) list \<Rightarrow> nat list \<Rightarrow> (nat \<times> nat) list \<times> nat list" where
  "drain_inflight is_done [] evs = ([], evs)"
| "drain_inflight is_done ((e, b) # q) evs =
     (if is_done e then drain_inflight is_done q (evs @ [e]) else ((e, b) # q, evs))"

definition event_complete :: "gcmd list \<Rightarrow> nat \<Rightarrow> bool" where
  "event_complete q e \<longleftrightarrow> CmdRecord e \<notin> set q"

text \<open>The completion event of a zero-copy read: the newest of the pool, or a new one.\<close>

definition take_event :: "'e cuda_env_scheme \<Rightarrow> unpack_op \<Rightarrow> string + nat \<times> unpack_op" where
  "take_event env s =
     (if up_ev_pool s \<noteq> [] then Inr (last (up_ev_pool s), s\<lparr>up_ev_pool := butlast (up_ev_pool s)\<rparr>)
      else ebind (need (cu_event_ok env) ''codec_ops: inflight event'') (\<lambda>_.
           Inr (up_next_ev s, s\<lparr>up_next_ev := up_next_ev s + 1\<rparr>)))"

definition enqueue :: "gcmd list \<Rightarrow> unpack_op \<Rightarrow> unpack_op" where
  "enqueue cmds s = s\<lparr>up_stream := map_option (\<lambda>q. q @ cmds) (up_stream s)\<rparr>"

text \<open>What \<open>compute\<close> meets in addition: the answers of the event queries, and the second record.\<close>

record unpack_env = cuda_env +
  ue_query :: "nat \<Rightarrow> bool"
  ue_inflight_ok :: bool

text \<open>\<open>compute\<close> on a frame in receive buffer \<open>buf\<close>; the result is the pool slot it emits.\<close>

definition unpack_compute ::
  "unpack_env \<Rightarrow> u64 \<Rightarrow> nat \<Rightarrow> video_format \<Rightarrow> u64 \<Rightarrow> unpack_op \<Rightarrow> string \<times> unpack_op + nat \<times> unpack_op" where
  "unpack_compute env now buf fmt capture s =
     (let coded = (sampling_of fmt = YCbCr422_8) in
      case unpack_ensure env (width fmt) (height fmt) coded s of
        Inl e \<Rightarrow> Inl e
      | Inr s1 \<Rightarrow>
          let (inflight, evs) = drain_inflight (ue_query env) (up_inflight s1) (up_ev_pool s1);
              s2 = s1\<lparr>up_inflight := inflight, up_ev_pool := evs\<rparr>
          in if \<not> up_zerocopy s2 \<and> \<not> cu_memcpy_ok env then Inl (''codec_ops: H2D packed'', s2)
          else
            let slot = up_idx s2;
                src = (if up_zerocopy s2 then RxBuffer buf else Staging);
                s3 = enqueue [CmdUnpack src slot coded] (s2\<lparr>up_idx := (up_idx s2 + 1) mod length (up_pool s2)\<rparr>)
            in if \<not> cu_record_ok env then Inl (''codec_ops: unpack record'', s3)
            else
              let s4 = enqueue [CmdReady slot] s3;
                  emit = (\<lambda>s. Inr (slot, s\<lparr>up_pool := (up_pool s)[slot :=
                    (up_pool s ! slot)\<lparr>gf_t_ingest_ns := now, gf_capture_ts_ns := capture\<rparr>]\<rparr>))
              in if \<not> up_zerocopy s4 then emit s4
              else (case take_event env s4 of
                  Inl e \<Rightarrow> Inl (e, s4)
                | Inr (ev, s5) \<Rightarrow>
                    if \<not> ue_inflight_ok env then Inl (''codec_ops: inflight record'', s5)
                    else let s6 = enqueue [CmdRecord ev] s5
                      in emit (s6\<lparr>up_inflight := up_inflight s6 @ [(ev, buf)]\<rparr>)))"

definition unpack_stop :: "unpack_op \<Rightarrow> unpack_op" where
  "unpack_stop s =
     (let (inflight, evs) = drain_inflight (\<lambda>_. True) (up_inflight s) (up_ev_pool s)
      in s\<lparr>up_stream := None, up_inflight := inflight, up_ev_pool := [], up_dpacked := False\<rparr>)"

text \<open>The GPU executes the next command of the stream.\<close>

definition gpu_step :: "unpack_op \<Rightarrow> unpack_op" where
  "gpu_step s = s\<lparr>up_stream := map_option tl (up_stream s)\<rparr>"

definition stream_cmds :: "unpack_op \<Rightarrow> gcmd list" where
  "stream_cmds s = (case up_stream s of None \<Rightarrow> [] | Some q \<Rightarrow> q)"

text \<open>A run: frames, progress of the GPU, stops.  The first component is the buffer of the frame whose \<open>compute\<close>
  threw, after which no frame follows.  An event query answers other than not ready only once the event is complete,
  as documented unless an earlier asynchronous call has failed, which ends all work on the device.\<close>

inductive unpack_step :: "nat option \<times> unpack_op \<Rightarrow> nat option \<times> unpack_op \<Rightarrow> bool" where
  step_frame: "\<forall>e. ue_query env e \<longrightarrow> event_complete (stream_cmds s) e \<Longrightarrow>
     unpack_compute env now buf fmt capture s = Inr (slot, s') \<Longrightarrow> unpack_step (None, s) (None, s')"
| step_throw: "\<forall>e. ue_query env e \<longrightarrow> event_complete (stream_cmds s) e \<Longrightarrow>
     unpack_compute env now buf fmt capture s = Inl (msg, s') \<Longrightarrow> unpack_step (None, s) (Some buf, s')"
| step_gpu: "unpack_step (t, s) (t, gpu_step s)"
| step_stop: "unpack_step (t, s) (t, unpack_stop s)"

section \<open>Kernel results\<close>

text \<open>What the kernel writes, in the order of its threads; other orders give the same result.\<close>

definition unpack_kernel :: "bool \<Rightarrow> bytes \<Rightarrow> gpu_frame \<Rightarrow> gpu_frame option" where
  "unpack_kernel coded packed f = do {
     ss \<leftarrow> (if coded then ip10_unpack_422 packed (unat (gf_width f)) (unat (gf_height f))
           else unpack_422_10 packed (unat (gf_width f)) (unat (gf_height f)));
     let p = gf_planes f;
     Some (f\<lparr>gf_planes := \<lparr>pl_y = apply_stores (plane_stores PlaneY ss) (pl_y p),
        pl_cb = apply_stores (plane_stores PlaneCb ss) (pl_cb p),
        pl_cr = apply_stores (plane_stores PlaneCr ss) (pl_cr p)\<rparr>\<rparr>)
   }"

definition pack_kernel :: "bool \<Rightarrow> gpu_frame \<Rightarrow> bytes \<Rightarrow> bytes option" where
  "pack_kernel coded f out =
     map_option (\<lambda>ss. apply_stores ss out)
       (if coded then ip10_pack_422 (gf_planes f) (unat (gf_width f)) (unat (gf_height f))
        else pack_422_10 (gf_planes f) (unat (gf_width f)) (unat (gf_height f)))"

section \<open>The pack operator\<close>

record pack_params =
  pkp_out_fps :: rat
  pkp_ip10 :: bool

record pack_op =
  pk_params :: pack_params
  pk_stream :: bool
  pk_dpacked :: "bytes option"
  pk_dpacked_bytes :: nat
  pk_zerocopy :: bool
  pk_out_fmt :: video_format
  pk_host_pool :: "bytes list"
  pk_idx :: nat
  pk_lat_min :: u64
  pk_lat_max :: u64
  pk_lat_sum :: u64
  pk_lat_n :: u64

definition pack_new :: "pack_params \<Rightarrow> pack_op" where
  "pack_new p = \<lparr>pk_params = p, pk_stream = False, pk_dpacked = None, pk_dpacked_bytes = 0, pk_zerocopy = False,
     pk_out_fmt = profile_1080p, pk_host_pool = [], pk_idx = 0, pk_lat_min = -1, pk_lat_max = 0,
     pk_lat_sum = 0, pk_lat_n = 0\<rparr>"

definition pack_ensure :: "cuda_env \<Rightarrow> u32 \<Rightarrow> u32 \<Rightarrow> pack_op \<Rightarrow> string + pack_op" where
  "pack_ensure env w h s =
     ebind (need (pk_stream s \<or> cu_stream_ok env) ''codec_ops: pack stream'') (\<lambda>_.
     let coded = pkp_ip10 (pk_params s); octets = packed_octets w h coded; s1 = s\<lparr>pk_stream := True\<rparr> in
     if pk_dpacked_bytes s1 = octets \<and> pk_host_pool s1 \<noteq> [] then Inr s1
     else
       ebind (need (cu_zerocopy env \<or> cu_malloc_ok env) ''codec_ops: cudaMalloc packed'') (\<lambda>_.
       Inr (s1\<lparr>pk_zerocopy := cu_zerocopy env,
               pk_dpacked := (if cu_zerocopy env then None else Some (replicate octets 0)),
               pk_dpacked_bytes := octets,
               pk_out_fmt := \<lparr>width = w, height = h, fps = pkp_out_fps (pk_params s1),
                             sampling_of = (if coded then YCbCr422_8 else YCbCr422_10)\<rparr>,
               pk_host_pool := replicate kRing (replicate octets 0)\<rparr>)))"

text \<open>The search for a buffer only the pool refers to: at most \<open>n\<close> candidates from \<open>idx\<close> on.\<close>

fun pick_host :: "(nat \<Rightarrow> bool) \<Rightarrow> nat \<Rightarrow> nat \<Rightarrow> nat \<Rightarrow> nat option \<times> nat" where
  "pick_host held pool_size 0 idx = (None, idx)"
| "pick_host held pool_size (Suc n) idx =
     (let idx' = (idx + 1) mod pool_size
      in if \<not> held idx then (Some idx, idx') else pick_host held pool_size n idx')"

definition lat_update :: "u64 \<Rightarrow> gpu_frame \<Rightarrow> pack_op \<Rightarrow> pack_op" where
  "lat_update now f s =
     (if gf_t_ingest_ns f = 0 then s
      else let lat = now - gf_t_ingest_ns f
        in s\<lparr>pk_lat_sum := pk_lat_sum s + lat, pk_lat_n := pk_lat_n s + 1,
             pk_lat_min := (if lat < pk_lat_min s then lat else pk_lat_min s),
             pk_lat_max := (if lat > pk_lat_max s then lat else pk_lat_max s)\<rparr>)"

text \<open>\<open>held\<close> says which buffers of the pool the transmitter still refers to.  \<open>None\<close> is an access outside
  a plane or a buffer.\<close>

definition pack_compute ::
  "cuda_env \<Rightarrow> (nat \<Rightarrow> bool) \<Rightarrow> u64 \<Rightarrow> gpu_frame \<Rightarrow> pack_op \<Rightarrow> (string + nat \<times> video_format \<times> u64 \<times> pack_op) option" where
  "pack_compute env held now src s =
     (case pack_ensure env (gf_width src) (gf_height src) s of
        Inl e \<Rightarrow> Some (Inl e)
      | Inr s1 \<Rightarrow>
          if pk_idx s1 \<ge> length (pk_host_pool s1) then None
          else
          let pool_size = length (pk_host_pool s1); (pick, idx) = pick_host held pool_size pool_size (pk_idx s1);
              s2 = (case pick of
                  Some _ \<Rightarrow> s1\<lparr>pk_idx := idx\<rparr>
                | None \<Rightarrow> s1\<lparr>pk_idx := idx, pk_host_pool := pk_host_pool s1 @ [replicate (pk_dpacked_bytes s1) 0]\<rparr>);
              host = (case pick of Some i \<Rightarrow> i | None \<Rightarrow> pool_size);
              coded = pkp_ip10 (pk_params s2)
          in
          if \<not> cu_sync_ok env then Some (Inl ''codec_ops: pack sync'')
          else if pk_zerocopy s2 then do {
            out \<leftarrow> pack_kernel coded src (pk_host_pool s2 ! host);
            Some (Inr (host, pk_out_fmt s2, gf_capture_ts_ns src,
                       lat_update now src (s2\<lparr>pk_host_pool := (pk_host_pool s2)[host := out]\<rparr>)))
          }
          else do {
            staged \<leftarrow> Option.bind (pk_dpacked s2) (pack_kernel coded src);
            copy \<leftarrow> mem_read staged 0 (pk_dpacked_bytes s2);
            out \<leftarrow> mem_write (pk_host_pool s2 ! host) 0 copy;
            if cu_memcpy_ok env
            then Some (Inr (host, pk_out_fmt s2, gf_capture_ts_ns src,
                       lat_update now src (s2\<lparr>pk_dpacked := Some staged, pk_host_pool := (pk_host_pool s2)[host := out]\<rparr>)))
            else Some (Inl ''codec_ops: D2H packed'')
          })"

definition pack_stop :: "pack_op \<Rightarrow> pack_op" where
  "pack_stop s = s\<lparr>pk_stream := False, pk_dpacked := None\<rparr>"

section \<open>Zero-copy reads hold their buffers\<close>

text \<open>A command that reads a receive buffer is followed by the record of an event that still holds it, but for the
  buffer \<open>t\<close> of the frame that threw.\<close>

definition reads_held :: "nat option \<Rightarrow> unpack_op \<Rightarrow> bool" where
  "reads_held t s \<longleftrightarrow> (\<forall>q before after b slot coded.
     up_stream s = Some q \<and> q = before @ CmdUnpack (RxBuffer b) slot coded # after \<longrightarrow>
     t = Some b \<or> (\<exists>e. CmdRecord e \<in> set after \<and> (e, b) \<in> set (up_inflight s)))"

lemma reads_heldD:
  "reads_held t s \<Longrightarrow> up_stream s = Some (before @ CmdUnpack (RxBuffer b) slot coded # after) \<Longrightarrow>
   t = Some b \<or> (\<exists>e. CmdRecord e \<in> set after \<and> (e, b) \<in> set (up_inflight s))"
  by (simp add: reads_held_def)

lemma drain_keeps:
  "drain_inflight p q evs = (q', evs') \<Longrightarrow> (e, b) \<in> set q \<Longrightarrow> \<not> p e \<Longrightarrow> (e, b) \<in> set q'"
  by (induction p q evs rule: drain_inflight.induct) (auto split: if_splits)

lemma drain_all: "\<forall>e. p e \<Longrightarrow> fst (drain_inflight p q evs) = []"
  by (induction p q evs rule: drain_inflight.induct) auto

lemma split_append:
  "before @ c # after = q @ cmds \<Longrightarrow>
   (\<exists>a. q = before @ c # a \<and> after = a @ cmds) \<or> (\<exists>bb. before = q @ bb \<and> cmds = bb @ c # after)"
  by (auto simp: append_eq_append_conv2 Cons_eq_append_conv append_eq_Cons_conv)

text \<open>What \<open>ensure\<close> does to the stream and the held buffers, whether it returns or throws.\<close>

lemma unpack_ensure_stream:
  assumes "unpack_ensure env w h coded s = Inr s1"
  shows "up_stream s1 = Some (stream_cmds s)" "up_inflight s1 = up_inflight s"
  using assms by (auto simp: unpack_ensure_def stream_cmds_def Let_def split: if_splits option.splits)

lemma unpack_ensure_throw:
  assumes "unpack_ensure env w h coded s = Inl (msg, s1)"
  shows "up_stream s1 = up_stream s \<or> up_stream s1 = Some (stream_cmds s)" "up_inflight s1 = up_inflight s"
  using assms by (auto simp: unpack_ensure_def stream_cmds_def Let_def split: if_splits option.splits)

lemma reads_held_same:
  assumes "reads_held None s" "up_stream s' = up_stream s \<or> up_stream s' = Some (stream_cmds s)" "up_inflight s' = up_inflight s"
  shows "reads_held t s'"
  unfolding reads_held_def
proof (intro allI impI)
  fix q before after b slot coded
  assume q: "up_stream s' = Some q \<and> q = before @ CmdUnpack (RxBuffer b) slot coded # after"
  then have "up_stream s = Some q" using assms(2) by (auto simp: stream_cmds_def split: option.splits)
  then show "t = Some b \<or> (\<exists>e. CmdRecord e \<in> set after \<and> (e, b) \<in> set (up_inflight s'))"
    using reads_heldD [OF assms(1)] q assms(3) by auto
qed

lemma reads_held_drain:
  assumes "reads_held None s" "up_stream s = Some q" "\<forall>e. query e \<longrightarrow> event_complete q e"
    and "drain_inflight query (up_inflight s) (up_ev_pool s) = (inflight, evs)"
  shows "reads_held t (s\<lparr>up_inflight := inflight, up_ev_pool := evs\<rparr>)"
proof -
  have "\<exists>e. CmdRecord e \<in> set after \<and> (e, b) \<in> set inflight"
    if eq: "q = before @ CmdUnpack (RxBuffer b) slot coded # after" for before b slot coded after
  proof -
    obtain e where e: "CmdRecord e \<in> set after" "(e, b) \<in> set (up_inflight s)"
      using reads_heldD [OF assms(1), of before b slot coded after] assms(2) eq by auto
    then have "\<not> event_complete q e" using eq by (simp add: event_complete_def)
    with e drain_keeps [OF assms(4)] assms(3) show ?thesis by blast
  qed
  then show ?thesis using assms(2) by (auto simp: reads_held_def)
qed

text \<open>Appending commands: each new read must come with its hold, or be the one that throws.\<close>

lemma reads_held_append:
  assumes "reads_held None s" "up_stream s = Some q" "up_stream s' = Some (q @ cmds)"
    and "set (up_inflight s) \<subseteq> set (up_inflight s')"
    and "\<And>before b slot coded after. cmds = before @ CmdUnpack (RxBuffer b) slot coded # after \<Longrightarrow>
      t = Some b \<or> (\<exists>e. CmdRecord e \<in> set after \<and> (e, b) \<in> set (up_inflight s'))"
  shows "reads_held t s'"
proof -
  have "t = Some b \<or> (\<exists>e. CmdRecord e \<in> set after \<and> (e, b) \<in> set (up_inflight s'))"
    if eq: "q @ cmds = before @ CmdUnpack (RxBuffer b) slot coded # after" for before b slot coded after
    using split_append [OF eq [symmetric]]
  proof (elim disjE exE conjE)
    fix a assume a: "q = before @ CmdUnpack (RxBuffer b) slot coded # a" "after = a @ cmds"
    then obtain e where "CmdRecord e \<in> set a" "(e, b) \<in> set (up_inflight s)"
      using reads_heldD [OF assms(1), of before b slot coded a] assms(2) by auto
    then show ?thesis using a(2) assms(4) by auto
  qed (use assms(5) in blast)
  then show ?thesis using assms(3) by (auto simp: reads_held_def)
qed

lemma enqueue_simps [simp]:
  "up_stream s = Some q \<Longrightarrow> up_stream (enqueue cmds s) = Some (q @ cmds)"
  "up_inflight (enqueue cmds s) = up_inflight s" "up_zerocopy (enqueue cmds s) = up_zerocopy s"
  "up_pool (enqueue cmds s) = up_pool s"
  by (simp_all add: enqueue_def)

lemma take_event_keeps:
  assumes "take_event env s = Inr (ev, s')"
  shows "up_stream s' = up_stream s" "up_inflight s' = up_inflight s"
  using assms by (auto simp: take_event_def need_def ebind_def split: if_splits)

lemma unpack_compute_held:
  assumes "reads_held None s" "\<forall>e. ue_query env e \<longrightarrow> event_complete (stream_cmds s) e"
  shows "unpack_compute env now buf fmt capture s = Inr (slot, s') \<Longrightarrow> reads_held None s'"
    and "unpack_compute env now buf fmt capture s = Inl (msg, s') \<Longrightarrow> reads_held (Some buf) s'"
proof -
  let ?coded = "sampling_of fmt = YCbCr422_8" and ?q = "stream_cmds s"
  let ?ens = "unpack_ensure env (width fmt) (height fmt) ?coded s"
  have "(\<forall>slot s'. unpack_compute env now buf fmt capture s = Inr (slot, s') \<longrightarrow> reads_held None s') \<and>
    (\<forall>msg s'. unpack_compute env now buf fmt capture s = Inl (msg, s') \<longrightarrow> reads_held (Some buf) s')"
  proof (cases ?ens)
    case (Inl e)
    then obtain msg s1 where e: "?ens = Inl (msg, s1)" by (cases e) auto
    have "reads_held (Some buf) s1" by (rule reads_held_same [OF assms(1) unpack_ensure_throw [OF e]])
    then show ?thesis by (simp add: unpack_compute_def e)
  next
    case (Inr s1)
    note k = unpack_ensure_stream [OF Inr]
    obtain inflight evs where d: "drain_inflight (ue_query env) (up_inflight s1) (up_ev_pool s1) = (inflight, evs)"
      by fastforce
    define s2 where "s2 = s1\<lparr>up_inflight := inflight, up_ev_pool := evs\<rparr>"
    have h1: "reads_held None s1" using reads_held_same [OF assms(1)] k by blast
    have h2: "reads_held t s2" for t unfolding s2_def by (rule reads_held_drain [OF h1 k(1) assms(2) d])
    have q2: "up_stream s2 = Some ?q" by (simp add: s2_def k)
    define src where "src = (if up_zerocopy s2 then RxBuffer buf else Staging)"
    define s3 where "s3 = enqueue [CmdUnpack src (up_idx s2) ?coded] (s2\<lparr>up_idx := (up_idx s2 + 1) mod length (up_pool s2)\<rparr>)"
    define s4 where "s4 = enqueue [CmdReady (up_idx s2)] s3"
    have q3: "up_stream s3 = Some (?q @ [CmdUnpack src (up_idx s2) ?coded])" "up_inflight s3 = up_inflight s2"
      by (simp_all add: s3_def q2)
    have q4: "up_stream s4 = Some (?q @ [CmdUnpack src (up_idx s2) ?coded, CmdReady (up_idx s2)])"
      "up_inflight s4 = up_inflight s2" "up_zerocopy s4 = up_zerocopy s2"
      by (simp_all add: s4_def s3_def q2)
    have late: "reads_held (Some buf) s'" if "up_stream s' = Some (?q @ CmdUnpack src (up_idx s2) ?coded # cmds)"
      "up_inflight s' = up_inflight s2" "\<forall>c\<in>set cmds. \<nexists>b sl co. c = CmdUnpack (RxBuffer b) sl co" for s' cmds
      by (rule reads_held_append [OF h2 q2 that(1)])
        (use that(2,3) in \<open>auto simp: src_def Cons_eq_append_conv split: if_splits\<close>)
    have held3: "reads_held (Some buf) s3" by (rule late [of s3 "[]"]) (simp_all add: q3)
    have held4: "reads_held (Some buf) s4" by (rule late [of s4 "[CmdReady (up_idx s2)]"]) (simp_all add: q4)
    have held5: "reads_held (Some buf) s5" if "take_event env s4 = Inr (ev, s5)" for ev s5
      using take_event_keeps [OF that] q4 by (intro late [of s5 "[CmdReady (up_idx s2)]"]) simp_all
    have staged: "reads_held None (s4\<lparr>up_pool := p\<rparr>)" if "\<not> up_zerocopy s2" for p
      by (rule reads_held_append [OF h2 q2, of _ "[CmdUnpack src (up_idx s2) ?coded, CmdReady (up_idx s2)]"])
        (use q4 that in \<open>auto simp: src_def Cons_eq_append_conv append_eq_Cons_conv\<close>)
    have zero: "reads_held None (enqueue [CmdRecord ev] s5\<lparr>up_inflight := up_inflight s5 @ [(ev, buf)], up_pool := p\<rparr>)"
      if ev: "take_event env s4 = Inr (ev, s5)" for ev s5 p
    proof -
      have s5: "up_stream s5 = up_stream s4" "up_inflight s5 = up_inflight s2" using take_event_keeps [OF ev] q4 by simp_all
      show ?thesis
        by (rule reads_held_append [OF h2 q2, of _ "[CmdUnpack src (up_idx s2) ?coded, CmdReady (up_idx s2), CmdRecord ev]"])
          (use s5 q4 in \<open>auto simp: src_def enqueue_def Cons_eq_append_conv append_eq_Cons_conv split: if_splits\<close>)
    qed
    show ?thesis
      unfolding unpack_compute_def Let_def Inr sum.case d prod.case
      unfolding s2_def [symmetric] src_def [symmetric] unfolding s3_def [symmetric] unfolding s4_def [symmetric]
      using h2 held3 held4 held5 staged zero q4(3) by (auto split: sum.splits prod.splits)
  qed
  then show "unpack_compute env now buf fmt capture s = Inr (slot, s') \<Longrightarrow> reads_held None s'"
    "unpack_compute env now buf fmt capture s = Inl (msg, s') \<Longrightarrow> reads_held (Some buf) s'" by blast+
qed

lemma unpack_reachable_held: "unpack_step\<^sup>*\<^sup>* (None, unpack_new) (t, s) \<Longrightarrow> reads_held t s"
proof (induction "(t, s)" arbitrary: t s rule: rtranclp_induct)
  case base
  then show ?case by (simp add: reads_held_def unpack_new_def)
next
  case (step ts)
  from step.hyps(2) show ?case
  proof cases
    case (step_frame env s0)
    have h: "reads_held None s0" by (rule step.hyps(3)) (rule step_frame(1))
    show ?thesis unfolding step_frame(2) by (rule unpack_compute_held(1) [OF h step_frame(3,4)])
  next
    case (step_throw env s0)
    have h: "reads_held None s0" by (rule step.hyps(3)) (rule step_throw(1))
    show ?thesis unfolding step_throw(2) by (rule unpack_compute_held(2) [OF h step_throw(3,4)])
  next
    case (step_gpu s0)
    have h: "reads_held t s0" using step.hyps(3) step_gpu by blast
    have "t = Some b \<or> (\<exists>e. CmdRecord e \<in> set after \<and> (e, b) \<in> set (up_inflight s0))"
      if q: "up_stream s0 = Some q" "tl q = before @ CmdUnpack (RxBuffer b) slot coded # after" for q before b slot coded after
    proof (cases q)
      case (Cons c q')
      then show ?thesis using reads_heldD [OF h, of "c # before" b slot coded after] q by simp
    qed (use q in simp)
    then show ?thesis unfolding step_gpu reads_held_def gpu_step_def by clarsimp blast
  next
    case step_stop
    then show ?thesis by (auto simp: reads_held_def unpack_stop_def split: prod.splits)
  qed
qed

text \<open>C12 - Zero-copy safety: in every run of the unpack operator, with frames, GPU progress, stops and failing CUDA
  calls in any order, a receive buffer that a kernel in the stream has yet to read is held by the operator, so that
  the receiver cannot reuse it, with one exception, the buffer of the frame on which \<open>compute\<close> threw, after which no
  frame follows.  This is for queries that answer something other than not ready only for a complete event.  And once the stream has run dry a drain whose queries see that releases every buffer.\<close>
theorem zero_copy_buffers_held:
  assumes "unpack_step\<^sup>*\<^sup>* (None, unpack_new) (t, s)"
  shows "(\<forall>before b slot coded after. up_stream s = Some (before @ CmdUnpack (RxBuffer b) slot coded # after) \<longrightarrow>
      b \<in> snd ` set (up_inflight s) \<or> t = Some b) \<and>
    (up_stream s = Some [] \<longrightarrow> fst (drain_inflight (event_complete []) (up_inflight s) (up_ev_pool s)) = [])"
proof (intro conjI allI impI)
  fix before b slot coded after
  assume "up_stream s = Some (before @ CmdUnpack (RxBuffer b) slot coded # after)"
  from reads_heldD [OF unpack_reachable_held [OF assms] this] show "b \<in> snd ` set (up_inflight s) \<or> t = Some b" by force
qed (simp add: drain_all event_complete_def)

definition all_ok :: "bool \<Rightarrow> cuda_env" where
  "all_ok zc = \<lparr>cu_zerocopy = zc, cu_stream_ok = True, cu_malloc_ok = True, cu_frames_ok = True,
     cu_memcpy_ok = True, cu_record_ok = True, cu_event_ok = True, cu_sync_ok = True\<rparr>"

definition unpack_ok :: "bool \<Rightarrow> bool \<Rightarrow> unpack_env" where
  "unpack_ok zc rec = cuda_env.extend (all_ok zc) \<lparr>ue_query = \<lambda>_. False, ue_inflight_ok = rec\<rparr>"

lemmas unpack_demo = unpack_compute_def unpack_ensure_def unpack_new_def unpack_ok_def all_ok_def Let_def
  packed_octets_def enqueue_def take_event_def cuda_env.defs

theorem zero_copy_buffers_held_witness:
  "\<exists>s. unpack_step\<^sup>*\<^sup>* (None, unpack_new) (None, s) \<and> up_stream s = Some [CmdUnpack (RxBuffer 7) 0 False, CmdReady 0, CmdRecord 0] \<and>
     7 \<in> snd ` set (up_inflight s)"
proof -
  let ?fmt = "\<lparr>width = 2, height = 1, fps = 50, sampling_of = YCbCr422_10\<rparr>"
  let ?r = "unpack_compute (unpack_ok True True) 5 7 ?fmt 9 unpack_new"
  have "\<exists>s. ?r = Inr (0, s) \<and> up_stream s = Some [CmdUnpack (RxBuffer 7) 0 False, CmdReady 0, CmdRecord 0]"
    by (simp add: unpack_demo)
  then obtain s where r: "?r = Inr (0, s)"
    and q: "up_stream s = Some [CmdUnpack (RxBuffer 7) 0 False, CmdReady 0, CmdRecord 0]" by blast
  have "unpack_step (None, unpack_new) (None, s)" by (rule step_frame [OF _ r]) (simp add: unpack_ok_def cuda_env.defs)
  then have "unpack_step\<^sup>*\<^sup>* (None, unpack_new) (None, s)" by blast
  from zero_copy_buffers_held [OF this] this q show ?thesis by (metis append_Nil option.distinct(1))
qed

text \<open>The exception is real: a failed record of the completion event leaves a queued read that nothing holds.\<close>

lemma throw_leaves_read_unheld:
  "\<exists>s msg. unpack_compute (unpack_ok True False) 5 7 \<lparr>width = 2, height = 1, fps = 50, sampling_of = YCbCr422_10\<rparr> 9 unpack_new =
       Inl (msg, s) \<and> CmdUnpack (RxBuffer 7) 0 False \<in> set (stream_cmds s) \<and> up_inflight s = []"
  by (simp add: unpack_demo stream_cmds_def)

section \<open>The packed bytes of a frame\<close>

definition packed_bytes :: "bool \<Rightarrow> planar \<Rightarrow> nat \<Rightarrow> nat \<Rightarrow> bytes" where
  "packed_bytes coded f ppl h =
     (if coded then
        let ey = the (encode_plane (pl_y f) (ppl * 2) h 2);
            ecb = the (encode_plane (pl_cb f) ppl h 1); ecr = the (encode_plane (pl_cr f) ppl h 1)
        in concat (map (\<lambda>k. [ecb ! k, ey ! (k * 2), ecr ! k, ey ! (k * 2 + 1)]) [0..<ppl * h])
      else packed_frame f (ppl * h))"

lemma length_packed_bytes: "length (packed_bytes coded f ppl h) = ppl * h * (if coded then 4 else 5)"
proof -
  have "length (concat (map g [0..<n])) = n * 4" if "\<And>k. length (g k) = 4" for g :: "nat \<Rightarrow> bytes" and n
    using length_concat_rows [of "map g [0..<n]" 4] that by auto
  then show ?thesis by (simp add: packed_bytes_def Let_def)
qed

text \<open>A frame of even width with its planes.\<close>

definition gf_wf :: "gpu_frame \<Rightarrow> bool" where
  "gf_wf f \<longleftrightarrow> even (unat (gf_width f)) \<and> planar_ok (gf_planes f) (unat (gf_width f) div 2) (unat (gf_height f))"

lemma pack_kernel_result:
  assumes "gf_wf f" "length out = packed_octets (gf_width f) (gf_height f) coded"
  shows "pack_kernel coded f out =
    Some (packed_bytes coded (gf_planes f) (unat (gf_width f) div 2) (unat (gf_height f)))"
proof -
  let ?p = "unat (gf_width f) div 2" and ?h = "unat (gf_height f)"
  have w: "unat (gf_width f) = ?p * 2" and ok: "planar_ok (gf_planes f) ?p ?h" using assms(1) by (auto simp: gf_wf_def)
  have len: "length out = ?p * ?h * (if coded then 4 else 5)"
    using assms(2) by (simp add: packed_octets_def unat_div)
  show ?thesis
  proof (cases coded)
    case True
    obtain ss where ss: "ip10_pack_422 (gf_planes f) (?p * 2) ?h = Some ss" by (rule encode_launch [OF ok])
    have "length out = ?p * ?h * 4" using len True by simp
    from ip10_pack_result [OF ok ss refl this] True
    have "apply_stores ss out = packed_bytes coded (gf_planes f) ?p ?h" by (auto simp: packed_bytes_def Let_def)
    then show ?thesis using ss w True by (simp add: pack_kernel_def)
  next
    case False
    obtain ss where ss: "pack_422_10 (gf_planes f) (?p * 2) ?h = Some ss" by (rule pack_launch [OF ok])
    from pack_result [OF ok ss refl] len False
    have "apply_stores ss out = packed_bytes coded (gf_planes f) ?p ?h" by (simp add: packed_bytes_def)
    then show ?thesis using ss w False by (simp add: pack_kernel_def)
  qed
qed

section \<open>Host buffers\<close>

lemma pick_host_free:
  "pick_host held n m idx = (Some i, idx') \<Longrightarrow> idx < n \<Longrightarrow> i < n \<and> \<not> held i \<and> idx' < n"
  by (induction held n m idx rule: pick_host.induct) (auto simp: Let_def split: if_splits)

lemma pick_host_none:
  "pick_host held n m idx = (None, idx') \<Longrightarrow> idx < n \<Longrightarrow> idx' < n \<and> (\<forall>k<m. held ((idx + k) mod n))"
proof (induction held n m idx rule: pick_host.induct)
  case (2 held n m idx)
  have "held idx" and IH: "idx' < n \<and> (\<forall>k<m. held (((idx + 1) mod n + k) mod n))"
    using 2 by (auto simp: Let_def split: if_splits)
  moreover have "((idx + 1) mod n + k) mod n = (idx + Suc k) mod n" for k by (simp add: mod_add_left_eq)
  ultimately show ?case using 2(3) by (auto simp: less_Suc_eq_0_disj)
qed simp

lemma pick_host_none_all:
  assumes "pick_host held n n idx = (None, idx')" "idx < n" "i < n"
  shows "held i"
proof -
  have "(idx + (i + n - idx) mod n) mod n = i" using assms(2,3) by (simp add: mod_add_right_eq)
  moreover have "(i + n - idx) mod n < n" using assms(2) by simp
  ultimately show ?thesis using pick_host_none [OF assms(1,2)] by metis
qed

definition pack_wf :: "pack_op \<Rightarrow> bool" where
  "pack_wf s \<longleftrightarrow>
     (if pk_host_pool s = [] then pk_idx s = 0
      else pk_idx s < length (pk_host_pool s) \<and> (\<forall>b\<in>set (pk_host_pool s). length b = pk_dpacked_bytes s) \<and>
        (pk_zerocopy s \<or> (\<exists>d. pk_dpacked s = Some d \<and> length d = pk_dpacked_bytes s)))"

lemma lat_update_simps [simp]:
  "pk_host_pool (lat_update now f s) = pk_host_pool s" "pk_out_fmt (lat_update now f s) = pk_out_fmt s"
  "pk_idx (lat_update now f s) = pk_idx s" "pk_dpacked_bytes (lat_update now f s) = pk_dpacked_bytes s"
  "pk_zerocopy (lat_update now f s) = pk_zerocopy s" "pk_dpacked (lat_update now f s) = pk_dpacked s"
  "pk_params (lat_update now f s) = pk_params s"
  by (simp_all add: lat_update_def Let_def)

text \<open>The operator after \<open>ensure\<close>, for a frame of the geometry it was set up for.\<close>

lemma pack_ensure_ready:
  assumes "pack_wf s" "cu_stream_ok env" "cu_malloc_ok env"
    and "pk_host_pool s = [] \<or> pk_dpacked_bytes s = packed_octets w h (pkp_ip10 (pk_params s))"
  obtains s1 where "pack_ensure env w h s = Inr s1" "pack_wf s1" "pk_host_pool s1 \<noteq> []"
    "pk_dpacked_bytes s1 = packed_octets w h (pkp_ip10 (pk_params s))" "pk_params s1 = pk_params s"
    "pk_host_pool s \<noteq> [] \<longrightarrow> pk_host_pool s1 = pk_host_pool s \<and> pk_out_fmt s1 = pk_out_fmt s"
    "pk_host_pool s = [] \<longrightarrow> length (pk_host_pool s1) = kRing \<and> pk_out_fmt s1 =
       \<lparr>width = w, height = h, fps = pkp_out_fps (pk_params s),
        sampling_of = (if pkp_ip10 (pk_params s) then YCbCr422_8 else YCbCr422_10)\<rparr>"
proof -
  obtain s1 where e: "pack_ensure env w h s = Inr s1"
    using assms(2,3) by (cases "pack_ensure env w h s") (auto simp: pack_ensure_def need_def Let_def split: if_splits)
  have f: "pk_params s1 = pk_params s" "pk_host_pool s1 \<noteq> []"
    using e by (auto simp: pack_ensure_def need_def Let_def kRing_def split: if_splits)
  show thesis
  proof (cases "pk_host_pool s = []")
    case True
    then show thesis
      using e f assms(1) by (intro that [OF e]) (auto simp: pack_ensure_def need_def Let_def pack_wf_def kRing_def split: if_splits)
  next
    case False
    then show thesis
      using e f assms by (intro that [OF e]) (auto simp: pack_ensure_def need_def Let_def pack_wf_def split: if_splits)
  qed
qed
text \<open>The two ways to the host buffer come to the same.\<close>

lemma pack_finish:
  assumes "pack_ensure env (gf_width src) (gf_height src) s = Inr s1" "pack_wf s1" "pk_host_pool s1 \<noteq> []"
    and "pk_dpacked_bytes s1 = packed_octets (gf_width src) (gf_height src) (pkp_ip10 (pk_params s1))"
    and "gf_wf src" "cu_sync_ok env" "cu_memcpy_ok env"
  obtains host s' where "pack_compute env held now src s = Some (Inr (host, pk_out_fmt s1, gf_capture_ts_ns src, s'))"
    "pack_wf s'" "pk_out_fmt s' = pk_out_fmt s1"
    "host < length (pk_host_pool s1) \<and> \<not> held host \<and> length (pk_host_pool s') = length (pk_host_pool s1) \<or>
     host = length (pk_host_pool s1) \<and> length (pk_host_pool s') = Suc host \<and> (\<forall>i<host. held i)"
    "pk_host_pool s' ! host = packed_bytes (pkp_ip10 (pk_params s1)) (gf_planes src)
       (unat (gf_width src) div 2) (unat (gf_height src))"
    "\<forall>i<length (pk_host_pool s1). i \<noteq> host \<longrightarrow> pk_host_pool s' ! i = pk_host_pool s1 ! i"
proof -
  let ?n = "length (pk_host_pool s1)" and ?coded = "pkp_ip10 (pk_params s1)"
  let ?out = "packed_bytes ?coded (gf_planes src) (unat (gf_width src) div 2) (unat (gf_height src))"
  let ?oct = "pk_dpacked_bytes s1"
  have idx: "pk_idx s1 < ?n" using assms(2,3) by (simp add: pack_wf_def)
  have lens: "\<forall>b\<in>set (pk_host_pool s1). length b = ?oct" using assms(2,3) by (simp add: pack_wf_def)
  have lout: "length ?out = ?oct"
    using assms(4) by (simp add: length_packed_bytes packed_octets_def unat_div)
  obtain pick i' where p: "pick_host held ?n ?n (pk_idx s1) = (pick, i')" by fastforce
  define host where "host = (case pick of Some i \<Rightarrow> i | None \<Rightarrow> ?n)"
  define s2 where "s2 = (case pick of Some _ \<Rightarrow> s1\<lparr>pk_idx := i'\<rparr>
    | None \<Rightarrow> s1\<lparr>pk_idx := i', pk_host_pool := pk_host_pool s1 @ [replicate ?oct 0]\<rparr>)"
  have i': "i' < ?n" using p idx by (cases pick) (auto dest: pick_host_free pick_host_none)
  have host: "host < ?n \<and> \<not> held host \<and> length (pk_host_pool s2) = ?n \<or>
      host = ?n \<and> length (pk_host_pool s2) = Suc host \<and> (\<forall>i<host. held i)"
  proof (cases pick)
    case None
    then show ?thesis using p pick_host_none_all [OF _ idx] by (auto simp: host_def s2_def)
  next
    case (Some i)
    then show ?thesis using p pick_host_free [OF _ idx] by (auto simp: host_def s2_def)
  qed
  have lens2: "\<forall>b\<in>set (pk_host_pool s2). length b = ?oct" using lens by (auto simp: s2_def split: option.splits)
  have s2: "pk_out_fmt s2 = pk_out_fmt s1" "pk_dpacked_bytes s2 = ?oct" "pk_params s2 = pk_params s1"
    "pk_zerocopy s2 = pk_zerocopy s1" "pk_dpacked s2 = pk_dpacked s1" "pk_idx s2 = i'"
    "\<forall>i<?n. pk_host_pool s2 ! i = pk_host_pool s1 ! i"
    by (auto simp: s2_def nth_append split: option.splits)
  have hl: "host < length (pk_host_pool s2)" using host by auto
  then have "length (pk_host_pool s2 ! host) = ?oct" using lens2 by simp
  then have k: "pack_kernel ?coded src (pk_host_pool s2 ! host) = Some ?out"
    using pack_kernel_result [OF assms(5)] assms(4) by simp
  have grow: "?n \<le> length (pk_host_pool s2)" using host by auto
  show thesis
  proof (cases "pk_zerocopy s1")
    case True
    define s' where "s' = lat_update now src (s2\<lparr>pk_host_pool := (pk_host_pool s2)[host := ?out]\<rparr>)"
    have c: "pack_compute env held now src s = Some (Inr (host, pk_out_fmt s1, gf_capture_ts_ns src, s'))"
      unfolding pack_compute_def assms(1) Let_def p sum.case prod.case
      unfolding host_def [symmetric] s2_def [symmetric]
      using idx assms(6) True k s2 by (simp add: s'_def)
    have wf': "pack_wf s'"
      using lens2 lout i' grow True s2 hl by (auto simp: pack_wf_def s'_def set_conv_nth nth_list_update)
    show thesis
      by (rule that [OF c wf']) (use host hl s2 grow in \<open>auto simp: s'_def nth_list_update\<close>)
  next
    case False
    then obtain d where d: "pk_dpacked s1 = Some d" "length d = ?oct" using assms(2,3) by (auto simp: pack_wf_def)
    define s' where "s' = lat_update now src (s2\<lparr>pk_dpacked := Some ?out, pk_host_pool := (pk_host_pool s2)[host := ?out]\<rparr>)"
    have kd: "pack_kernel ?coded src d = Some ?out" using pack_kernel_result [OF assms(5)] assms(4) d(2) by simp
    have c: "pack_compute env held now src s = Some (Inr (host, pk_out_fmt s1, gf_capture_ts_ns src, s'))"
      unfolding pack_compute_def assms(1) Let_def p sum.case prod.case
      unfolding host_def [symmetric] s2_def [symmetric]
      using idx assms(6,7) False d kd s2 lout \<open>length (pk_host_pool s2 ! host) = ?oct\<close>
      by (simp add: s'_def mem_read_def mem_write_def)
    have wf': "pack_wf s'"
      using lens2 lout i' grow False s2 hl by (auto simp: pack_wf_def s'_def set_conv_nth nth_list_update)
    show thesis
      by (rule that [OF c wf']) (use host hl s2 grow in \<open>auto simp: s'_def nth_list_update\<close>)
  qed
qed

text \<open>One frame, of the geometry the operator is set up for.\<close>

lemma pack_step:
  assumes "pack_wf s" "gf_wf src" "cu_stream_ok env" "cu_malloc_ok env" "cu_sync_ok env" "cu_memcpy_ok env"
    and "pk_host_pool s = [] \<or> pk_dpacked_bytes s = packed_octets (gf_width src) (gf_height src) (pkp_ip10 (pk_params s))"
  shows "\<exists>host fmt s'. pack_compute env held now src s = Some (Inr (host, fmt, gf_capture_ts_ns src, s')) \<and>
    pack_wf s' \<and> host < length (pk_host_pool s') \<and>
    pk_host_pool s' ! host = packed_bytes (pkp_ip10 (pk_params s)) (gf_planes src)
      (unat (gf_width src) div 2) (unat (gf_height src)) \<and>
    (host < length (pk_host_pool s) \<longrightarrow> \<not> held host) \<and>
    (\<forall>i<length (pk_host_pool s). i \<noteq> host \<longrightarrow> pk_host_pool s' ! i = pk_host_pool s ! i) \<and>
    (length (pk_host_pool s') \<le> max kRing (length (pk_host_pool s)) \<or>
       (\<forall>i<length (pk_host_pool s') - 1. held i) \<and> length (pk_host_pool s') \<le> max kRing (length (pk_host_pool s)) + 1) \<and>
    fmt = (if pk_host_pool s \<noteq> [] then pk_out_fmt s
      else \<lparr>width = gf_width src, height = gf_height src, fps = pkp_out_fps (pk_params s),
            sampling_of = (if pkp_ip10 (pk_params s) then YCbCr422_8 else YCbCr422_10)\<rparr>)"
proof -
  obtain s1 where s1: "pack_ensure env (gf_width src) (gf_height src) s = Inr s1" "pack_wf s1" "pk_host_pool s1 \<noteq> []"
    "pk_dpacked_bytes s1 = packed_octets (gf_width src) (gf_height src) (pkp_ip10 (pk_params s))" "pk_params s1 = pk_params s"
    "pk_host_pool s \<noteq> [] \<longrightarrow> pk_host_pool s1 = pk_host_pool s \<and> pk_out_fmt s1 = pk_out_fmt s"
    "pk_host_pool s = [] \<longrightarrow> length (pk_host_pool s1) = kRing \<and> pk_out_fmt s1 =
       \<lparr>width = gf_width src, height = gf_height src, fps = pkp_out_fps (pk_params s),
        sampling_of = (if pkp_ip10 (pk_params s) then YCbCr422_8 else YCbCr422_10)\<rparr>"
    by (rule pack_ensure_ready [OF assms(1,3,4,7)])
  have oct: "pk_dpacked_bytes s1 = packed_octets (gf_width src) (gf_height src) (pkp_ip10 (pk_params s1))"
    using s1(4,5) by simp
  obtain host s' where r: "pack_compute env held now src s = Some (Inr (host, pk_out_fmt s1, gf_capture_ts_ns src, s'))"
    "pack_wf s'" "pk_out_fmt s' = pk_out_fmt s1"
    "host < length (pk_host_pool s1) \<and> \<not> held host \<and> length (pk_host_pool s') = length (pk_host_pool s1) \<or>
     host = length (pk_host_pool s1) \<and> length (pk_host_pool s') = Suc host \<and> (\<forall>i<host. held i)"
    "pk_host_pool s' ! host = packed_bytes (pkp_ip10 (pk_params s1)) (gf_planes src)
       (unat (gf_width src) div 2) (unat (gf_height src))"
    "\<forall>i<length (pk_host_pool s1). i \<noteq> host \<longrightarrow> pk_host_pool s' ! i = pk_host_pool s1 ! i"
    by (rule pack_finish [OF s1(1-3) oct assms(2,5,6)])
  have len: "length (pk_host_pool s1) = (if pk_host_pool s = [] then kRing else length (pk_host_pool s))"
    using s1(6,7) by auto
  show ?thesis
  proof (intro exI conjI)
    show "pack_compute env held now src s = Some (Inr (host, pk_out_fmt s1, gf_capture_ts_ns src, s'))" by (rule r(1))
    show "pk_host_pool s' ! host = packed_bytes (pkp_ip10 (pk_params s)) (gf_planes src)
       (unat (gf_width src) div 2) (unat (gf_height src))" using r(5) s1(5) by simp
    show "pk_out_fmt s1 = (if pk_host_pool s \<noteq> [] then pk_out_fmt s
      else \<lparr>width = gf_width src, height = gf_height src, fps = pkp_out_fps (pk_params s),
            sampling_of = (if pkp_ip10 (pk_params s) then YCbCr422_8 else YCbCr422_10)\<rparr>)" using s1(6,7) by simp
    show "length (pk_host_pool s') \<le> max kRing (length (pk_host_pool s)) \<or>
       (\<forall>i<length (pk_host_pool s') - 1. held i) \<and> length (pk_host_pool s') \<le> max kRing (length (pk_host_pool s)) + 1"
      using r(4) len by (auto split: if_splits)
    show "host < length (pk_host_pool s) \<longrightarrow> \<not> held host"
      using r(4) len by (auto split: if_splits)
    show "\<forall>i<length (pk_host_pool s). i \<noteq> host \<longrightarrow> pk_host_pool s' ! i = pk_host_pool s ! i"
      using r(6) s1(6) by auto
  qed (use r(2,4) in auto)
qed

lemma pack_compute_keeps:
  assumes "pack_ensure env (gf_width src) (gf_height src) s = Inr s1" "pack_compute env held now src s = Some (Inr (host, fmt, ts, s'))"
  shows "pk_params s' = pk_params s1" "pk_dpacked_bytes s' = pk_dpacked_bytes s1" "pk_out_fmt s' = pk_out_fmt s1" "fmt = pk_out_fmt s1"
proof -
  obtain pick i where p: "pick_host held (length (pk_host_pool s1)) (length (pk_host_pool s1)) (pk_idx s1) = (pick, i)"
    by fastforce
  show "pk_params s' = pk_params s1" "pk_dpacked_bytes s' = pk_dpacked_bytes s1" "pk_out_fmt s' = pk_out_fmt s1" "fmt = pk_out_fmt s1"
    using assms(2) unfolding pack_compute_def assms(1) Let_def p sum.case prod.case
    by (cases pick; auto split: if_splits Option.bind_splits)+
qed

text \<open>A run: frames of one geometry, each packed while the transmitter holds any buffers.\<close>

definition frame_fmt :: "u32 \<Rightarrow> u32 \<Rightarrow> pack_params \<Rightarrow> video_format" where
  "frame_fmt w h p = \<lparr>width = w, height = h, fps = pkp_out_fps p, sampling_of = (if pkp_ip10 p then YCbCr422_8 else YCbCr422_10)\<rparr>"

inductive pack_run :: "cuda_env \<Rightarrow> u32 \<Rightarrow> u32 \<Rightarrow> pack_params \<Rightarrow> pack_op \<Rightarrow> bool" for env w h p where
  run_start: "pack_run env w h p (pack_new p)"
| run_frame: "pack_run env w h p s \<Longrightarrow> gf_wf src \<Longrightarrow> gf_width src = w \<Longrightarrow> gf_height src = h \<Longrightarrow>
     pack_compute env held now src s = Some (Inr (host, fmt, ts, s')) \<Longrightarrow> pack_run env w h p s'"

definition pack_inv :: "u32 \<Rightarrow> u32 \<Rightarrow> pack_params \<Rightarrow> pack_op \<Rightarrow> bool" where
  "pack_inv w h p s \<longleftrightarrow> pack_wf s \<and> pk_params s = p \<and>
     (pk_host_pool s = [] \<or> pk_dpacked_bytes s = packed_octets w h (pkp_ip10 p) \<and> pk_out_fmt s = frame_fmt w h p)"

lemma pack_inv_step:
  assumes "pack_inv w h p s" "gf_wf src" "gf_width src = w" "gf_height src = h"
    and "cu_stream_ok env" "cu_malloc_ok env" "cu_sync_ok env" "cu_memcpy_ok env"
    and "pack_compute env held now src s = Some (Inr (host, fmt, ts, s'))"
  shows "pack_inv w h p s'"
proof -
  have g: "pk_host_pool s = [] \<or> pk_dpacked_bytes s = packed_octets (gf_width src) (gf_height src) (pkp_ip10 (pk_params s))"
    using assms(1,3,4) by (auto simp: pack_inv_def)
  have wf: "pack_wf s" "pk_params s = p" using assms(1) by (simp_all add: pack_inv_def)
  obtain s1 where s1: "pack_ensure env w h s = Inr s1" "pk_dpacked_bytes s1 = packed_octets w h (pkp_ip10 p)" "pk_params s1 = p"
    "pk_out_fmt s1 = frame_fmt w h p"
    by (rule pack_ensure_ready [OF wf(1) assms(5,6) g [unfolded assms(3,4)]])
      (use assms(1) wf(2) in \<open>cases "pk_host_pool s = []"; auto simp: pack_inv_def frame_fmt_def\<close>)
  note k = pack_compute_keeps [OF s1(1) [folded assms(3,4)] assms(9)]
  have "pack_wf s'" using pack_step [OF wf(1) assms(2,5-8) g, of held now] assms(9) by auto
  then show ?thesis using k s1(2-4) by (simp add: pack_inv_def)
qed

lemma pack_run_inv:
  assumes "pack_run env w h p s" "cu_stream_ok env" "cu_malloc_ok env" "cu_sync_ok env" "cu_memcpy_ok env"
  shows "pack_inv w h p s"
  using assms(1)
proof induction
  case run_start
  then show ?case by (simp add: pack_inv_def pack_wf_def pack_new_def)
next
  case (run_frame s src held now host fmt ts s')
  then show ?case using pack_inv_step assms(2-5) by blast
qed

text \<open>C13 - The pack operator never overwrites a frame in flight while the geometry stays: in every run from its
  start on frames of one geometry, the CUDA calls succeeding, each frame is emitted, with the zero-copy and the staged
  path alike, in a buffer the transmitter does not hold; every other buffer is left as it was, and that one holds exactly
  the packed bytes of the frame's samples; the source's capture time and the format of the run go with it; and the pool
  grows only when the transmitter holds every buffer of it.  A change of geometry or a restart breaks this (lemmas
  \<open>pack_format_stale\<close>, \<open>pack_index_out_of_pool\<close>, \<open>pack_restart_unstaged\<close>).\<close>
theorem pack_never_overwrites:
  assumes "pack_run env w h p s" "cu_stream_ok env" "cu_malloc_ok env" "cu_sync_ok env" "cu_memcpy_ok env"
    and "gf_wf src" "gf_width src = w" "gf_height src = h"
  shows "\<exists>host s'. pack_compute env held now src s = Some (Inr (host, frame_fmt w h p, gf_capture_ts_ns src, s')) \<and>
    pack_run env w h p s' \<and> host < length (pk_host_pool s') \<and>
    pk_host_pool s' ! host = packed_bytes (pkp_ip10 p) (gf_planes src) (unat w div 2) (unat h) \<and>
    (host < length (pk_host_pool s) \<longrightarrow> \<not> held host) \<and>
    (\<forall>i<length (pk_host_pool s). i \<noteq> host \<longrightarrow> pk_host_pool s' ! i = pk_host_pool s ! i) \<and>
    (length (pk_host_pool s') \<le> max kRing (length (pk_host_pool s)) \<or>
       (\<forall>i<length (pk_host_pool s') - 1. held i) \<and> length (pk_host_pool s') \<le> max kRing (length (pk_host_pool s)) + 1)"
proof -
  have inv: "pack_inv w h p s" by (rule pack_run_inv [OF assms(1-5)])
  then have g: "pk_host_pool s = [] \<or> pk_dpacked_bytes s = packed_octets (gf_width src) (gf_height src) (pkp_ip10 (pk_params s))"
    using assms(7,8) by (auto simp: pack_inv_def)
  have wf: "pack_wf s" "pk_params s = p" using inv by (simp_all add: pack_inv_def)
  have "(if pk_host_pool s \<noteq> [] then pk_out_fmt s
      else \<lparr>width = w, height = h, fps = pkp_out_fps p, sampling_of = (if pkp_ip10 p then YCbCr422_8 else YCbCr422_10)\<rparr>) = frame_fmt w h p"
    using inv by (auto simp: pack_inv_def frame_fmt_def)
  then show ?thesis
    using pack_step [OF wf(1) assms(6,2-5) g, of held now] run_frame [OF assms(1,6-8), of held now] unfolding wf(2) assms(7,8) by metis
qed

theorem pack_never_overwrites_witness:
  "\<exists>host s'. pack_compute (all_ok False) (\<lambda>_. True) 9
       ((gpu_frame_alloc 2 1)\<lparr>gf_planes := \<lparr>pl_y = [1, 2], pl_cb = [3], pl_cr = [4]\<rparr>\<rparr>)
       (pack_new \<lparr>pkp_out_fps = 50, pkp_ip10 = False\<rparr>) = Some (Inr (host, frame_fmt 2 1 \<lparr>pkp_out_fps = 50, pkp_ip10 = False\<rparr>, 0, s')) \<and>
     pk_host_pool s' ! host = pack_pgroup (3, 1, 4, 2)"
proof -
  let ?f = "(gpu_frame_alloc 2 1)\<lparr>gf_planes := \<lparr>pl_y = [1, 2], pl_cb = [3], pl_cr = [4]\<rparr>\<rparr>"
  let ?p = "\<lparr>pkp_out_fps = 50, pkp_ip10 = False\<rparr>"
  have f: "gf_wf ?f" "gf_width ?f = 2" "gf_height ?f = 1"
    by (simp_all add: gf_wf_def gpu_frame_alloc_def planar_ok_def Let_def)
  have ok: "cu_stream_ok (all_ok False)" "cu_malloc_ok (all_ok False)" "cu_sync_ok (all_ok False)" "cu_memcpy_ok (all_ok False)"
    by (simp_all add: all_ok_def)
  have v: "packed_bytes (pkp_ip10 ?p) (gf_planes ?f) (unat (2 :: u32) div 2) (unat (1 :: u32)) = pack_pgroup (3, 1, 4, 2)"
    "gf_capture_ts_ns ?f = 0"
    by (simp_all add: packed_bytes_def packed_frame_def gpu_frame_alloc_def Let_def)
  from pack_never_overwrites [OF run_start ok f, where p = ?p and held = "\<lambda>_. True" and now = 9] show ?thesis unfolding v by blast
qed

section \<open>Geometry is known by its octet count\<close>

text \<open>A change of geometry that keeps the octet count is not noticed: the frames go out under the old
  format.\<close>

lemma pack_format_stale:
  assumes "pack_ensure env 4 1 s = Inr s1" "pack_ensure env 2 2 s1 = Inr s2" "pk_host_pool s = []"
  shows "pk_out_fmt s2 = pk_out_fmt s1"
proof -
  have "pk_params s1 = pk_params s" "pk_host_pool s1 \<noteq> []" "pk_dpacked_bytes s1 = packed_octets 4 1 (pkp_ip10 (pk_params s))"
    using assms(1,3) by (auto simp: pack_ensure_def need_def Let_def kRing_def split: if_splits)
  moreover have "packed_octets 4 1 coded = packed_octets 2 2 coded" for coded by (simp add: packed_octets_def)
  ultimately show ?thesis
    using assms(2) by (auto simp: pack_ensure_def need_def Let_def split: if_splits)
qed

text \<open>A change that is noticed replaces the pool and keeps the index: after the pool has grown, the search
  may start beyond the new pool's end.\<close>

lemma pack_index_out_of_pool:
  assumes "pack_ensure env w h s = Inr s1" "pk_dpacked_bytes s \<noteq> packed_octets w h (pkp_ip10 (pk_params s))"
    and "kRing \<le> pk_idx s" "gf_width src = w" "gf_height src = h"
  shows "pack_compute env held now src s = None"
proof -
  have "length (pk_host_pool s1) = kRing" "pk_idx s1 = pk_idx s"
    using assms(1,2) by (auto simp: pack_ensure_def need_def Let_def split: if_splits)
  then show ?thesis using assms by (simp add: pack_compute_def)
qed

text \<open>\<open>stop\<close> frees the staging buffer and keeps the size that says it is there.\<close>

lemma pack_restart_unstaged:
  assumes "pk_host_pool s \<noteq> []" "pk_idx s < length (pk_host_pool s)" "\<not> pk_zerocopy s" "cu_sync_ok env" "cu_stream_ok env"
    and "pk_dpacked_bytes s = packed_octets (gf_width src) (gf_height src) (pkp_ip10 (pk_params s))"
  shows "pack_compute env held now src (pack_stop s) = None"
proof -
  define s1 where "s1 = (pack_stop s)\<lparr>pk_stream := True\<rparr>"
  have e: "pack_ensure env (gf_width src) (gf_height src) (pack_stop s) = Inr s1"
    using assms by (simp add: pack_ensure_def need_def Let_def s1_def pack_stop_def)
  have f: "pk_host_pool s1 = pk_host_pool s" "pk_idx s1 = pk_idx s" "\<not> pk_zerocopy s1" "pk_dpacked s1 = None"
    using assms(3) by (simp_all add: s1_def pack_stop_def)
  obtain pick i where p: "pick_host held (length (pk_host_pool s1)) (length (pk_host_pool s1)) (pk_idx s1) = (pick, i)"
    by fastforce
  show ?thesis
    unfolding pack_compute_def e Let_def p sum.case prod.case
    using assms(2,4) f by (cases pick) simp_all
qed

end
