(* ===== verification/C_Num.thy ===== *)
theory C_Num
  imports Ieee_Double
begin

text \<open>
  The C library's conversions of environment strings to numbers, as the program uses them: \<open>atoll\<close>,
  \<open>atoi\<close> and \<open>atof\<close> of the C locale, and the comparisons of doubles with infinities and NaN.  Integers out
  of range saturate as glibc's \<open>strtoll\<close> does.  The sign of zero and subnormal doubles are not modelled.
\<close>

type_synonym environ = "string \<Rightarrow> string option"

definition getenv_or :: "environ \<Rightarrow> string \<Rightarrow> string \<Rightarrow> string" where
  "getenv_or env k d = (case env k of None \<Rightarrow> d | Some v \<Rightarrow> v)"

section \<open>Integers\<close>

definition chr_code :: "char \<Rightarrow> nat" where "chr_code c = of_char c"

definition is_space :: "char \<Rightarrow> bool" where
  "is_space c \<longleftrightarrow> chr_code c = 32 \<or> 9 \<le> chr_code c \<and> chr_code c \<le> 13"

definition digit_of :: "nat \<Rightarrow> char \<Rightarrow> nat option" where
  "digit_of base c =
     (let n = chr_code c;
          v = (if 48 \<le> n \<and> n \<le> 57 then n - 48 else if 97 \<le> n \<and> n \<le> 102 then n - 87
               else if 65 \<le> n \<and> n \<le> 70 then n - 55 else base)
      in if v < base then Some v else None)"

fun digits_value :: "nat \<Rightarrow> nat \<Rightarrow> string \<Rightarrow> nat" where
  "digits_value base acc [] = acc"
| "digits_value base acc (c # s) =
     (case digit_of base c of None \<Rightarrow> digits_value base acc s | Some d \<Rightarrow> digits_value base (acc * base + d) s)"

definition take_digits :: "nat \<Rightarrow> string \<Rightarrow> string" where
  "take_digits base = takeWhile (\<lambda>c. digit_of base c \<noteq> None)"

definition drop_digits :: "nat \<Rightarrow> string \<Rightarrow> string" where
  "drop_digits base = dropWhile (\<lambda>c. digit_of base c \<noteq> None)"

text \<open>An optional sign.\<close>

definition take_sign :: "string \<Rightarrow> bool \<times> string" where
  "take_sign s = (case s of
     [] \<Rightarrow> (False, [])
   | c # r \<Rightarrow> if c = CHR ''-'' then (True, r) else if c = CHR ''+'' then (False, r) else (False, s))"

definition atoll :: "string \<Rightarrow> int" where
  "atoll s =
     (let (neg, r) = take_sign (dropWhile is_space s);
          v = int (digits_value 10 0 (take_digits 10 r));
          w = (if neg then - v else v)
      in max (- (2 ^ 63)) (min (2 ^ 63 - 1) w))"

definition atoi :: "string \<Rightarrow> int" where
  "atoi s = sint (word_of_int (atoll s) :: 32 word)"

definition atou32 :: "string \<Rightarrow> u32" where "atou32 s = word_of_int (atoll s)"

section \<open>Doubles\<close>

datatype fp = Fin rat | Inf bool | NaN

text \<open>\<open>Inf True\<close> is the negative one.\<close>

definition fp_of_rat :: "rat \<Rightarrow> fp" where
  "fp_of_rat q = (let r = dbl q in if \<bar>r\<bar> \<ge> 2 ^ 1024 then Inf (r < 0) else Fin r)"

definition fp_neg :: "fp \<Rightarrow> fp" where
  "fp_neg x = (case x of Fin q \<Rightarrow> Fin (- q) | Inf n \<Rightarrow> Inf (\<not> n) | NaN \<Rightarrow> NaN)"

definition fp_lt :: "fp \<Rightarrow> fp \<Rightarrow> bool" where
  "fp_lt a b = (case (a, b) of
     (Fin x, Fin y) \<Rightarrow> x < y | (Fin _, Inf n) \<Rightarrow> \<not> n | (Inf n, Fin _) \<Rightarrow> n | (Inf m, Inf n) \<Rightarrow> m \<and> \<not> n | _ \<Rightarrow> False)"

definition fp_le :: "fp \<Rightarrow> fp \<Rightarrow> bool" where
  "fp_le a b \<longleftrightarrow> fp_lt a b \<or> a = b \<and> a \<noteq> NaN"

text \<open>\<open>a != b\<close>.\<close>

definition fp_ne :: "fp \<Rightarrow> fp \<Rightarrow> bool" where
  "fp_ne a b \<longleftrightarrow> a \<noteq> b \<or> a = NaN"

text \<open>A float from a double.\<close>

definition to_float :: "fp \<Rightarrow> fp" where
  "to_float x = (case x of Fin q \<Rightarrow> (let r = flt q in if \<bar>r\<bar> \<ge> 2 ^ 128 then Inf (r < 0) else Fin r) | y \<Rightarrow> y)"

definition lower :: "char \<Rightarrow> nat" where
  "lower c = (if 65 \<le> chr_code c \<and> chr_code c \<le> 90 then chr_code c + 32 else chr_code c)"

definition has_prefix_ci :: "string \<Rightarrow> string \<Rightarrow> bool" where
  "has_prefix_ci p s \<longleftrightarrow> map lower (take (length p) s) = map lower p"

text \<open>An exponent: the marker and at least one digit.\<close>

definition take_exponent :: "char \<Rightarrow> string \<Rightarrow> int" where
  "take_exponent marker s = (case s of
     [] \<Rightarrow> 0
   | c # r \<Rightarrow>
       if lower c \<noteq> lower marker then 0
       else let (neg, r') = take_sign r; v = int (digits_value 10 0 (take_digits 10 r')) in if neg then - v else v)"

definition scaled :: "rat \<Rightarrow> nat \<Rightarrow> int \<Rightarrow> rat" where
  "scaled m b e = (if 0 \<le> e then m * of_nat b ^ nat e else m / of_nat b ^ nat (- e))"

text \<open>A number of base \<open>base\<close>, whose exponent is a power of \<open>ebase\<close>.\<close>

definition take_number :: "nat \<Rightarrow> char \<Rightarrow> nat \<Rightarrow> string \<Rightarrow> rat" where
  "take_number base marker ebase s =
     (let whole = take_digits base s; r = drop_digits base s;
          frac = (case r of c # t \<Rightarrow> if c = CHR ''.'' then take_digits base t else [] | [] \<Rightarrow> []);
          rest = (case r of c # t \<Rightarrow> if c = CHR ''.'' then drop_digits base t else r | [] \<Rightarrow> [])
      in if whole = [] \<and> frac = [] then 0
         else scaled (of_nat (digits_value base 0 (whole @ frac)) / of_nat base ^ length frac) ebase
                (take_exponent marker rest))"

definition hex_literal :: "string \<Rightarrow> bool" where
  "hex_literal s \<longleftrightarrow> has_prefix_ci ''0x'' s \<and>
     (case drop 2 s of
        [] \<Rightarrow> False
      | c # r \<Rightarrow> digit_of 16 c \<noteq> None \<or> c = CHR ''.'' \<and> r \<noteq> [] \<and> digit_of 16 (hd r) \<noteq> None)"

definition atof :: "string \<Rightarrow> fp" where
  "atof s =
     (let (neg, r) = take_sign (dropWhile is_space s);
          v = (if has_prefix_ci ''inf'' r then Inf False
               else if has_prefix_ci ''nan'' r then NaN
               else if hex_literal r then fp_of_rat (take_number 16 CHR ''p'' 2 (drop 2 r))
               else fp_of_rat (take_number 10 CHR ''e'' 10 r))
      in if neg then fp_neg v else v)"

section \<open>Decimal strings\<close>

text \<open>\<open>std::to_string\<close> of an unsigned integer.\<close>

fun dec_digits :: "nat \<Rightarrow> string" where
  "dec_digits n = (if n < 10 then [char_of (48 + n)] else dec_digits (n div 10) @ [char_of (48 + n mod 10)])"

declare dec_digits.simps [simp del]

definition to_dec :: "int \<Rightarrow> string" where
  "to_dec z = (if z < 0 then CHR ''-'' # dec_digits (nat (- z)) else dec_digits (nat z))"

lemma digit_char: "n < 10 \<Longrightarrow> digit_of 10 (char_of (48 + n)) = Some n"
  by (simp add: digit_of_def chr_code_def)

lemma digits_value_append: "digits_value b acc (s @ t) = digits_value b (digits_value b acc s) t"
  by (induction b acc s rule: digits_value.induct) (auto split: option.splits)

lemma dec_digits_value: "digits_value 10 0 (dec_digits n) = n"
proof (induction n rule: dec_digits.induct)
  case (1 n)
  then show ?case by (subst dec_digits.simps) (simp add: digits_value_append digit_char)
qed

lemma dec_digits_digits: "\<forall>c\<in>set (dec_digits n). digit_of 10 c \<noteq> None"
proof (induction n rule: dec_digits.induct)
  case (1 n)
  then show ?case by (subst dec_digits.simps) (auto simp: digit_char)
qed

lemma dec_digits_Nil [simp]: "dec_digits n \<noteq> []"
  by (subst dec_digits.simps) simp

lemma digit_plain: "digit_of 10 c \<noteq> None \<Longrightarrow> \<not> is_space c \<and> c \<noteq> CHR ''-'' \<and> c \<noteq> CHR ''+''"
  by (auto simp: digit_of_def is_space_def chr_code_def Let_def split: if_splits)

lemma take_digits_all: "\<forall>c\<in>set s. digit_of b c \<noteq> None \<Longrightarrow> take_digits b s = s"
  by (simp add: take_digits_def takeWhile_eq_all_conv)

lemma dec_digits_head: "\<exists>c s. dec_digits n = c # s \<and> digit_of 10 c \<noteq> None"
  using dec_digits_digits [of n] by (cases "dec_digits n") auto

lemma atoll_to_dec:
  assumes "- (2 ^ 63) \<le> z" "z < 2 ^ 63"
  shows "atoll (to_dec z) = z"
proof (cases "z < 0")
  case True
  have "\<not> is_space CHR ''-''" by (simp add: is_space_def chr_code_def)
  then show ?thesis using True assms
    by (simp add: atoll_def to_dec_def take_sign_def take_digits_all dec_digits_digits dec_digits_value)
next
  case False
  obtain c s where d: "dec_digits (nat z) = c # s" "digit_of 10 c \<noteq> None" using dec_digits_head by blast
  have "take_sign (dropWhile is_space (dec_digits (nat z))) = (False, dec_digits (nat z))"
    using digit_plain [OF d(2)] d(1) by (simp add: take_sign_def)
  then show ?thesis using False assms
    by (simp add: atoll_def to_dec_def take_digits_all dec_digits_digits dec_digits_value)
qed

text \<open>Evaluation on literals.\<close>

lemmas c_num_eval = take_sign_def is_space_def chr_code_def digit_of_def take_digits_def drop_digits_def
  has_prefix_ci_def hex_literal_def lower_def take_number_def take_exponent_def scaled_def

lemma fp_of_nat: "n \<le> 9007199254740992 \<Longrightarrow> fp_of_rat (of_nat n) = Fin (of_nat n)"
proof -
  assume n: "n \<le> 9007199254740992"
  then have "(of_nat n :: rat) \<le> of_nat 9007199254740992" by (simp only: of_nat_le_iff)
  also have "\<dots> < 2 ^ 1024" by simp
  finally show ?thesis using dbl_of_nat [OF n] by (simp add: fp_of_rat_def Let_def not_le)
qed

lemma fp_of_numeral: "(numeral k :: nat) \<le> 9007199254740992 \<Longrightarrow> fp_of_rat (numeral k) = Fin (numeral k)"
  using fp_of_nat [of "numeral k"] by simp

lemma fp_of_rat_0 [simp]: "fp_of_rat 0 = Fin 0"
  by (simp add: fp_of_rat_def)

lemma atof_literals:
  "atof ''105'' = Fin 105" "atof '' -1e3x'' = Fin (- 1000)" "atof ''nan'' = NaN" "atof ''0x1Fp1'' = Fin 62" "atof '''' = Fin 0"
  by (simp_all add: atof_def c_num_eval fp_of_numeral fp_neg_def)
end
