(* ===== verification/Sr_Model.thy ===== *)
theory Sr_Model
  imports Dpdk_Common
begin

text \<open>
  The weight files of the super-resolution nets, \<open>engine/operators/resize/sr_model.hpp\<close> and \<open>.cpp\<close>: the
  cursor, the parser with its checks in order, and the two loaders.  A float is its four bytes, which
  the parser copies and never looks at.  A parser either fails or returns its value and the bytes left.
\<close>

section \<open>Nets\<close>

datatype sr_kind = Conv | Shuffle2

record sr_layer =
  ly_kind :: sr_kind
  ly_k :: u32
  ly_cin :: u32
  ly_cout :: u32
  ly_act :: u32
  ly_w :: "u32 list"
  ly_bias :: "u32 list"
  ly_alpha :: "u32 list"

record net_def =
  nd_name :: string
  nd_scale :: u32
  nd_layers :: "sr_layer list"

text \<open>The activation that carries slopes.\<close>

definition act_prelu :: u32 where "act_prelu = 1"

datatype sr_error = Truncated | Bad_magic | Unsupported_version u32 | Only_scale_2 | Implausible_layer_count |
  Channel_mismatch nat | Unsupported_conv nat | Shuffle_not_last | Shuffle_weights | Unknown_kind |
  Not_terminated | Trailing_bytes | No_embedded_weights | Cannot_open

definition is_sr_interp :: "string \<Rightarrow> bool" where
  "is_sr_interp s \<longleftrightarrow> s = ''fsrcnn'' \<or> s = ''fsrcnn-s'' \<or> s = ''espcn''"

section \<open>The cursor\<close>

type_synonym 'a parser = "bytes \<Rightarrow> sr_error + 'a \<times> bytes"

definition take_bytes :: "nat \<Rightarrow> bytes parser" where
  "take_bytes n b = (if length b < n then Inl Truncated else Inr (take n b, drop n b))"

definition pbind :: "'a parser \<Rightarrow> ('a \<Rightarrow> 'b parser) \<Rightarrow> 'b parser" where
  "pbind p f b = (case p b of Inl e \<Rightarrow> Inl e | Inr (v, rest) \<Rightarrow> f v rest)"

definition preturn :: "'a \<Rightarrow> 'a parser" where "preturn v b = Inr (v, b)"

definition pneed :: "bool \<Rightarrow> sr_error \<Rightarrow> unit parser" where
  "pneed c e b = (if c then Inr ((), b) else Inl e)"

definition pfail :: "sr_error \<Rightarrow> 'a parser" where "pfail e b = Inl e"

definition cur_u32 :: "u32 parser" where "cur_u32 = pbind (take_bytes 4) (\<lambda>x. preturn (ld32 x))"

fun cur_floats :: "nat \<Rightarrow> u32 list parser" where
  "cur_floats 0 = preturn []"
| "cur_floats (Suc n) = pbind cur_u32 (\<lambda>x. pbind (cur_floats n) (\<lambda>xs. preturn (x # xs)))"

section \<open>The parser\<close>

definition conv_shape :: "u32 \<Rightarrow> u32 \<Rightarrow> u32 \<Rightarrow> bool" where
  "conv_shape k cin cout \<longleftrightarrow> \<not> (k = 0 \<or> k > 9 \<or> k mod 2 = 0 \<or> cin > 256 \<or> cout > 256 \<or> cout = 0)"

text \<open>The part of a layer after its six header words, by kind.\<close>

definition layer_body :: "nat \<Rightarrow> nat \<Rightarrow> u32 \<Rightarrow> u32 \<Rightarrow> u32 \<Rightarrow> u32 \<Rightarrow> u32 \<Rightarrow> u32 \<Rightarrow> sr_layer parser" where
  "layer_body i n_layers kind k cin cout act has_bias =
     (if kind = 0 then
       pbind (pneed (conv_shape k cin cout) (Unsupported_conv i)) (\<lambda>_.
       pbind (cur_floats (unat cout * unat cin * unat k * unat k)) (\<lambda>w.
       pbind (if has_bias \<noteq> 0 then cur_floats (unat cout) else preturn []) (\<lambda>bias.
       pbind (if act = act_prelu then cur_floats (unat cout) else preturn []) (\<lambda>alpha.
       preturn \<lparr>ly_kind = Conv, ly_k = k, ly_cin = cin, ly_cout = cout, ly_act = act,
                ly_w = w, ly_bias = bias, ly_alpha = alpha\<rparr>))))
     else if kind = 1 then
       pbind (pneed (\<not> (i + 1 \<noteq> n_layers \<or> cin \<noteq> 4 \<or> cout \<noteq> 1)) Shuffle_not_last) (\<lambda>_.
       pbind (pneed (\<not> (has_bias \<noteq> 0 \<or> act = act_prelu)) Shuffle_weights) (\<lambda>_.
       preturn \<lparr>ly_kind = Shuffle2, ly_k = k, ly_cin = cin, ly_cout = cout, ly_act = act,
                ly_w = [], ly_bias = [], ly_alpha = []\<rparr>))
     else pfail Unknown_kind)"

definition parse_layer :: "nat \<Rightarrow> nat \<Rightarrow> u32 \<Rightarrow> sr_layer parser" where
  "parse_layer i n_layers prev_out =
     pbind cur_u32 (\<lambda>kind. pbind cur_u32 (\<lambda>k. pbind cur_u32 (\<lambda>cin. pbind cur_u32 (\<lambda>cout.
     pbind cur_u32 (\<lambda>act. pbind cur_u32 (\<lambda>has_bias.
     pbind (pneed (cin = prev_out) (Channel_mismatch i)) (\<lambda>_.
     layer_body i n_layers kind k cin cout act has_bias)))))))"

fun parse_layers :: "nat \<Rightarrow> nat \<Rightarrow> nat \<Rightarrow> u32 \<Rightarrow> sr_layer list parser" where
  "parse_layers 0 i n_layers prev_out = preturn []"
| "parse_layers (Suc m) i n_layers prev_out =
     pbind (parse_layer i n_layers prev_out) (\<lambda>l.
     pbind (parse_layers m (i + 1) n_layers (ly_cout l)) (\<lambda>ls. preturn (l # ls)))"

definition parse_net :: "string \<Rightarrow> net_def parser" where
  "parse_net name =
     pbind cur_u32 (\<lambda>magic. pbind (pneed (magic = 0x31575253) Bad_magic) (\<lambda>_.
     pbind cur_u32 (\<lambda>version. pbind (pneed (version = 1) (Unsupported_version version)) (\<lambda>_.
     pbind cur_u32 (\<lambda>scale. pbind cur_u32 (\<lambda>n_layers.
     pbind (pneed (scale = 2) Only_scale_2) (\<lambda>_.
     pbind (pneed (\<not> (n_layers = 0 \<or> n_layers > 64)) Implausible_layer_count) (\<lambda>_.
     pbind (parse_layers (unat n_layers) 0 (unat n_layers) 1) (\<lambda>ls.
     pbind (pneed (ly_kind (last ls) = Shuffle2) Not_terminated) (\<lambda>_.
     preturn \<lparr>nd_name = name, nd_scale = scale, nd_layers = ls\<rparr>))))))))))"

definition parse_blob :: "bytes \<Rightarrow> string \<Rightarrow> sr_error + net_def" where
  "parse_blob data name =
     ebind (parse_net name data) (\<lambda>(net, rest). if rest = [] then Inr net else Inl Trailing_bytes)"

section \<open>Loaders\<close>

definition load_embedded :: "(string \<times> bytes) list \<Rightarrow> string \<Rightarrow> sr_error + net_def" where
  "load_embedded models name =
     (case find (\<lambda>(n, _). name = n) models of
        None \<Rightarrow> Inl No_embedded_weights | Some (_, data) \<Rightarrow> parse_blob data name)"

definition load_file :: "bytes option \<Rightarrow> string \<Rightarrow> sr_error + net_def" where
  "load_file contents name = (case contents of None \<Rightarrow> Inl Cannot_open | Some data \<Rightarrow> parse_blob data name)"

section \<open>Well-formed nets and their format\<close>

definition layer_wf :: "bool \<Rightarrow> sr_layer \<Rightarrow> bool" where
  "layer_wf is_last l \<longleftrightarrow>
     (case ly_kind l of
        Conv \<Rightarrow> \<not> is_last \<and> conv_shape (ly_k l) (ly_cin l) (ly_cout l) \<and>
          length (ly_w l) = unat (ly_cout l) * unat (ly_cin l) * unat (ly_k l) * unat (ly_k l) \<and>
          (ly_bias l = [] \<or> length (ly_bias l) = unat (ly_cout l)) \<and>
          (if ly_act l = act_prelu then length (ly_alpha l) = unat (ly_cout l) else ly_alpha l = [])
      | Shuffle2 \<Rightarrow> is_last \<and> ly_cin l = 4 \<and> ly_cout l = 1 \<and> ly_act l \<noteq> act_prelu \<and>
          ly_w l = [] \<and> ly_bias l = [] \<and> ly_alpha l = [])"

text \<open>The channels of consecutive layers match.\<close>

fun chain_wf :: "u32 \<Rightarrow> sr_layer list \<Rightarrow> bool" where
  "chain_wf p [] \<longleftrightarrow> True"
| "chain_wf p (l # ls) \<longleftrightarrow> ly_cin l = p \<and> layer_wf (ls = []) l \<and> chain_wf (ly_cout l) ls"

definition net_wf :: "net_def \<Rightarrow> bool" where
  "net_wf n \<longleftrightarrow> nd_scale n = 2 \<and> 0 < length (nd_layers n) \<and> length (nd_layers n) \<le> 64 \<and> chain_wf 1 (nd_layers n)"

definition floats_bytes :: "u32 list \<Rightarrow> bytes" where "floats_bytes xs = concat (map le32 xs)"

definition layer_bytes :: "sr_layer \<Rightarrow> bytes" where
  "layer_bytes l = le32 (case ly_kind l of Conv \<Rightarrow> 0 | Shuffle2 \<Rightarrow> 1) @ le32 (ly_k l) @ le32 (ly_cin l) @
     le32 (ly_cout l) @ le32 (ly_act l) @ le32 (if ly_bias l = [] then 0 else 1) @
     floats_bytes (ly_w l) @ floats_bytes (ly_bias l) @ floats_bytes (ly_alpha l)"

definition blob_of :: "net_def \<Rightarrow> bytes" where
  "blob_of n = le32 0x31575253 @ le32 1 @ le32 (nd_scale n) @ le32 (of_nat (length (nd_layers n))) @
     concat (map layer_bytes (nd_layers n))"

section \<open>What a parser reads\<close>

text \<open>\<open>reads p u v\<close>: \<open>p\<close> consumes exactly \<open>u\<close> and returns \<open>v\<close>, whatever follows, and runs out of bytes on
  every proper prefix of \<open>u\<close>.\<close>

definition reads :: "'a parser \<Rightarrow> bytes \<Rightarrow> 'a \<Rightarrow> bool" where
  "reads p u v \<longleftrightarrow> (\<forall>rest. p (u @ rest) = Inr (v, rest)) \<and> (\<forall>n<length u. p (take n u) = Inl Truncated)"

lemma reads_pbind:
  assumes "reads p u v" "reads (f v) u' w"
  shows "reads (pbind p f) (u @ u') w"
proof -
  have "pbind p f (take n (u @ u')) = Inl Truncated" if n: "n < length (u @ u')" for n
  proof (cases "n < length u")
    case True
    then show ?thesis using assms(1) by (simp add: reads_def pbind_def)
  next
    case False
    then have "take n (u @ u') = u @ take (n - length u) u'" "n - length u < length u'" using n by simp_all
    then show ?thesis using assms by (simp add: reads_def pbind_def)
  qed
  then show ?thesis using assms by (simp add: reads_def pbind_def)
qed

lemma reads_preturn: "reads (preturn v) [] v"
  by (simp add: reads_def preturn_def)

lemma reads_pneed: "c \<Longrightarrow> reads (pneed c e) [] ()"
  by (simp add: reads_def pneed_def)

lemma reads_need: "c \<Longrightarrow> reads (f ()) u w \<Longrightarrow> reads (pbind (pneed c e) f) u w"
  using reads_pbind [OF reads_pneed, of c f u w e] by simp

lemma reads_u32: "reads cur_u32 (le32 v) v"
proof -
  have "ld32 (le32 v) = v" "length (le32 v) = 4" by (simp_all add: ld32_le32)
  then show ?thesis by (auto simp: reads_def cur_u32_def pbind_def take_bytes_def preturn_def)
qed

lemma reads_floats: "reads (cur_floats (length xs)) (floats_bytes xs) xs"
proof (induction xs)
  case Nil
  then show ?case by (simp add: floats_bytes_def reads_preturn)
next
  case (Cons x xs)
  have "reads (pbind (cur_floats (length xs)) (\<lambda>xs. preturn (x # xs))) (floats_bytes xs @ []) (x # xs)"
    by (rule reads_pbind [OF Cons.IH reads_preturn])
  then have "reads (cur_floats (length (x # xs))) (le32 x @ floats_bytes xs) (x # xs)"
    using reads_pbind [OF reads_u32] by fastforce
  then show ?case by (simp add: floats_bytes_def)
qed

lemma reads_layer:
  assumes "layer_wf (i + 1 = n) l" "ly_cin l = prev"
  shows "reads (parse_layer i n prev) (layer_bytes l) l"
proof (cases "ly_kind l")
  case Conv
  let ?hb = "if ly_bias l = [] then 0 else 1 :: u32"
  have wf: "conv_shape (ly_k l) (ly_cin l) (ly_cout l)"
    "length (ly_w l) = unat (ly_cout l) * unat (ly_cin l) * unat (ly_k l) * unat (ly_k l)"
    "ly_bias l = [] \<or> length (ly_bias l) = unat (ly_cout l)"
    "if ly_act l = act_prelu then length (ly_alpha l) = unat (ly_cout l) else ly_alpha l = []"
    using assms(1) Conv by (simp_all add: layer_wf_def)
  have w: "reads (cur_floats (unat (ly_cout l) * unat (ly_cin l) * unat (ly_k l) * unat (ly_k l))) (floats_bytes (ly_w l)) (ly_w l)"
    using reads_floats [of "ly_w l"] wf(2) by simp
  have b: "reads (if ?hb \<noteq> 0 then cur_floats (unat (ly_cout l)) else preturn []) (floats_bytes (ly_bias l)) (ly_bias l)"
    using reads_floats [of "ly_bias l"] wf(3) by (auto simp: reads_preturn floats_bytes_def)
  have a: "reads (if ly_act l = act_prelu then cur_floats (unat (ly_cout l)) else preturn []) (floats_bytes (ly_alpha l)) (ly_alpha l)"
    using reads_floats [of "ly_alpha l"] wf(4) by (auto simp: reads_preturn floats_bytes_def split: if_splits)
  have l: "\<lparr>ly_kind = Conv, ly_k = ly_k l, ly_cin = ly_cin l, ly_cout = ly_cout l, ly_act = ly_act l,
      ly_w = ly_w l, ly_bias = ly_bias l, ly_alpha = ly_alpha l\<rparr> = l"
    using Conv by (cases l) simp
  have "reads (parse_layer i n prev) (le32 0 @ le32 (ly_k l) @ le32 (ly_cin l) @ le32 (ly_cout l) @ le32 (ly_act l) @
      le32 ?hb @ floats_bytes (ly_w l) @ floats_bytes (ly_bias l) @ floats_bytes (ly_alpha l) @ [])
      \<lparr>ly_kind = Conv, ly_k = ly_k l, ly_cin = ly_cin l, ly_cout = ly_cout l, ly_act = ly_act l,
       ly_w = ly_w l, ly_bias = ly_bias l, ly_alpha = ly_alpha l\<rparr>"
    unfolding parse_layer_def layer_body_def
    by (intro reads_pbind [OF reads_u32] reads_need [OF assms(2)])
      (simp only: if_True simp_thms refl, intro reads_need [OF wf(1)] reads_pbind [OF w] reads_pbind [OF b]
        reads_pbind [OF a] reads_preturn)
  then show ?thesis using Conv unfolding l by (simp add: layer_bytes_def)
next
  case Shuffle2
  have wf: "\<not> (i + 1 \<noteq> n \<or> ly_cin l \<noteq> 4 \<or> ly_cout l \<noteq> 1)" "\<not> (False \<or> ly_act l = act_prelu)"
    "ly_w l = []" "ly_bias l = []" "ly_alpha l = []"
    using assms(1) Shuffle2 by (simp_all add: layer_wf_def)
  have l: "\<lparr>ly_kind = Shuffle2, ly_k = ly_k l, ly_cin = ly_cin l, ly_cout = ly_cout l, ly_act = ly_act l,
      ly_w = [], ly_bias = [], ly_alpha = []\<rparr> = l"
    using Shuffle2 wf(3-5) by (cases l) simp
  have "reads (parse_layer i n prev) (le32 1 @ le32 (ly_k l) @ le32 (ly_cin l) @ le32 (ly_cout l) @ le32 (ly_act l) @
      le32 0 @ []) \<lparr>ly_kind = Shuffle2, ly_k = ly_k l, ly_cin = ly_cin l, ly_cout = ly_cout l, ly_act = ly_act l,
       ly_w = [], ly_bias = [], ly_alpha = []\<rparr>"
    unfolding parse_layer_def layer_body_def
    by (intro reads_pbind [OF reads_u32] reads_need [OF assms(2)])
      (simp only: if_False if_True zero_neq_one [symmetric] refl not_True_eq_False, intro reads_need [OF wf(1)] reads_need [OF wf(2)] reads_preturn)
  then show ?thesis using Shuffle2 wf(3-5) unfolding l by (simp add: layer_bytes_def floats_bytes_def)
qed

lemma reads_layers:
  "chain_wf prev ls \<Longrightarrow> n = i + length ls \<Longrightarrow>
   reads (parse_layers (length ls) i n prev) (concat (map layer_bytes ls)) ls"
proof (induction ls arbitrary: i prev)
  case Nil
  then show ?case by (simp add: reads_preturn)
next
  case (Cons l ls)
  have A: "reads (parse_layer i n prev) (layer_bytes l) l"
    using Cons.prems by (intro reads_layer) auto
  have B: "reads (parse_layers (length ls) (i + 1) n (ly_cout l)) (concat (map layer_bytes ls)) ls"
    using Cons.prems by (intro Cons.IH) auto
  have "reads (parse_layers (Suc (length ls)) i n prev) (layer_bytes l @ concat (map layer_bytes ls) @ []) (l # ls)"
    unfolding parse_layers.simps by (rule reads_pbind [OF A], rule reads_pbind [OF B], rule reads_preturn)
  then show ?case by simp
qed

lemma chain_last: "chain_wf p ls \<Longrightarrow> ls \<noteq> [] \<Longrightarrow> layer_wf True (last ls)"
  by (induction p ls rule: chain_wf.induct) (auto split: if_splits)

lemma reads_net:
  assumes "net_wf net"
  shows "reads (parse_net (nd_name net)) (blob_of net) net"
proof -
  let ?ls = "nd_layers net" and ?n = "of_nat (length (nd_layers net)) :: u32"
  have wf: "nd_scale net = 2" "0 < length ?ls" "length ?ls \<le> 64" "chain_wf 1 ?ls"
    using assms by (auto simp: net_wf_def)
  have un: "unat ?n = length ?ls" by (subst unat_of_nat) (use wf(3) in simp)
  have "?n \<noteq> 0" using un wf(2) by auto
  moreover have "\<not> ?n > 64" using un wf(3) by (simp add: word_less_nat_alt)
  ultimately have n: "\<not> (?n = 0 \<or> ?n > 64)" by blast
  have ls: "reads (parse_layers (unat ?n) 0 (unat ?n) 1) (concat (map layer_bytes ?ls)) ?ls"
    using reads_layers [OF wf(4), of "length ?ls" 0] by (simp add: un)
  have "layer_wf True (last ?ls)" using chain_last [OF wf(4)] wf(2) by simp
  then have last: "ly_kind (last ?ls) = Shuffle2" by (cases "ly_kind (last ?ls)") (auto simp: layer_wf_def)
  have net: "\<lparr>nd_name = nd_name net, nd_scale = nd_scale net, nd_layers = ?ls\<rparr> = net" by (cases net) simp
  have "reads (parse_net (nd_name net)) (le32 0x31575253 @ le32 1 @ le32 (nd_scale net) @ le32 ?n @
      concat (map layer_bytes ?ls) @ []) \<lparr>nd_name = nd_name net, nd_scale = nd_scale net, nd_layers = ?ls\<rparr>"
    unfolding parse_net_def
    by (intro reads_pbind [OF reads_u32] reads_pbind [OF ls] reads_need [OF refl] reads_need [OF wf(1)]
        reads_need [OF n] reads_need [OF last] reads_preturn)
  then show ?thesis unfolding net by (simp add: blob_of_def)
qed

section \<open>What a parsed net satisfies\<close>

lemma pbind_Inr: "pbind p f b = Inr z \<longleftrightarrow> (\<exists>v b'. p b = Inr (v, b') \<and> f v b' = Inr z)"
  by (auto simp: pbind_def split: sum.splits)

lemma pneed_Inr: "pneed c e b = Inr z \<longleftrightarrow> c \<and> z = ((), b)"
  by (auto simp: pneed_def)

lemma preturn_Inr: "preturn v b = Inr z \<longleftrightarrow> z = (v, b)"
  by (auto simp: preturn_def)

lemma floats_length: "cur_floats n b = Inr (xs, b') \<Longrightarrow> length xs = n"
  by (induction n arbitrary: b xs b') (auto simp: pbind_Inr preturn_Inr)

lemma layer_body_typed:
  assumes "layer_body i n kind k cin cout act hb b = Inr (l, b')"
  shows "ly_cin l = cin \<and> layer_wf (ly_kind l = Shuffle2) l \<and> (ly_kind l = Shuffle2 \<longrightarrow> i + 1 = n)"
proof (cases "kind = 0")
  case True
  then show ?thesis using assms unfolding layer_body_def
    by (auto simp: pbind_Inr pneed_Inr preturn_Inr layer_wf_def split: if_splits dest!: floats_length)
next
  case False
  then show ?thesis using assms unfolding layer_body_def
    by (cases "kind = 1") (auto simp: pbind_Inr pneed_Inr preturn_Inr layer_wf_def pfail_def)
qed

lemma parse_layer_typed:
  assumes "parse_layer i n prev b = Inr (l, b')"
  shows "ly_cin l = prev \<and> layer_wf (ly_kind l = Shuffle2) l \<and> (ly_kind l = Shuffle2 \<longrightarrow> i + 1 = n)"
  using assms unfolding parse_layer_def by (auto simp only: pbind_Inr pneed_Inr prod.inject dest!: layer_body_typed)

lemma parse_layers_typed:
  assumes "parse_layers m i n prev b = Inr (ls, b')" "n = i + m" "ls \<noteq> [] \<longrightarrow> ly_kind (last ls) = Shuffle2"
  shows "length ls = m \<and> chain_wf prev ls"
  using assms
proof (induction m arbitrary: i prev b ls)
  case 0
  then show ?case by (simp add: preturn_Inr)
next
  case (Suc m)
  obtain l b1 ls' where l: "parse_layer i n prev b = Inr (l, b1)"
    and ls': "parse_layers m (i + 1) n (ly_cout l) b1 = Inr (ls', b')" and ls: "ls = l # ls'"
    using Suc.prems(1) by (auto simp: pbind_Inr preturn_Inr)
  have IH: "length ls' = m \<and> chain_wf (ly_cout l) ls'"
    using Suc.IH [OF ls'] Suc.prems(2,3) ls by (auto split: if_splits)
  note t = parse_layer_typed [OF l]
  have "ly_kind l = Shuffle2 \<longleftrightarrow> ls' = []"
    using t IH Suc.prems(2,3) ls by auto
  then show ?case using t IH ls by simp
qed

lemma parsed_wf:
  assumes "parse_blob data name = Inr net"
  shows "net_wf net \<and> nd_name net = name"
proof -
  have "parse_net name data = Inr (net, [])"
    using assms by (auto simp: parse_blob_def ebind_def split: sum.splits if_splits)
  then obtain n :: u32 and b1 ls where n: "n \<noteq> 0" "\<not> n > 64"
    and ls: "parse_layers (unat n) 0 (unat n) 1 b1 = Inr (ls, [])" and last: "ly_kind (last ls) = Shuffle2"
    and net: "net = \<lparr>nd_name = name, nd_scale = 2, nd_layers = ls\<rparr>"
    unfolding parse_net_def by (auto simp only: pbind_Inr pneed_Inr preturn_Inr prod.inject de_Morgan_disj)
  have "length ls = unat n \<and> chain_wf 1 ls" using parse_layers_typed [OF ls] last by simp
  moreover have "0 < unat n" "unat n \<le> 64"
    using n by (simp_all add: unat_gt_0 word_less_nat_alt not_less)
  ultimately show ?thesis by (simp add: net net_wf_def)
qed

text \<open>The file of a well-formed net parses to it, and nothing shorter or longer does.\<close>

lemma blob_parses:
  assumes "net_wf net"
  shows "parse_blob (blob_of net) (nd_name net) = Inr net \<and>
    (\<forall>n<length (blob_of net). parse_blob (take n (blob_of net)) (nd_name net) = Inl Truncated) \<and>
    (\<forall>extra. extra \<noteq> [] \<longrightarrow> parse_blob (blob_of net @ extra) (nd_name net) = Inl Trailing_bytes)"
proof -
  have r: "parse_net (nd_name net) (blob_of net @ rest) = Inr (net, rest)"
    "n < length (blob_of net) \<Longrightarrow> parse_net (nd_name net) (take n (blob_of net)) = Inl Truncated" for rest n
    using reads_net [OF assms] by (simp_all add: reads_def)
  have "parse_net (nd_name net) (blob_of net) = Inr (net, [])" using r(1) [of "[]"] by simp
  then show ?thesis by (simp add: parse_blob_def ebind_def r)
qed

text \<open>C17 - What the parser checks, and no more: the nets it returns, over all byte strings, are exactly those of scale 2,
  with one to 64 layers from one luma channel, each layer's input channels the previous layer's output channels, every
  convolution odd, at most 9 by 9 and within 256 channels with exactly the weights, biases and slopes its shape asks for,
  and a pixel shuffle of four channels without slopes at the end and nowhere else.  The documented range of the
  activation word and of the shuffle's kernel size is not among the checks (lemma \<open>sr_undocumented_accepted\<close>).\<close>

theorem sr_parse_typed: "(\<exists>data. parse_blob data name = Inr net) \<longleftrightarrow> net_wf net \<and> nd_name net = name"
  using parsed_wf blob_parses by blast

text \<open>What the header documents in addition: the activations 0 to 3, and a kernel size of 0 for the shuffle.\<close>

definition words_documented :: "net_def \<Rightarrow> bool" where
  "words_documented n \<longleftrightarrow> (\<forall>l\<in>set (nd_layers n). ly_act l \<le> 3 \<and> (ly_kind l = Shuffle2 \<longrightarrow> ly_k l = 0))"

text \<open>C18 - The weight format is decoded exactly: the file of a well-formed net parses to that net, every
  truncation of it fails as truncated and every extension fails as having trailing bytes.\<close>

theorem sr_blob_exact:
  assumes "net_wf net"
  shows "parse_blob (blob_of net) (nd_name net) = Inr net \<and>
    (\<forall>n<length (blob_of net). parse_blob (take n (blob_of net)) (nd_name net) = Inl Truncated) \<and>
    (\<forall>extra. extra \<noteq> [] \<longrightarrow> parse_blob (blob_of net @ extra) (nd_name net) = Inl Trailing_bytes)"
  by (rule blob_parses [OF assms])

text \<open>A net with a single layer, the shuffle, cannot follow the one luma channel; the smallest net has a
  convolution to four channels first.\<close>

definition tiny_net :: net_def where
  "tiny_net = \<lparr>nd_name = ''espcn'', nd_scale = 2, nd_layers =
     [\<lparr>ly_kind = Conv, ly_k = 1, ly_cin = 1, ly_cout = 4, ly_act = 1, ly_w = [1, 2, 3, 4], ly_bias = [5, 6, 7, 8],
       ly_alpha = [9, 10, 11, 12]\<rparr>,
      \<lparr>ly_kind = Shuffle2, ly_k = 0, ly_cin = 4, ly_cout = 1, ly_act = 0, ly_w = [], ly_bias = [], ly_alpha = []\<rparr>]\<rparr>"

lemma tiny_net_wf: "net_wf tiny_net"
  by (simp add: net_wf_def tiny_net_def layer_wf_def conv_shape_def act_prelu_def)

theorem sr_blob_exact_witness:
  "parse_blob (blob_of tiny_net) ''espcn'' = Inr tiny_net \<and> parse_blob (take 99 (blob_of tiny_net)) ''espcn'' = Inl Truncated"
proof -
  have "nd_name tiny_net = ''espcn''" "99 < length (blob_of tiny_net)"
    by (simp_all add: tiny_net_def blob_of_def layer_bytes_def floats_bytes_def)
  then show ?thesis using sr_blob_exact [OF tiny_net_wf] by auto
qed

lemma sr_undocumented_accepted:
  "\<exists>data net. parse_blob data ''espcn'' = Inr net \<and> \<not> words_documented net"
proof -
  let ?l = "\<lparr>ly_kind = Conv, ly_k = 1, ly_cin = 1, ly_cout = 4, ly_act = 7, ly_w = [1, 2, 3, 4], ly_bias = [], ly_alpha = []\<rparr>"
  let ?n = "tiny_net\<lparr>nd_layers := ?l # tl (nd_layers tiny_net)\<rparr>"
  have "net_wf ?n" by (simp add: net_wf_def tiny_net_def layer_wf_def conv_shape_def act_prelu_def)
  moreover have "nd_name ?n = ''espcn''" by (simp add: tiny_net_def)
  ultimately have "parse_blob (blob_of ?n) ''espcn'' = Inr ?n" using blob_parses [of ?n] by simp
  moreover have "\<not> words_documented ?n" by (simp add: words_documented_def)
  ultimately show ?thesis by blast
qed

end
