(* ===== verification/Gpu_Stage.thy ===== *)
theory Gpu_Stage
  imports Codec_Ops C_Num Sr_Model
begin

text \<open>
  The GPU-to-GPU stages between unpack and pack: the queue sizing of \<open>engine/operators/pipeline_caps.hpp\<close>,
  the filter operators of \<open>engine/operators/filters/filters.cpp\<close> and the resize operator of
  \<open>engine/operators/resize/resize.cpp\<close>.  Frames live in a heap, a list indexed by their references, since
  stages pass pointers on and recycle pools of them.  The work of a stage is ordered behind its
  producer's by the frame's event, so a stage is modelled as executed where it is enqueued.  The
  kernels (device code, NPP, the super-resolution engine) are arguments: functions from the source's samples
  to the destination's.
\<close>

section \<open>Queue capacities\<close>

definition pipeline_emit_burst :: "environ \<Rightarrow> u32" where
  "pipeline_emit_burst env =
     (case env ''SPARK_FRC'' of None \<Rightarrow> 1 | Some m \<Rightarrow> if m = ''3'' then 4 else if m = ''2'' then 2 else 1)"

definition pipeline_queue_cap :: "environ \<Rightarrow> string \<Rightarrow> u32" where
  "pipeline_queue_cap env op_name =
     (case env ''SPARK_BURST_SINK'' of
        None \<Rightarrow> 1
      | Some sink \<Rightarrow> if sink \<noteq> '''' \<and> op_name = sink then pipeline_emit_burst env else 1)"

section \<open>The frame heap\<close>

type_synonym gpu_heap = "gpu_frame list"

text \<open>\<open>n\<close> fresh frames.\<close>

definition alloc_pool :: "nat \<Rightarrow> u32 \<Rightarrow> u32 \<Rightarrow> gpu_heap \<Rightarrow> nat list \<times> gpu_heap" where
  "alloc_pool n w h hp = ([length hp..<length hp + n], hp @ replicate n (gpu_frame_alloc w h))"

text \<open>The destination takes the planes a kernel writes and the source's times.\<close>

definition write_frame :: "nat \<Rightarrow> planar \<Rightarrow> u64 \<Rightarrow> u64 \<Rightarrow> gpu_heap \<Rightarrow> gpu_heap" where
  "write_frame dst p t_ingest capture hp =
     hp[dst := (hp ! dst)\<lparr>gf_planes := p, gf_t_ingest_ns := t_ingest, gf_capture_ts_ns := capture\<rparr>]"

section \<open>The filter stages\<close>

definition kPool :: nat where "kPool = 10"

record gpu_stage =
  gs_stream :: bool
  gs_pool :: "nat list"
  gs_idx :: nat
  gs_frames :: u64

definition stage_new :: gpu_stage where
  "stage_new = \<lparr>gs_stream = False, gs_pool = [], gs_idx = 0, gs_frames = 0\<rparr>"

definition stage_ensure :: "cuda_env \<Rightarrow> u32 \<Rightarrow> u32 \<Rightarrow> gpu_heap \<times> gpu_stage \<Rightarrow> string + gpu_heap \<times> gpu_stage" where
  "stage_ensure env w h st =
     (let (hp, s) = st
      in if gs_stream s \<and> gs_pool s \<noteq> [] \<and> gf_width (hp ! (gs_pool s ! 0)) = w \<and> gf_height (hp ! (gs_pool s ! 0)) = h
         then Inr (hp, s)
         else ebind (need (cu_frames_ok env) ''gpu_frame: cudaMalloc'') (\<lambda>_.
              let (pool, hp') = alloc_pool kPool w h hp in Inr (hp', s\<lparr>gs_stream := True, gs_pool := pool\<rparr>)))"

text \<open>The rest of \<open>compute\<close>, which the stages share: \<open>kern\<close> yields the planes of the slot from the source
  and the number of frames before it.\<close>

definition stage_run ::
  "(u64 \<Rightarrow> gpu_frame \<Rightarrow> planar) \<Rightarrow> nat \<Rightarrow> gpu_heap \<times> gpu_stage \<Rightarrow> nat \<times> gpu_heap \<times> gpu_stage" where
  "stage_run kern src st =
     (let (hp, s) = st; f = hp ! src; dst = gs_pool s ! gs_idx s
      in (dst, write_frame dst (kern (gs_frames s) f) (gf_t_ingest_ns f) (gf_capture_ts_ns f) hp,
          s\<lparr>gs_idx := (gs_idx s + 1) mod length (gs_pool s), gs_frames := gs_frames s + 1\<rparr>))"

definition stage_stop :: "gpu_stage \<Rightarrow> gpu_stage" where
  "stage_stop s = (if gs_stream s then s\<lparr>gs_stream := False\<rparr> else s)"

subsection \<open>Kernels and parameters\<close>

record filter_kernels =
  fk_procamp_y :: "fp \<Rightarrow> fp \<Rightarrow> u16 list \<Rightarrow> u16 list"
  fk_procamp_c :: "fp \<Rightarrow> fp \<Rightarrow> u16 list \<times> u16 list \<Rightarrow> u16 list \<times> u16 list"
  fk_unsharp_y :: "u32 \<Rightarrow> u32 \<Rightarrow> fp \<Rightarrow> u16 list \<Rightarrow> u16 list"
  fk_nr_y :: "u32 \<Rightarrow> u32 \<Rightarrow> fp \<Rightarrow> u16 list \<Rightarrow> u16 list"
  fk_nr_c :: "u32 \<Rightarrow> u32 \<Rightarrow> fp \<Rightarrow> u16 list \<times> u16 list \<Rightarrow> u16 list \<times> u16 list"
  fk_grain_y :: "u32 \<Rightarrow> u32 \<Rightarrow> fp \<Rightarrow> fp \<Rightarrow> u32 \<Rightarrow> u16 list \<Rightarrow> u16 list"
  fk_grain_c :: "u32 \<Rightarrow> u32 \<Rightarrow> fp \<Rightarrow> fp \<Rightarrow> u32 \<Rightarrow> u16 list \<Rightarrow> u16 list \<times> u16 list \<Rightarrow> u16 list \<times> u16 list"

record procamp_params =
  pa_brightness :: fp
  pa_contrast :: fp
  pa_saturation :: fp
  pa_hue_deg :: fp

record nr_params =
  np_luma :: fp
  np_chroma :: fp

record grain_params =
  gp_amount :: fp
  gp_size :: fp
  gp_mode :: string

definition with_chroma :: "u16 list \<Rightarrow> u16 list \<times> u16 list \<Rightarrow> planar" where
  "with_chroma y c = \<lparr>pl_y = y, pl_cb = fst c, pl_cr = snd c\<rparr>"

definition chroma :: "gpu_frame \<Rightarrow> u16 list \<times> u16 list" where
  "chroma f = (pl_cb (gf_planes f), pl_cr (gf_planes f))"

subsection \<open>ProcAmpOp\<close>

definition procamp_ensure :: "cuda_env \<Rightarrow> u32 \<Rightarrow> u32 \<Rightarrow> gpu_heap \<times> gpu_stage \<Rightarrow> string + gpu_heap \<times> gpu_stage" where
  "procamp_ensure = stage_ensure"

definition procamp_kernel :: "filter_kernels \<Rightarrow> procamp_params \<Rightarrow> u64 \<Rightarrow> gpu_frame \<Rightarrow> planar" where
  "procamp_kernel k p n f =
     with_chroma (fk_procamp_y k (to_float (pa_contrast p)) (to_float (pa_brightness p)) (pl_y (gf_planes f)))
       (fk_procamp_c k (to_float (pa_saturation p)) (to_float (pa_hue_deg p)) (chroma f))"

definition procamp_compute ::
  "filter_kernels \<Rightarrow> procamp_params \<Rightarrow> cuda_env \<Rightarrow> nat \<Rightarrow> gpu_heap \<times> gpu_stage \<Rightarrow> string + nat \<times> gpu_heap \<times> gpu_stage" where
  "procamp_compute k p env src st =
     ebind (procamp_ensure env (gf_width (fst st ! src)) (gf_height (fst st ! src)) st)
       (\<lambda>st. Inr (stage_run (procamp_kernel k p) src st))"

definition procamp_stop :: "gpu_stage \<Rightarrow> gpu_stage" where "procamp_stop = stage_stop"

subsection \<open>SharpenOp\<close>

definition sharpen_ensure :: "cuda_env \<Rightarrow> u32 \<Rightarrow> u32 \<Rightarrow> gpu_heap \<times> gpu_stage \<Rightarrow> string + gpu_heap \<times> gpu_stage" where
  "sharpen_ensure = stage_ensure"

definition sharpen_kernel :: "filter_kernels \<Rightarrow> fp \<Rightarrow> u64 \<Rightarrow> gpu_frame \<Rightarrow> planar" where
  "sharpen_kernel k amount n f =
     with_chroma (fk_unsharp_y k (gf_width f) (gf_height f) (to_float amount) (pl_y (gf_planes f))) (chroma f)"

definition sharpen_compute ::
  "filter_kernels \<Rightarrow> fp \<Rightarrow> cuda_env \<Rightarrow> nat \<Rightarrow> gpu_heap \<times> gpu_stage \<Rightarrow> string + nat \<times> gpu_heap \<times> gpu_stage" where
  "sharpen_compute k amount env src st =
     ebind (sharpen_ensure env (gf_width (fst st ! src)) (gf_height (fst st ! src)) st)
       (\<lambda>st. Inr (stage_run (sharpen_kernel k amount) src st))"

definition sharpen_stop :: "gpu_stage \<Rightarrow> gpu_stage" where "sharpen_stop = stage_stop"

subsection \<open>NrOp\<close>

definition nr_ensure :: "cuda_env \<Rightarrow> u32 \<Rightarrow> u32 \<Rightarrow> gpu_heap \<times> gpu_stage \<Rightarrow> string + gpu_heap \<times> gpu_stage" where
  "nr_ensure = stage_ensure"

definition nr_kernel :: "filter_kernels \<Rightarrow> nr_params \<Rightarrow> u64 \<Rightarrow> gpu_frame \<Rightarrow> planar" where
  "nr_kernel k p n f =
     (let luma = to_float (np_luma p); strength = to_float (np_chroma p)
      in with_chroma
           (if fp_lt (Fin 0) luma then fk_nr_y k (gf_width f) (gf_height f) luma (pl_y (gf_planes f))
            else pl_y (gf_planes f))
           (if fp_lt (Fin 0) strength then fk_nr_c k (gf_width f) (gf_height f) strength (chroma f) else chroma f))"

definition nr_compute ::
  "filter_kernels \<Rightarrow> nr_params \<Rightarrow> cuda_env \<Rightarrow> nat \<Rightarrow> gpu_heap \<times> gpu_stage \<Rightarrow> string + nat \<times> gpu_heap \<times> gpu_stage" where
  "nr_compute k p env src st =
     ebind (nr_ensure env (gf_width (fst st ! src)) (gf_height (fst st ! src)) st)
       (\<lambda>st. Inr (stage_run (nr_kernel k p) src st))"

definition nr_stop :: "gpu_stage \<Rightarrow> gpu_stage" where "nr_stop = stage_stop"

subsection \<open>GrainOp\<close>

definition grain_ensure :: "cuda_env \<Rightarrow> u32 \<Rightarrow> u32 \<Rightarrow> gpu_heap \<times> gpu_stage \<Rightarrow> string + gpu_heap \<times> gpu_stage" where
  "grain_ensure = stage_ensure"

definition grain_kernel :: "filter_kernels \<Rightarrow> grain_params \<Rightarrow> u64 \<Rightarrow> gpu_frame \<Rightarrow> planar" where
  "grain_kernel k p n f =
     (let amount = to_float (gp_amount p); cell = to_float (gp_size p); seed = ucast n :: u32; y = pl_y (gf_planes f)
      in with_chroma (fk_grain_y k (gf_width f) (gf_height f) amount cell seed y)
           (if gp_mode p = ''color'' then fk_grain_c k (gf_width f) (gf_height f) amount cell seed y (chroma f)
            else chroma f))"

definition grain_compute ::
  "filter_kernels \<Rightarrow> grain_params \<Rightarrow> cuda_env \<Rightarrow> nat \<Rightarrow> gpu_heap \<times> gpu_stage \<Rightarrow> string + nat \<times> gpu_heap \<times> gpu_stage" where
  "grain_compute k p env src st =
     ebind (grain_ensure env (gf_width (fst st ! src)) (gf_height (fst st ! src)) st)
       (\<lambda>st. Inr (stage_run (grain_kernel k p) src st))"

definition grain_stop :: "gpu_stage \<Rightarrow> gpu_stage" where "grain_stop = stage_stop"

section \<open>The resize stage\<close>

datatype npp_interp = Npp_linear | Npp_cubic | Npp_super | Npp_lanczos

datatype interp_choice = Auto_interp | Npp npp_interp

definition interp_code :: "string \<Rightarrow> interp_choice" where
  "interp_code s =
     (if s = ''auto'' then Auto_interp
      else if s = ''cubic'' then Npp Npp_cubic
      else if s = ''lanczos'' then Npp Npp_lanczos
      else if s = ''super'' then Npp Npp_super
      else Npp Npp_linear)"

record resize_params =
  rp_out_width :: u32
  rp_out_height :: u32
  rp_interp :: string
  rp_measure :: bool

text \<open>The engine of a net for one input geometry.\<close>

type_synonym sr_engine = "net_def \<times> u32 \<times> u32"

record resize_op =
  ro_params :: resize_params
  ro_interp_code :: interp_choice
  ro_sr_model :: string
  ro_sr_engine :: "sr_engine option"
  ro_fallback_logged :: bool
  ro_stream :: bool
  ro_pool :: "nat list"
  ro_idx :: nat
  ro_frames :: u64
  ro_ms_sum :: rat
  ro_ms_min :: rat
  ro_ms_max :: rat
  ro_identity_logged :: bool

definition resize_new :: "resize_params \<Rightarrow> resize_op" where
  "resize_new p = \<lparr>ro_params = p, ro_interp_code = Npp Npp_linear, ro_sr_model = '''', ro_sr_engine = None,
     ro_fallback_logged = False, ro_stream = False, ro_pool = [], ro_idx = 0, ro_frames = 0,
     ro_ms_sum = 0, ro_ms_min = 10 ^ 30, ro_ms_max = 0, ro_identity_logged = False\<rparr>"

text \<open>What the stage calls: the plane resampler and the run of the engine, with whether they succeed and what they
  leave in the destination plane; the constructor of the engine, which may throw; the files, the embedded
  weights, and the measured time.\<close>

record resize_env =
  re_cuda :: cuda_env
  re_npp :: "npp_interp \<Rightarrow> u32 \<times> u32 \<Rightarrow> u32 \<times> u32 \<Rightarrow> u16 list \<Rightarrow> bool \<times> u16 list"
  re_engine_ok :: "net_def \<Rightarrow> u32 \<Rightarrow> u32 \<Rightarrow> bool"
  re_sr_run :: "sr_engine \<Rightarrow> u16 list \<Rightarrow> bool \<times> u16 list"
  re_environ :: environ
  re_files :: "string \<Rightarrow> bytes option"
  re_embedded :: "(string \<times> bytes) list"
  re_elapsed_ms :: rat

definition resize_start :: "resize_env \<Rightarrow> gpu_heap \<times> resize_op \<Rightarrow> string + gpu_heap \<times> resize_op" where
  "resize_start env st =
     (let (hp, s) = st; p = ro_params s;
          interp = (if rp_interp p = ''ai'' then ''fsrcnn'' else rp_interp p);
          s1 = (if is_sr_interp interp then s\<lparr>ro_sr_model := interp, ro_interp_code := Npp Npp_cubic\<rparr>
                else s\<lparr>ro_interp_code := interp_code interp\<rparr>)
      in ebind (need (cu_frames_ok (re_cuda env)) ''gpu_frame: cudaMalloc'') (\<lambda>_.
         let (pool, hp') = alloc_pool 10 (rp_out_width p) (rp_out_height p) hp
         in Inr (hp', s1\<lparr>ro_stream := True, ro_pool := pool\<rparr>)))"

text \<open>A failure drops the stage to the cubic path for good.\<close>

definition rebuild_sr :: "resize_env \<Rightarrow> u32 \<Rightarrow> u32 \<Rightarrow> resize_op \<Rightarrow> resize_op" where
  "rebuild_sr env in_width in_height s =
     (let loaded = (case re_environ env ''SPARK_SR_WEIGHTS'' of
            Some file \<Rightarrow> if file \<noteq> '''' then load_file (re_files env file) (ro_sr_model s)
                         else load_embedded (re_embedded env) (ro_sr_model s)
          | None \<Rightarrow> load_embedded (re_embedded env) (ro_sr_model s))
      in case loaded of
           Inr net \<Rightarrow>
             if re_engine_ok env net in_width in_height
             then s\<lparr>ro_sr_engine := Some (net, in_width, in_height)\<rparr>
             else s\<lparr>ro_sr_engine := None, ro_sr_model := ''''\<rparr>
         | Inl _ \<Rightarrow> s\<lparr>ro_sr_engine := None, ro_sr_model := ''''\<rparr>)"

definition ensure_sr :: "resize_env \<Rightarrow> u32 \<Rightarrow> u32 \<Rightarrow> resize_op \<Rightarrow> resize_op" where
  "ensure_sr env in_width in_height s =
     (case ro_sr_engine s of
        Some (net, w, h) \<Rightarrow> if w = in_width \<and> h = in_height then s else rebuild_sr env in_width in_height s
      | None \<Rightarrow> rebuild_sr env in_width in_height s)"

text \<open>The kernel for a direction: supersampling only where both dimensions shrink.\<close>

definition resolve_interp :: "interp_choice \<Rightarrow> u32 \<Rightarrow> u32 \<Rightarrow> u32 \<Rightarrow> u32 \<Rightarrow> npp_interp" where
  "resolve_interp code sw sh dw dh =
     (let down = (dw < sw \<and> dh < sh)
      in case code of
           Auto_interp \<Rightarrow> if down then Npp_super else Npp_cubic
         | Npp i \<Rightarrow> if i = Npp_super \<and> \<not> down then Npp_cubic else i)"

text \<open>A throw comes with what is left in the plane.\<close>

definition resize_plane ::
  "resize_env \<Rightarrow> u16 list \<Rightarrow> u32 \<Rightarrow> u32 \<Rightarrow> u32 \<Rightarrow> u32 \<Rightarrow> npp_interp \<Rightarrow> string \<times> u16 list + u16 list" where
  "resize_plane env src sw sh dw dh interp =
     (let (ok, out) = re_npp env interp (sw, sh) (dw, dh) src
      in if ok then Inr out else Inl (''nppiResize_16u_C1R_Ctx failed'', out))"

definition sr_run :: "resize_env \<Rightarrow> sr_engine \<Rightarrow> u16 list \<Rightarrow> string \<times> u16 list + u16 list" where
  "sr_run env e y = (let (ok, out) = re_sr_run env e y in if ok then Inr out else Inl (''sr_net: CUDA'', out))"

definition measure_ms :: "rat \<Rightarrow> resize_op \<Rightarrow> resize_op" where
  "measure_ms ms s = s\<lparr>ro_ms_sum := dbl (ro_ms_sum s + ms),
     ro_ms_min := (if ms < ro_ms_min s then ms else ro_ms_min s),
     ro_ms_max := (if ms > ro_ms_max s then ms else ro_ms_max s)\<rparr>"

text \<open>The planes of a slot, its times left as they are.\<close>

definition write_planes :: "nat \<Rightarrow> planar \<Rightarrow> gpu_heap \<Rightarrow> gpu_heap" where
  "write_planes dst p hp = hp[dst := (hp ! dst)\<lparr>gf_planes := p\<rparr>]"

text \<open>A throw leaves the state it happens in: the slot is taken and the planes written so far are in it.\<close>

definition resize_compute ::
  "resize_env \<Rightarrow> nat \<Rightarrow> gpu_heap \<times> resize_op \<Rightarrow> (string \<times> gpu_heap \<times> resize_op) + nat \<times> gpu_heap \<times> resize_op" where
  "resize_compute env src st =
     (let (hp, s) = st; f = hp ! src; p = ro_params s
      in if gf_width f = rp_out_width p \<and> gf_height f = rp_out_height p \<and> \<not> rp_measure p
         then Inr (src, hp, s\<lparr>ro_identity_logged := True, ro_frames := ro_frames s + 1\<rparr>)
         else
           let slot = ro_pool s ! ro_idx s; d = hp ! slot;
               s1 = s\<lparr>ro_idx := (ro_idx s + 1) mod length (ro_pool s)\<rparr>;
               interp = resolve_interp (ro_interp_code s1) (gf_width f) (gf_height f) (gf_width d) (gf_height d);
               sr_active = (ro_sr_model s1 \<noteq> '''' \<and> gf_width d = gf_width f * 2 \<and> gf_height d = gf_height f * 2);
               s2 = (if ro_sr_model s1 \<noteq> '''' \<and> \<not> sr_active then s1\<lparr>ro_fallback_logged := True\<rparr> else s1);
               s3 = (if sr_active then ensure_sr env (gf_width f) (gf_height f) s2 else s2);
               pf = gf_planes f; sw = gf_width f div 2; dw = gf_width d div 2
           in
           case (case (sr_active, ro_sr_engine s3) of
               (True, Some e) \<Rightarrow> sr_run env e (pl_y pf)
             | _ \<Rightarrow> resize_plane env (pl_y pf) (gf_width f) (gf_height f) (gf_width d) (gf_height d) interp) of
             Inl e \<Rightarrow> Inl (fst e, write_planes slot ((gf_planes d)\<lparr>pl_y := snd e\<rparr>) hp, s3)
           | Inr y \<Rightarrow>
          (case resize_plane env (pl_cb pf) sw (gf_height f) dw (gf_height d) interp of
             Inl e \<Rightarrow> Inl (fst e, write_planes slot ((gf_planes d)\<lparr>pl_y := y, pl_cb := snd e\<rparr>) hp, s3)
           | Inr cb \<Rightarrow>
          (case resize_plane env (pl_cr pf) sw (gf_height f) dw (gf_height d) interp of
             Inl e \<Rightarrow> Inl (fst e, write_planes slot \<lparr>pl_y = y, pl_cb = cb, pl_cr = snd e\<rparr> hp, s3)
           | Inr cr \<Rightarrow>
               let s4 = (if rp_measure p then measure_ms (re_elapsed_ms env) s3 else s3)
               in Inr (slot, write_frame slot \<lparr>pl_y = y, pl_cb = cb, pl_cr = cr\<rparr> (gf_t_ingest_ns f) (gf_capture_ts_ns f) hp,
                       s4\<lparr>ro_frames := ro_frames s4 + 1\<rparr>))))"

definition resize_stop :: "resize_op \<Rightarrow> resize_op" where
  "resize_stop s = s\<lparr>ro_stream := False, ro_sr_engine := None\<rparr>"

end
