(* ===== verification/Stage_Props.thy ===== *)
theory Stage_Props
  imports Gpu_Stage
begin

text \<open>
  What the pipeline relies on from a GPU-to-GPU stage, as a locale: a stage hands on one frame per frame,
  with its source's times, writes nothing but the slot it hands on, and takes the slots of its pool in
  turn.  The locale's theorem is that a frame handed on stays as it is while the stage goes on, up to
  one frame less than the pool; the filter stages and the resize stage satisfy the contract.
\<close>

section \<open>The contract\<close>

definition frame_times :: "gpu_frame \<Rightarrow> u64 \<times> u64" where
  "frame_times f = (gf_t_ingest_ns f, gf_capture_ts_ns f)"

definition writes_only :: "gpu_heap \<Rightarrow> gpu_heap \<Rightarrow> nat \<Rightarrow> bool" where
  "writes_only hp hp' slot \<longleftrightarrow> length hp \<le> length hp' \<and> (\<forall>r<length hp. r \<noteq> slot \<longrightarrow> hp' ! r = hp ! r)"

text \<open>A frame after a later stage has set its capture time, all that a stage writes of a frame it was
  handed: the frame-rate conversion stamps the frames it passes through onto its grid.\<close>

definition restamped :: "gpu_frame \<Rightarrow> gpu_frame \<Rightarrow> bool" where
  "restamped f f' \<longleftrightarrow> f' = f\<lparr>gf_capture_ts_ns := gf_capture_ts_ns f'\<rparr>"

lemma restamped_refl [simp]: "restamped f f"
  by (simp add: restamped_def)

lemma restamped_trans: "restamped f g \<Longrightarrow> restamped g h \<Longrightarrow> restamped f h"
  unfolding restamped_def by (cases f, cases g, cases h) simp

lemma restamped_keeps:
  "restamped f f' \<Longrightarrow> gf_planes f' = gf_planes f \<and> gf_width f' = gf_width f \<and> gf_height f' = gf_height f \<and>
     gf_t_ingest_ns f' = gf_t_ingest_ns f"
  unfolding restamped_def by (cases f, cases f') simp

text \<open>The pool and the position in it, before and after a step that hands on \<open>out\<close>.\<close>

inductive advance :: "gpu_heap \<Rightarrow> nat \<Rightarrow> nat list \<Rightarrow> nat \<Rightarrow> nat \<Rightarrow> gpu_heap \<Rightarrow> nat list \<Rightarrow> nat \<Rightarrow> bool" where
  pass: "advance hp src pool c src hp pool c"
| turn: "writes_only hp hp' (pool ! c) \<Longrightarrow> c < length pool \<Longrightarrow>
    advance hp src pool c (pool ! c) hp' pool ((c + 1) mod length pool)"
| renew: "writes_only hp hp' (pool' ! c) \<Longrightarrow> \<forall>r\<in>set pool'. length hp \<le> r \<Longrightarrow> c < length pool' \<Longrightarrow>
    advance hp src pool c (pool' ! c) hp' pool' ((c + 1) mod length pool')"

definition pool_ok :: "gpu_heap \<Rightarrow> nat list \<Rightarrow> bool" where
  "pool_ok hp pool \<longleftrightarrow> distinct pool \<and> set pool \<subseteq> {..<length hp}"

lemma turn_add: "1 \<le> j \<Longrightarrow> ((c + 1) mod n + (j - 1)) mod n = (c + j) mod (n :: nat)"
proof -
  assume j: "1 \<le> j"
  have "((c + 1) mod n + (j - 1)) mod n = (c + 1 + (j - 1)) mod n" by (rule mod_add_left_eq)
  also have "c + 1 + (j - 1) = c + j" using j by simp
  finally show ?thesis .
qed

locale gpu_stage_contract =
  fixes step :: "nat \<Rightarrow> gpu_heap \<times> 's \<Rightarrow> 'e + nat \<times> gpu_heap \<times> 's"
    and pool :: "'s \<Rightarrow> nat list" and cursor :: "'s \<Rightarrow> nat" and inv :: "gpu_heap \<Rightarrow> 's \<Rightarrow> bool"
  assumes inv_pool: "inv hp s \<Longrightarrow> pool_ok hp (pool s)"
    and inv_env: "inv hp s \<Longrightarrow> length hp \<le> length hp' \<Longrightarrow> \<forall>r\<in>set (pool s). restamped (hp ! r) (hp' ! r) \<Longrightarrow> inv hp' s"
    and step_ok: "step src (hp, s) = Inr (out, hp', s') \<Longrightarrow> inv hp s \<Longrightarrow> src < length hp \<Longrightarrow> src \<notin> set (pool s) \<Longrightarrow>
      inv hp' s' \<and> advance hp src (pool s) (cursor s) out hp' (pool s') (cursor s') \<and>
      out < length hp' \<and> frame_times (hp' ! out) = frame_times (hp ! src)"
begin

text \<open>The frame \<open>x\<close> is not the stage's to write in its next \<open>k\<close> steps.\<close>

definition spared :: "nat \<Rightarrow> nat \<Rightarrow> 's \<Rightarrow> bool" where
  "spared x k s \<longleftrightarrow> x \<notin> set (pool s) \<or>
     (\<exists>j. k \<le> j \<and> j < length (pool s) \<and> x = pool s ! ((cursor s + j) mod length (pool s)))"

lemma spared_step:
  assumes "step src (hp, s) = Inr (out, hp', s')" "inv hp s" "src < length hp" "src \<notin> set (pool s)"
    and "x < length hp" "spared x (Suc k) s"
  shows "hp' ! x = hp ! x \<and> spared x k s'"
  using step_ok [OF assms(1-4)]
proof (elim conjE)
  assume adv: "advance hp src (pool s) (cursor s) out hp' (pool s') (cursor s')"
  then show ?thesis
  proof cases
    case pass
    then show ?thesis using assms(6) unfolding spared_def by (metis Suc_leD)
  next
    case turn
    let ?n = "length (pool s)"
    show ?thesis
    proof (cases "x \<in> set (pool s)")
      case False
      then show ?thesis using turn assms(5) by (auto simp: spared_def writes_only_def)
    next
      case True
      then obtain j where j: "Suc k \<le> j" "j < ?n" "x = pool s ! ((cursor s + j) mod ?n)"
        using assms(6) by (auto simp: spared_def)
      have "(cursor s + j) mod ?n \<noteq> cursor s"
      proof
        assume "(cursor s + j) mod ?n = cursor s"
        then have "(cursor s + j) mod ?n = (cursor s + 0) mod ?n" using turn(5) by simp
        then have "?n dvd j" by (simp only: mod_eq_dvd_iff_nat [OF add_left_mono [OF le0]]) simp
        then show False using j(1,2) by (simp add: nat_dvd_not_less)
      qed
      moreover have "(cursor s + j) mod ?n < ?n" using turn(5) by (intro mod_less_divisor) auto
      ultimately have ne: "x \<noteq> pool s ! cursor s"
        using inv_pool [OF assms(2)] j(3) turn(5) by (simp add: pool_ok_def nth_eq_iff_index_eq)
      have "(cursor s + j) mod ?n = (cursor s' + (j - 1)) mod ?n"
        using turn_add [of j "cursor s" ?n] j(1) turn(3) by simp
      then have "spared x k s'" using j turn(2) unfolding spared_def
        by (intro disjI2 exI [of _ "j - 1"]) auto
      then show ?thesis using ne turn(4) assms(5) by (simp add: writes_only_def)
    qed
  next
    case renew
    then have "x \<notin> set (pool s')" using assms(5) by (auto simp: not_le [symmetric])
    moreover have "x \<noteq> pool s' ! cursor s" using renew(3,4,5) assms(5) nth_mem by fastforce
    ultimately show ?thesis using renew(2-3) assms(5) by (auto simp: spared_def writes_only_def)
  qed
qed

lemma handed_on_spared:
  assumes "step src (hp, s) = Inr (out, hp', s')" "inv hp s" "src < length hp" "src \<notin> set (pool s)"
  shows "spared out (length (pool s') - 1) s'"
  using step_ok [OF assms]
proof (elim conjE)
  have wrap: "pl ! c = pl ! (((c + 1) mod length pl + (length pl - 1)) mod length pl) \<and> length pl - 1 < length pl" if "c < length pl" for c and pl :: "nat list"
    using turn_add [of "length pl" c "length pl"] that by auto
  assume a: "advance hp src (pool s) (cursor s) out hp' (pool s') (cursor s')"
  from a show ?thesis
  proof cases
    case pass
    then show ?thesis using assms(4) by (simp add: spared_def)
  next
    case turn
    then show ?thesis using wrap [of "cursor s" "pool s"] unfolding spared_def
      by (intro disjI2 exI [of _ "length (pool s) - 1"]) auto
  next
    case renew
    then show ?thesis using wrap [of "cursor s" "pool s'"] unfolding spared_def
      by (intro disjI2 exI [of _ "length (pool s') - 1"]) auto
  qed
qed

end

text \<open>A stretch of work: \<open>n\<close> steps of the stage, with whatever the other stages do to the heap in
  between.  They own other pools, so all they write of frame \<open>x\<close> and of the stage's pool is a capture time.\<close>

inductive stage_trace ::
  "(nat \<Rightarrow> gpu_heap \<times> 's \<Rightarrow> 'e + nat \<times> gpu_heap \<times> 's) \<Rightarrow> ('s \<Rightarrow> nat list) \<Rightarrow> nat \<Rightarrow> gpu_heap \<times> 's \<Rightarrow> nat \<Rightarrow> gpu_heap \<times> 's \<Rightarrow> bool"
  for step pool x st where
  trace_refl: "stage_trace step pool x st 0 st"
| trace_own: "stage_trace step pool x st n (hp, s) \<Longrightarrow> step src (hp, s) = Inr (out, hp', s') \<Longrightarrow>
    src < length hp \<Longrightarrow> src \<notin> set (pool s) \<Longrightarrow> stage_trace step pool x st (Suc n) (hp', s')"
| trace_env: "stage_trace step pool x st n (hp, s) \<Longrightarrow> length hp \<le> length hp' \<Longrightarrow>
    \<forall>r\<in>insert x (set (pool s)). restamped (hp ! r) (hp' ! r) \<Longrightarrow> stage_trace step pool x st n (hp', s)"

text \<open>A step of another stage that writes one slot of its own pool is such a step of the others.\<close>

lemma writes_only_env:
  assumes "stage_trace step pool x st n (hp, s)" "writes_only hp hp' slot" "x < length hp" "set (pool s) \<subseteq> {..<length hp}"
    and "slot \<notin> insert x (set (pool s))"
  shows "stage_trace step pool x st n (hp', s)"
proof (rule trace_env [OF assms(1)])
  show "length hp \<le> length hp'" using assms(2) by (simp add: writes_only_def)
  have "hp' ! r = hp ! r" if "r \<in> insert x (set (pool s))" for r
    using that assms(2-5) by (auto simp: writes_only_def)
  then show "\<forall>r\<in>insert x (set (pool s)). restamped (hp ! r) (hp' ! r)" by simp
qed

context gpu_stage_contract
begin

lemma trace_spared:
  assumes "stage_trace step pool x st n st'" "st = (hp, s)" "inv hp s" "x < length hp" "spared x m s" "n \<le> m"
  shows "restamped (hp ! x) (fst st' ! x) \<and> inv (fst st') (snd st') \<and> x < length (fst st') \<and> spared x (m - n) (snd st')"
  using assms
proof (induction)
  case trace_refl
  then show ?case by simp
next
  case (trace_own n hp1 s1 src out hp2 s2)
  then have ih: "restamped (hp ! x) (hp1 ! x)" "inv hp1 s1" "x < length hp1" "spared x (Suc (m - Suc n)) s1"
    by (auto simp: Suc_diff_Suc)
  note ok = step_ok [OF trace_own.hyps(2) ih(2) trace_own.hyps(3,4)]
  have "length hp1 \<le> length hp2" using ok by (elim conjE) (erule advance.cases; simp add: writes_only_def)
  then show ?case
    using spared_step [OF trace_own.hyps(2) ih(2) trace_own.hyps(3,4) ih(3,4)] ih ok by simp
next
  case (trace_env n hp1 s1 hp2)
  then have "restamped (hp ! x) (hp1 ! x)" "restamped (hp1 ! x) (hp2 ! x)" by simp_all
  then have "restamped (hp ! x) (hp2 ! x)" by (rule restamped_trans)
  then show ?case using inv_env [of hp1 s1 hp2] trace_env by auto
qed

text \<open>A frame handed on keeps its samples, its geometry and its ingest time while the stage makes up to one
  step less than its pool has slots; its capture time changes only where another stage sets it.\<close>

lemma handed_on_stable:
  assumes "step src (hp, s) = Inr (out, hp1, s1)" "inv hp s" "src < length hp" "src \<notin> set (pool s)"
    and "stage_trace step pool out (hp1, s1) n (hp2, s2)" "n < length (pool s1)"
  shows "restamped (hp1 ! out) (hp2 ! out)"
  using trace_spared [OF assms(5) refl _ _ handed_on_spared [OF assms(1-4)]] step_ok [OF assms(1-4)] assms(6) by simp

end

section \<open>The filter stages\<close>

text \<open>The stages of the chain by their operator.\<close>

datatype gpu_filter = Procamp procamp_params | Sharpen fp | Nr nr_params | Grain grain_params

definition filter_compute ::
  "filter_kernels \<Rightarrow> gpu_filter \<Rightarrow> cuda_env \<Rightarrow> nat \<Rightarrow> gpu_heap \<times> gpu_stage \<Rightarrow> string + nat \<times> gpu_heap \<times> gpu_stage" where
  "filter_compute k f = (case f of Procamp p \<Rightarrow> procamp_compute k p | Sharpen a \<Rightarrow> sharpen_compute k a
     | Nr p \<Rightarrow> nr_compute k p | Grain p \<Rightarrow> grain_compute k p)"

definition filter_kernel :: "filter_kernels \<Rightarrow> gpu_filter \<Rightarrow> u64 \<Rightarrow> gpu_frame \<Rightarrow> planar" where
  "filter_kernel k f = (case f of Procamp p \<Rightarrow> procamp_kernel k p | Sharpen a \<Rightarrow> sharpen_kernel k a
     | Nr p \<Rightarrow> nr_kernel k p | Grain p \<Rightarrow> grain_kernel k p)"

lemma filter_compute_eq:
  "filter_compute k f env src st =
     ebind (stage_ensure env (gf_width (fst st ! src)) (gf_height (fst st ! src)) st)
       (\<lambda>st. Inr (stage_run (filter_kernel k f) src st))"
  by (cases f) (simp_all add: filter_compute_def filter_kernel_def procamp_compute_def sharpen_compute_def nr_compute_def
      grain_compute_def procamp_ensure_def sharpen_ensure_def nr_ensure_def grain_ensure_def)

definition frame_dims :: "gpu_frame \<Rightarrow> u32 \<times> u32" where
  "frame_dims f = (gf_width f, gf_height f)"

definition filter_inv :: "gpu_heap \<Rightarrow> gpu_stage \<Rightarrow> bool" where
  "filter_inv hp s \<longleftrightarrow> pool_ok hp (gs_pool s) \<and> (gs_pool s = [] \<or> length (gs_pool s) = kPool) \<and> gs_idx s < kPool \<and>
     (\<forall>r\<in>set (gs_pool s). frame_dims (hp ! r) = frame_dims (hp ! (gs_pool s ! 0)))"


definition dims_all :: "gpu_heap \<Rightarrow> nat list \<Rightarrow> u32 \<Rightarrow> u32 \<Rightarrow> bool" where
  "dims_all hp pool w h \<longleftrightarrow> (\<forall>r\<in>set pool. frame_dims (hp ! r) = (w, h))"

lemma alloc_pool_props:
  assumes "alloc_pool n w h hp = (pool, hp')"
  shows "length pool = n" "distinct pool" "set pool = {length hp..<length hp + n}" "length hp' = length hp + n"
    "\<forall>r<length hp. hp' ! r = hp ! r" "dims_all hp' pool w h"
  using assms by (auto simp: alloc_pool_def dims_all_def frame_dims_def gpu_frame_alloc_def Let_def nth_append)

lemma stage_ensure_cases:
  assumes "stage_ensure env w h (hp, s) = Inr (hp1, s1)" "filter_inv hp s"
  obtains "hp1 = hp" "s1 = s" "length (gs_pool s) = kPool" "dims_all hp (gs_pool s) w h"
  | pool where "alloc_pool kPool w h hp = (pool, hp1)" "s1 = s\<lparr>gs_stream := True, gs_pool := pool\<rparr>"
proof (cases "gs_stream s \<and> gs_pool s \<noteq> [] \<and> gf_width (hp ! (gs_pool s ! 0)) = w \<and> gf_height (hp ! (gs_pool s ! 0)) = h")
  case True
  then have "hp1 = hp" "s1 = s" using assms(1) by (simp_all add: stage_ensure_def)
  moreover have "length (gs_pool s) = kPool" "dims_all hp (gs_pool s) w h"
    using True assms(2) by (auto simp: filter_inv_def dims_all_def frame_dims_def)
  ultimately show thesis by (rule that(1))
next
  case False
  then show thesis using assms(1) that(2)
    by (auto simp: stage_ensure_def need_def ebind_def Let_def split: if_splits prod.splits)
qed

lemma stage_run_props:
  assumes "stage_run kern src (hp, s) = (out, hp', s')" "out = gs_pool s ! gs_idx s" "length (gs_pool s) = kPool" "gs_idx s < kPool"
    and "distinct (gs_pool s)" "set (gs_pool s) \<subseteq> {..<length hp}" "dims_all hp (gs_pool s) w h" "src \<notin> set (gs_pool s)"
  shows "filter_inv hp' s'" "writes_only hp hp' out" "gs_pool s' = gs_pool s" "gs_idx s' = (gs_idx s + 1) mod kPool"
    "out < length hp'" "frame_times (hp' ! out) = frame_times (hp ! src)" "frame_dims (hp' ! out) = (w, h)"
    "gf_planes (hp' ! out) = kern (gs_frames s) (hp ! src)" "gs_frames s' = gs_frames s + 1" "out \<in> set (gs_pool s)"
proof -
  have o: "out \<in> set (gs_pool s)" using assms(2-4) by simp
  then have lt: "out < length hp" using assms(6) by auto
  have eq: "hp' = write_frame out (kern (gs_frames s) (hp ! src)) (gf_t_ingest_ns (hp ! src)) (gf_capture_ts_ns (hp ! src)) hp"
    "s' = s\<lparr>gs_idx := (gs_idx s + 1) mod length (gs_pool s), gs_frames := gs_frames s + 1\<rparr>"
    using assms(1,2) by (simp_all add: stage_run_def Let_def)
  have dims: "frame_dims (hp' ! r) = (w, h)" if "r \<in> set (gs_pool s)" for r
    using that assms(6,7) unfolding eq(1) dims_all_def
    by (cases "r = out") (auto simp: write_frame_def frame_dims_def)
  have "gs_pool s ! 0 \<in> set (gs_pool s)" using assms(3) by (simp add: kPool_def)
  then show "filter_inv hp' s'"
    using assms(3,5,6) dims unfolding filter_inv_def
    by (auto simp: eq(2) pool_ok_def kPool_def) (auto simp: eq(1) write_frame_def)
  show "frame_dims (hp' ! out) = (w, h)" using dims o by blast
  show "writes_only hp hp' out" "out < length hp'" "frame_times (hp' ! out) = frame_times (hp ! src)"
    "gf_planes (hp' ! out) = kern (gs_frames s) (hp ! src)"
    using lt by (simp_all add: eq(1) write_frame_def writes_only_def frame_times_def)
  show "gs_pool s' = gs_pool s" "gs_idx s' = (gs_idx s + 1) mod kPool" "gs_frames s' = gs_frames s + 1" "out \<in> set (gs_pool s)"
    using assms(3) o by (simp_all add: eq(2))
qed

lemma filter_step:
  assumes "filter_compute k f env src (hp, s) = Inr (out, hp', s')" "filter_inv hp s" "src < length hp" "src \<notin> set (gs_pool s)"
  shows "filter_inv hp' s' \<and> advance hp src (gs_pool s) (gs_idx s) out hp' (gs_pool s') (gs_idx s') \<and> out < length hp' \<and>
    frame_times (hp' ! out) = frame_times (hp ! src) \<and> frame_dims (hp' ! out) = frame_dims (hp ! src) \<and>
    gf_planes (hp' ! out) = filter_kernel k f (gs_frames s) (hp ! src) \<and> gs_frames s' = gs_frames s + 1 \<and>
    writes_only hp hp' out \<and> out \<noteq> src"
proof -
  let ?w = "gf_width (hp ! src)" and ?h = "gf_height (hp ! src)"
  obtain hp1 s1 where e: "stage_ensure env ?w ?h (hp, s) = Inr (hp1, s1)"
    and r: "stage_run (filter_kernel k f) src (hp1, s1) = (out, hp', s')"
    using assms(1) by (auto simp: filter_compute_eq ebind_def split: sum.splits)
  have inv: "pool_ok hp (gs_pool s)" "gs_idx s < kPool" using assms(2) by (simp_all add: filter_inv_def)
  have dims: "frame_dims (hp ! src) = (?w, ?h)" by (simp add: frame_dims_def)
  have out: "out = gs_pool s1 ! gs_idx s1" using r by (simp add: stage_run_def Let_def)
  show ?thesis using e assms(2)
  proof (cases rule: stage_ensure_cases)
    case 1
    have p: "filter_inv hp' s'" "writes_only hp hp' out" "gs_pool s' = gs_pool s" "gs_idx s' = (gs_idx s + 1) mod kPool"
      "out < length hp'" "frame_times (hp' ! out) = frame_times (hp ! src)" "frame_dims (hp' ! out) = (?w, ?h)"
      "gf_planes (hp' ! out) = filter_kernel k f (gs_frames s) (hp ! src)" "gs_frames s' = gs_frames s + 1" "out \<in> set (gs_pool s)"
      using stage_run_props [OF r [unfolded 1] out [unfolded 1] 1(3) inv(2) _ _ 1(4) assms(4)] inv(1) by (simp_all add: pool_ok_def)
    have "advance hp src (gs_pool s) (gs_idx s) out hp' (gs_pool s') (gs_idx s')"
      using advance.turn [of hp hp' "gs_pool s" "gs_idx s" src] p(2-4) out inv(2) unfolding 1 by simp
    then show ?thesis using p assms(4) dims by auto
  next
    case (2 pool)
    note a = alloc_pool_props [OF 2(1)]
    have s1: "gs_pool s1 = pool" "gs_idx s1 = gs_idx s" "gs_frames s1 = gs_frames s" by (simp_all add: 2(2))
    have nin: "src \<notin> set pool" using assms(3) a(3) by auto
    have src: "hp1 ! src = hp ! src" using a(5) assms(3) by simp
    have sub: "set pool \<subseteq> {..<length hp1}" using a(3,4) by auto
    have p: "filter_inv hp' s'" "writes_only hp1 hp' out" "gs_pool s' = pool" "gs_idx s' = (gs_idx s + 1) mod kPool"
      "out < length hp'" "frame_times (hp' ! out) = frame_times (hp ! src)" "frame_dims (hp' ! out) = (?w, ?h)"
      "gf_planes (hp' ! out) = filter_kernel k f (gs_frames s) (hp ! src)" "gs_frames s' = gs_frames s + 1" "out \<in> set pool"
      using stage_run_props [OF r out, unfolded s1, OF a(1) inv(2) a(2) sub a(6) nin] unfolding src by simp_all
    have w: "writes_only hp hp' out" using p(2) a(4,5) by (simp add: writes_only_def)
    have "advance hp src (gs_pool s) (gs_idx s) out hp' (gs_pool s') (gs_idx s')"
      using advance.renew [of hp hp' pool "gs_idx s" src] w p(3,4) out inv(2) a(1,3) by (simp add: s1)
    then show ?thesis using p w nin dims by auto
  qed
qed

interpretation filter_stage: gpu_stage_contract "filter_compute k f env" gs_pool gs_idx filter_inv for k f env
proof
  fix hp hp' :: gpu_heap and s s' :: gpu_stage and src out :: nat
  show "filter_inv hp s \<Longrightarrow> pool_ok hp (gs_pool s)" by (simp add: filter_inv_def)
  show "filter_inv hp' s" if "filter_inv hp s" "length hp \<le> length hp'" "\<forall>r\<in>set (gs_pool s). restamped (hp ! r) (hp' ! r)"
  proof (cases "gs_pool s = []")
    case True
    then show ?thesis using that(1) by (simp add: filter_inv_def pool_ok_def)
  next
    case False
    then have "gs_pool s ! 0 \<in> set (gs_pool s)" by simp
    moreover have "frame_dims (hp' ! r) = frame_dims (hp ! r)" if "r \<in> set (gs_pool s)" for r
      using \<open>\<forall>r\<in>set (gs_pool s). restamped (hp ! r) (hp' ! r)\<close> that by (simp add: frame_dims_def restamped_keeps)
    ultimately have "frame_dims (hp' ! r) = frame_dims (hp' ! (gs_pool s ! 0))" if "r \<in> set (gs_pool s)" for r
      using \<open>filter_inv hp s\<close> that unfolding filter_inv_def by metis
    moreover have "pool_ok hp' (gs_pool s)" using that(1,2) by (auto simp: filter_inv_def pool_ok_def)
    moreover have "(gs_pool s = [] \<or> length (gs_pool s) = kPool) \<and> gs_idx s < kPool" using that(1) by (simp add: filter_inv_def)
    ultimately show ?thesis unfolding filter_inv_def by blast
  qed
  show "filter_inv hp' s' \<and> advance hp src (gs_pool s) (gs_idx s) out hp' (gs_pool s') (gs_idx s') \<and>
      out < length hp' \<and> frame_times (hp' ! out) = frame_times (hp ! src)"
    if "filter_compute k f env src (hp, s) = Inr (out, hp', s')" "filter_inv hp s" "src < length hp" "src \<notin> set (gs_pool s)"
    using filter_step [OF that] by (elim conjE) (intro conjI)
qed


section \<open>The resize stage\<close>

definition resize_inv :: "gpu_heap \<Rightarrow> resize_op \<Rightarrow> bool" where
  "resize_inv hp s \<longleftrightarrow> pool_ok hp (ro_pool s) \<and> length (ro_pool s) = 10 \<and> ro_idx s < 10 \<and>
     dims_all hp (ro_pool s) (rp_out_width (ro_params s)) (rp_out_height (ro_params s))"

lemma resize_start_inv:
  assumes "resize_start env (hp, resize_new p) = Inr (hp', s)"
  shows "resize_inv hp' s"
proof -
  obtain pool where a: "alloc_pool 10 (rp_out_width p) (rp_out_height p) hp = (pool, hp')"
    and s: "ro_pool s = pool" "ro_idx s = 0" "ro_params s = p"
    using assms by (auto simp: resize_start_def resize_new_def need_def ebind_def Let_def split: if_splits prod.splits)
  show ?thesis using alloc_pool_props [OF a] s by (auto simp: resize_inv_def pool_ok_def)
qed

lemma ensure_sr_keeps [simp]:
  "ro_pool (ensure_sr env w h s) = ro_pool s" "ro_idx (ensure_sr env w h s) = ro_idx s"
  "ro_params (ensure_sr env w h s) = ro_params s" "ro_frames (ensure_sr env w h s) = ro_frames s"
  by (auto simp: ensure_sr_def rebuild_sr_def Let_def split: option.splits prod.splits sum.splits)

lemma measure_ms_keeps [simp]:
  "ro_pool (measure_ms ms s) = ro_pool s" "ro_idx (measure_ms ms s) = ro_idx s"
  "ro_params (measure_ms ms s) = ro_params s" "ro_frames (measure_ms ms s) = ro_frames s"
  by (simp_all add: measure_ms_def)

text \<open>Three fallible results in a row, each of which throws with a state of its own.\<close>

lemma three_results:
  "(\<exists>r. (case a of Inl e \<Rightarrow> Inl (f e) | Inr y \<Rightarrow> (case b of Inl e \<Rightarrow> Inl (g y e)
       | Inr cb \<Rightarrow> (case c of Inl e \<Rightarrow> Inl (h y cb e) | Inr cr \<Rightarrow> Inr (k y cb cr)))) = Inr r) \<longleftrightarrow>
   (\<exists>y. a = Inr y) \<and> (\<exists>cb. b = Inr cb) \<and> (\<exists>cr. c = Inr cr)"
  by (cases a; cases b; cases c) simp_all

lemma three_results_Inr:
  "(case a of Inl e \<Rightarrow> Inl (f e) | Inr y \<Rightarrow> (case b of Inl e \<Rightarrow> Inl (g y e)
       | Inr cb \<Rightarrow> (case c of Inl e \<Rightarrow> Inl (h y cb e) | Inr cr \<Rightarrow> Inr (k y cb cr)))) = Inr r \<Longrightarrow> \<exists>y cb cr. r = k y cb cr"
  by (cases a; cases b; cases c) auto

lemma three_results_Inl:
  "(case a of Inl e \<Rightarrow> Inl (f e) | Inr y \<Rightarrow> (case b of Inl e \<Rightarrow> Inl (g y e)
       | Inr cb \<Rightarrow> (case c of Inl e \<Rightarrow> Inl (h y cb e) | Inr cr \<Rightarrow> Inr (k y cb cr)))) = Inl x \<Longrightarrow>
   (\<exists>e. x = f e) \<or> (\<exists>y e. x = g y e) \<or> (\<exists>y cb e. x = h y cb e)"
  by (cases a; cases b; cases c) (auto, blast+)

lemma resize_compute_cases:
  assumes "resize_compute env src (hp, s) = Inr (out, hp', s')"
  obtains (identity) "out = src" "hp' = hp" "ro_pool s' = ro_pool s" "ro_idx s' = ro_idx s" "ro_params s' = ro_params s"
      "frame_dims (hp ! src) = (rp_out_width (ro_params s), rp_out_height (ro_params s))" "ro_frames s' = ro_frames s + 1"
  | (scaled) p where "out = ro_pool s ! ro_idx s" "ro_pool s' = ro_pool s" "ro_idx s' = (ro_idx s + 1) mod length (ro_pool s)"
      "ro_params s' = ro_params s" "ro_frames s' = ro_frames s + 1"
      "hp' = write_frame out p (gf_t_ingest_ns (hp ! src)) (gf_capture_ts_ns (hp ! src)) hp"
proof (cases "gf_width (hp ! src) = rp_out_width (ro_params s) \<and> gf_height (hp ! src) = rp_out_height (ro_params s) \<and>
    \<not> rp_measure (ro_params s)")
  case True
  then show thesis using assms that(1) by (auto simp: resize_compute_def Let_def frame_dims_def)
next
  case False
  show thesis using three_results_Inr [OF assms [unfolded resize_compute_def Let_def prod.case if_not_P [OF False]]]
    by (elim exE) (rule that(2); simp)
qed


lemma resize_step:
  assumes "resize_compute env src (hp, s) = Inr (out, hp', s')" "resize_inv hp s" "src < length hp" "src \<notin> set (ro_pool s)"
  shows "resize_inv hp' s' \<and> advance hp src (ro_pool s) (ro_idx s) out hp' (ro_pool s') (ro_idx s') \<and> out < length hp' \<and>
    frame_times (hp' ! out) = frame_times (hp ! src) \<and>
    frame_dims (hp' ! out) = (rp_out_width (ro_params s), rp_out_height (ro_params s)) \<and>
    ro_params s' = ro_params s \<and> hp' ! src = hp ! src"
  using assms(1)
proof (cases rule: resize_compute_cases)
  case identity
  have "advance hp src (ro_pool s) (ro_idx s) out hp' (ro_pool s') (ro_idx s')"
    unfolding identity(1-4) by (rule advance.pass)
  then show ?thesis using identity assms(2,3) by (simp add: resize_inv_def)
next
  case (scaled p)
  have inv: "pool_ok hp (ro_pool s)" "length (ro_pool s) = 10" "ro_idx s < 10"
    "dims_all hp (ro_pool s) (rp_out_width (ro_params s)) (rp_out_height (ro_params s))"
    using assms(2) by (simp_all add: resize_inv_def)
  have o: "out \<in> set (ro_pool s)" using scaled(1) inv(2,3) by simp
  then have lt: "out < length hp" and ne: "out \<noteq> src" using inv(1) assms(4) by (auto simp: pool_ok_def)
  have w: "writes_only hp hp' out" by (simp add: scaled(6) write_frame_def writes_only_def)
  have dims: "frame_dims (hp' ! r) = frame_dims (hp ! r)" for r
    using lt by (cases "r = out") (simp_all add: scaled(6) write_frame_def frame_dims_def)
  have "advance hp src (ro_pool s) (ro_idx s) out hp' (ro_pool s') (ro_idx s')"
    using advance.turn [of hp hp' "ro_pool s" "ro_idx s" src] w inv(2,3) unfolding scaled(1-3) by simp
  moreover have "resize_inv hp' s'"
    using inv dims by (simp add: resize_inv_def scaled(2-4) pool_ok_def dims_all_def) (simp add: scaled(6) write_frame_def)
  moreover have "frame_dims (hp' ! out) = (rp_out_width (ro_params s), rp_out_height (ro_params s))"
    using inv(4) o dims by (simp add: dims_all_def)
  moreover have "frame_times (hp' ! out) = frame_times (hp ! src)" "out < length hp'" "hp' ! src = hp ! src"
    using lt ne by (simp_all add: scaled(6) write_frame_def frame_times_def)
  ultimately show ?thesis using scaled(4) by blast
qed

interpretation resize_stage: gpu_stage_contract "resize_compute env" ro_pool ro_idx resize_inv for env
proof
  fix hp hp' :: gpu_heap and s s' :: resize_op and src out :: nat
  show "resize_inv hp s \<Longrightarrow> pool_ok hp (ro_pool s)" by (simp add: resize_inv_def)
  show "resize_inv hp' s" if "resize_inv hp s" "length hp \<le> length hp'" "\<forall>r\<in>set (ro_pool s). restamped (hp ! r) (hp' ! r)"
    using that by (auto simp: resize_inv_def pool_ok_def dims_all_def frame_dims_def restamped_keeps)
  show "resize_inv hp' s' \<and> advance hp src (ro_pool s) (ro_idx s) out hp' (ro_pool s') (ro_idx s') \<and>
      out < length hp' \<and> frame_times (hp' ! out) = frame_times (hp ! src)"
    if "resize_compute env src (hp, s) = Inr (out, hp', s')" "resize_inv hp s" "src < length hp" "src \<notin> set (ro_pool s)"
    using resize_step [OF that] by (elim conjE) (intro conjI)
qed

text \<open>A throw leaves the stage ready for the next frame: only the slot it had taken is written.\<close>

lemma resize_throw:
  assumes "resize_compute env src (hp, s) = Inl (msg, hp', s')" "resize_inv hp s" "src \<notin> set (ro_pool s)"
  shows "resize_inv hp' s' \<and> writes_only hp hp' (ro_pool s ! ro_idx s) \<and> hp' ! src = hp ! src \<and> ro_params s' = ro_params s"
proof -
  let ?slot = "ro_pool s ! ro_idx s"
  have False: "\<not> (gf_width (hp ! src) = rp_out_width (ro_params s) \<and> gf_height (hp ! src) = rp_out_height (ro_params s) \<and>
      \<not> rp_measure (ro_params s))"
  proof
    assume "gf_width (hp ! src) = rp_out_width (ro_params s) \<and> gf_height (hp ! src) = rp_out_height (ro_params s) \<and>
      \<not> rp_measure (ro_params s)"
    from assms(1) [unfolded resize_compute_def Let_def prod.case if_P [OF this]] show False by simp
  qed
  have st: "(hp' = hp \<or> (\<exists>p. hp' = write_planes ?slot p hp)) \<and> ro_pool s' = ro_pool s \<and> ro_params s' = ro_params s \<and>
      ro_idx s' = (ro_idx s + 1) mod length (ro_pool s)"
    using three_results_Inl [OF assms(1) [unfolded resize_compute_def Let_def prod.case if_not_P [OF False]]]
    by (elim disjE exE) (simp; blast?)+
  have slot: "?slot \<in> set (ro_pool s)" using assms(2) by (simp add: resize_inv_def)
  have dims: "frame_dims (hp' ! r) = frame_dims (hp ! r)" if "r < length hp" for r
    using st that by (cases "r = ?slot") (auto simp: write_planes_def frame_dims_def)
  have len: "length hp' = length hp" using st by (auto simp: write_planes_def)
  have "writes_only hp hp' ?slot" using st by (auto simp: writes_only_def write_planes_def)
  moreover have "hp' ! src = hp ! src" using st slot assms(3)
    by (metis nth_list_update_neq write_planes_def)
  moreover have "resize_inv hp' s'"
    using assms(2) dims by (auto simp: resize_inv_def pool_ok_def dims_all_def len) (use st in auto)
  ultimately show ?thesis using st by blast
qed

text \<open>What the stage calls for a frame: nothing where the frame passes through; otherwise the engine on the luma
  plane where it is ready for an exact doubling, and the resampler on the two chroma planes and on a luma plane the
  engine does not take.\<close>

type_synonym npp_request = "npp_interp \<times> (u32 \<times> u32) \<times> (u32 \<times> u32) \<times> u16 list"

definition npp_ok :: "resize_env \<Rightarrow> npp_request \<Rightarrow> bool" where
  "npp_ok env r = (case r of (i, s, d, src) \<Rightarrow> fst (re_npp env i s d src))"

definition passes_through :: "resize_op \<Rightarrow> gpu_frame \<Rightarrow> bool" where
  "passes_through s f \<longleftrightarrow> gf_width f = rp_out_width (ro_params s) \<and> gf_height f = rp_out_height (ro_params s) \<and>
     \<not> rp_measure (ro_params s)"

definition sr_used :: "resize_env \<Rightarrow> resize_op \<Rightarrow> gpu_frame \<Rightarrow> sr_engine option" where
  "sr_used env s f =
     (if ro_sr_model s \<noteq> '''' \<and> rp_out_width (ro_params s) = gf_width f * 2 \<and> rp_out_height (ro_params s) = gf_height f * 2
      then ro_sr_engine (ensure_sr env (gf_width f) (gf_height f) s) else None)"

definition npp_requests :: "resize_env \<Rightarrow> resize_op \<Rightarrow> gpu_frame \<Rightarrow> npp_request list" where
  "npp_requests env s f =
     (let p = ro_params s; w = gf_width f; h = gf_height f; dw = rp_out_width p; dh = rp_out_height p;
          i = resolve_interp (ro_interp_code s) w h dw dh; pl = gf_planes f
      in (if sr_used env s f \<noteq> None then [] else [(i, (w, h), (dw, dh), pl_y pl)]) @
           [(i, (w div 2, h), (dw div 2, dh), pl_cb pl), (i, (w div 2, h), (dw div 2, dh), pl_cr pl)])"

definition resize_calls_ok :: "resize_env \<Rightarrow> resize_op \<Rightarrow> gpu_frame \<Rightarrow> bool" where
  "resize_calls_ok env s f \<longleftrightarrow> passes_through s f \<or>
     (\<forall>q\<in>set (npp_requests env s f). npp_ok env q) \<and>
     (case sr_used env s f of None \<Rightarrow> True | Some e \<Rightarrow> fst (re_sr_run env e (pl_y (gf_planes f))))"

lemma ensure_sr_engine:
  "ro_sr_engine (ensure_sr env w h (s\<lparr>ro_idx := i\<rparr>)) = ro_sr_engine (ensure_sr env w h s)"
  by (auto simp: ensure_sr_def rebuild_sr_def Let_def split: option.splits prod.splits sum.splits)

lemma resize_plane_total:
  "(\<exists>y. resize_plane env src sw sh dw dh i = Inr y) \<longleftrightarrow> npp_ok env (i, (sw, sh), (dw, dh), src)"
  by (simp add: resize_plane_def npp_ok_def split: prod.split)

lemma luma_total:
  "(\<exists>y. (case b of True \<Rightarrow> (case e of None \<Rightarrow> m | Some x \<Rightarrow> sr_run env x src) | False \<Rightarrow> m) = Inr y) \<longleftrightarrow>
     (case (if b then e else None) of None \<Rightarrow> \<exists>y. m = Inr y | Some x \<Rightarrow> fst (re_sr_run env x src))"
  by (cases b; cases e) (auto simp: sr_run_def split: prod.splits)

lemma resize_yields:
  assumes "resize_inv hp s"
  shows "(\<exists>r. resize_compute env src (hp, s) = Inr r) \<longleftrightarrow> resize_calls_ok env s (hp ! src)"
proof -
  let ?f = "hp ! src" and ?p = "ro_params s"
  have slot: "gf_width (hp ! (ro_pool s ! ro_idx s)) = rp_out_width ?p" "gf_height (hp ! (ro_pool s ! ro_idx s)) = rp_out_height ?p"
    using assms by (simp_all add: resize_inv_def dims_all_def frame_dims_def)
  show ?thesis
  proof (cases "gf_width ?f = rp_out_width ?p \<and> gf_height ?f = rp_out_height ?p \<and> \<not> rp_measure ?p")
    case True
    then show ?thesis by (simp add: resize_compute_def resize_calls_ok_def passes_through_def Let_def)
  next
    case False
    then have np: "\<not> passes_through s ?f" by (simp add: passes_through_def)
    show ?thesis
      unfolding resize_compute_def npp_requests_def resize_calls_ok_def Let_def prod.case if_not_P [OF False] three_results
      unfolding luma_total slot unfolding resize_plane_total
      using np by (cases "sr_used env s ?f") (auto simp: sr_used_def ensure_sr_engine split: if_splits)
  qed
qed

lemma resolve_super: "resolve_interp c sw sh dw dh = Npp_super \<Longrightarrow> dw < sw \<and> dh < sh"
  by (auto simp: resolve_interp_def Let_def split: interp_choice.splits if_splits)

lemma div2_mono: "a \<le> b \<Longrightarrow> a div 2 \<le> (b div 2 :: u32)"
  by (simp add: word_le_nat_alt unat_div_distrib div_le_mono)

lemma requests_never_grow_super:
  assumes "(Npp_super, sz, d, pl) \<in> set (npp_requests env s f)"
  shows "fst d \<le> fst sz \<and> snd d \<le> snd sz"
  using assms resolve_super [of "ro_interp_code s" "gf_width f" "gf_height f" "rp_out_width (ro_params s)" "rp_out_height (ro_params s)"]
  by (auto simp: npp_requests_def Let_def less_imp_le div2_mono split: if_splits)

text \<open>C19 - What can stop the resize stage, exactly.  In every state its start and the frames before leave (\<open>resize_inv\<close>), whatever the
  interpolation setting, the frame's geometry, the contents of the weight file named in the environment and the
  outcome of the engine's construction, a frame is handed on exactly when the calls the stage makes for it succeed:
  none where the frame passes through, otherwise the resampler on the chroma planes, and on the luma plane the run
  of the engine if it could be built for an exact doubling, the resampler if not.  No request to the resampler
  supersamples to a larger dimension.  The frame handed on has the configured size and the source's times; a throw
  writes nothing but the slot the stage had taken, so that the source and the frames handed on before are as they were.\<close>

theorem resize_throws_exactly:
  assumes "resize_inv hp s" "src < length hp" "src \<notin> set (ro_pool s)"
  shows "((\<exists>r. resize_compute env src (hp, s) = Inr r) \<longleftrightarrow> resize_calls_ok env s (hp ! src)) \<and>
    (\<forall>sz d pl. (Npp_super, sz, d, pl) \<in> set (npp_requests env s (hp ! src)) \<longrightarrow> fst d \<le> fst sz \<and> snd d \<le> snd sz) \<and>
    (case resize_compute env src (hp, s) of
       Inr (out, hp', s') \<Rightarrow> resize_inv hp' s' \<and> out < length hp' \<and>
         frame_dims (hp' ! out) = (rp_out_width (ro_params s), rp_out_height (ro_params s)) \<and>
         frame_times (hp' ! out) = frame_times (hp ! src) \<and> hp' ! src = hp ! src
     | Inl (msg, hp', s') \<Rightarrow> resize_inv hp' s' \<and> writes_only hp hp' (ro_pool s ! ro_idx s) \<and> hp' ! src = hp ! src)"
proof (intro conjI)
  show "(\<exists>r. resize_compute env src (hp, s) = Inr r) \<longleftrightarrow> resize_calls_ok env s (hp ! src)"
    by (rule resize_yields [OF assms(1)])
  show "\<forall>sz d pl. (Npp_super, sz, d, pl) \<in> set (npp_requests env s (hp ! src)) \<longrightarrow> fst d \<le> fst sz \<and> snd d \<le> snd sz"
    using requests_never_grow_super by blast
  show "case resize_compute env src (hp, s) of
       Inr (out, hp', s') \<Rightarrow> resize_inv hp' s' \<and> out < length hp' \<and>
         frame_dims (hp' ! out) = (rp_out_width (ro_params s), rp_out_height (ro_params s)) \<and>
         frame_times (hp' ! out) = frame_times (hp ! src) \<and> hp' ! src = hp ! src
     | Inl (msg, hp', s') \<Rightarrow> resize_inv hp' s' \<and> writes_only hp hp' (ro_pool s ! ro_idx s) \<and> hp' ! src = hp ! src"
  proof (cases "resize_compute env src (hp, s)")
    case (Inl r)
    then show ?thesis using resize_throw [OF _ assms(1,3)] by (cases r) auto
  next
    case (Inr r)
    then show ?thesis using resize_step [OF _ assms] by (cases r) auto
  qed
qed


definition demo_resize_env :: resize_env where
  "demo_resize_env = \<lparr>re_cuda = \<lparr>cu_zerocopy = True, cu_stream_ok = True, cu_malloc_ok = True, cu_frames_ok = True,
       cu_memcpy_ok = True, cu_record_ok = True, cu_event_ok = True, cu_sync_ok = True\<rparr>,
     re_npp = (\<lambda>i s d src. (\<not> (i = Npp_super \<and> (fst s < fst d \<or> snd s < snd d)), replicate (unat (fst d) * unat (snd d)) 512)),
     re_engine_ok = (\<lambda>_ _ _. False), re_sr_run = (\<lambda>_ y. (True, y)),
     re_environ = [''SPARK_SR_WEIGHTS'' \<mapsto> ''/none''], re_files = Map.empty, re_embedded = [], re_elapsed_ms = 1\<rparr>"

definition demo_resize :: resize_op where
  "demo_resize = (resize_new \<lparr>rp_out_width = 4, rp_out_height = 2, rp_interp = ''ai'', rp_measure = False\<rparr>)
     \<lparr>ro_interp_code := Npp Npp_cubic, ro_sr_model := ''fsrcnn'', ro_stream := True, ro_pool := [1, 2, 3, 4, 5, 6, 7, 8, 9, 10]\<rparr>"

definition demo_heap :: gpu_heap where
  "demo_heap = gpu_frame_alloc 2 1 # replicate 10 (gpu_frame_alloc 4 2)"

lemma demo_resize_inv: "resize_inv demo_heap demo_resize"
  by (simp add: resize_inv_def demo_heap_def demo_resize_def resize_new_def pool_ok_def dims_all_def frame_dims_def
      gpu_frame_alloc_def Let_def eval_nat_numeral)

theorem resize_throws_exactly_witness:
  "(\<exists>out hp' s'. resize_compute demo_resize_env 0 (demo_heap, demo_resize) = Inr (out, hp', s') \<and> resize_inv hp' s' \<and>
     out < length hp' \<and> frame_dims (hp' ! out) = (4, 2) \<and> frame_times (hp' ! out) = frame_times (demo_heap ! 0) \<and>
     hp' ! 0 = demo_heap ! 0) \<and>
   (\<exists>msg hp' s'. resize_compute (demo_resize_env\<lparr>re_npp := \<lambda>_ _ _ y. (False, y)\<rparr>) 0 (demo_heap, demo_resize) =
       Inl (msg, hp', s') \<and> resize_inv hp' s' \<and> writes_only demo_heap hp' 1)"
proof (intro conjI)
  have h: "0 < length demo_heap" "0 \<notin> set (ro_pool demo_resize)" "rp_out_width (ro_params demo_resize) = 4"
    "rp_out_height (ro_params demo_resize) = 2" "ro_pool demo_resize ! ro_idx demo_resize = 1"
    "ro_interp_code demo_resize = Npp Npp_cubic" "gf_width (demo_heap ! 0) = 2"
    by (simp_all add: demo_heap_def demo_resize_def resize_new_def gpu_frame_alloc_def Let_def)
  note claim = resize_throws_exactly [OF demo_resize_inv h(1,2)]
  have "resize_calls_ok demo_resize_env demo_resize (demo_heap ! 0)"
    by (simp add: resize_calls_ok_def npp_requests_def npp_ok_def demo_resize_env_def h(6) resolve_interp_def Let_def
        split: option.split)
  then obtain r where "resize_compute demo_resize_env 0 (demo_heap, demo_resize) = Inr r"
    using claim [of demo_resize_env] by blast
  then show "\<exists>out hp' s'. resize_compute demo_resize_env 0 (demo_heap, demo_resize) = Inr (out, hp', s') \<and> resize_inv hp' s' \<and>
     out < length hp' \<and> frame_dims (hp' ! out) = (4, 2) \<and> frame_times (hp' ! out) = frame_times (demo_heap ! 0) \<and>
     hp' ! 0 = demo_heap ! 0"
    using claim [of demo_resize_env] h(3,4) by (cases r) auto
  let ?env = "demo_resize_env\<lparr>re_npp := \<lambda>_ _ _ y. (False, y)\<rparr>"
  have "\<not> npp_ok ?env q" for q by (simp add: npp_ok_def split: prod.splits)
  moreover have "npp_requests ?env demo_resize (demo_heap ! 0) \<noteq> []" by (simp add: npp_requests_def Let_def)
  ultimately have "\<not> (\<forall>q\<in>set (npp_requests ?env demo_resize (demo_heap ! 0)). npp_ok ?env q)"
    by (metis list.set_intros(1) neq_Nil_conv)
  then have "\<not> resize_calls_ok ?env demo_resize (demo_heap ! 0)"
    by (simp add: resize_calls_ok_def passes_through_def h(3,7))
  then obtain e where "resize_compute ?env 0 (demo_heap, demo_resize) = Inl e"
    using claim [of ?env, THEN conjunct1] by (cases "resize_compute ?env 0 (demo_heap, demo_resize)") blast+
  then obtain msg hp' s' where e: "resize_compute ?env 0 (demo_heap, demo_resize) = Inl (msg, hp', s')"
    by (cases e) blast
  have "resize_inv hp' s' \<and> writes_only demo_heap hp' 1"
    using claim [of ?env, THEN conjunct2, THEN conjunct2] unfolding e h(5) by simp
  then show "\<exists>msg hp' s'. resize_compute ?env 0 (demo_heap, demo_resize) = Inl (msg, hp', s') \<and>
     resize_inv hp' s' \<and> writes_only demo_heap hp' 1"
    using e by blast
qed

section \<open>Frames in flight\<close>

text \<open>C20 - No stage overwrites a frame that is still in use: in every state a filter stage reaches (\<open>filter_inv\<close>, which a
  fresh stage has and every call keeps), a frame it hands on carries the source's ingest and capture time and geometry and the filter's planes, and the source is left as it was.  The
  planes, the geometry and the ingest time stay so while the stage processes up to nine more frames, whatever
  geometry these have and whatever the other stages do meanwhile: those own other pools, and all they write
  of a frame they were handed is its capture time, which the frame-rate conversion sets on the frames it
  passes through, so only the capture time may differ from what was handed on.\<close>

theorem filter_frames_in_flight:
  assumes "filter_compute k f env src (hp, s) = Inr (out, hp1, s1)" "filter_inv hp s" "src < length hp" "src \<notin> set (gs_pool s)"
    and "stage_trace (filter_compute k f env) gs_pool out (hp1, s1) n (hp2, s2)" "n \<le> 9"
  shows "frame_times (hp1 ! out) = frame_times (hp ! src) \<and> hp1 ! src = hp ! src \<and>
    gf_planes (hp2 ! out) = filter_kernel k f (gs_frames s) (hp ! src) \<and> frame_dims (hp2 ! out) = frame_dims (hp ! src) \<and>
    gf_t_ingest_ns (hp2 ! out) = gf_t_ingest_ns (hp ! src) \<and> restamped (hp1 ! out) (hp2 ! out)"
proof -
  note st = filter_step [OF assms(1-4)]
  have "gs_pool s1 \<noteq> []"
    using st by (elim conjE) (erule advance.cases, auto)
  then have "n < length (gs_pool s1)" using st assms(6) by (auto simp: filter_inv_def kPool_def)
  then have r: "restamped (hp1 ! out) (hp2 ! out)" by (rule filter_stage.handed_on_stable [OF assms(1-5)])
  then show ?thesis using st assms(3) restamped_keeps [OF r] by (simp add: writes_only_def frame_times_def frame_dims_def)
qed


lemma filter_compute_ok: "cu_frames_ok env \<Longrightarrow> \<exists>out hp' s'. filter_compute k f env src st = Inr (out, hp', s')"
  by (cases st) (auto simp: filter_compute_eq stage_ensure_def need_def stage_run_def Let_def split: prod.splits)

definition demo_filters :: filter_kernels where
  "demo_filters = \<lparr>fk_procamp_y = \<lambda>_ _ y. y, fk_procamp_c = \<lambda>_ _ c. c, fk_unsharp_y = \<lambda>_ _ _ y. map (\<lambda>v. v + 1) y,
     fk_nr_y = \<lambda>_ _ _ y. y, fk_nr_c = \<lambda>_ _ _ c. c, fk_grain_y = \<lambda>_ _ _ _ _ y. y, fk_grain_c = \<lambda>_ _ _ _ _ _ c. c\<rparr>"

definition demo_source :: gpu_frame where
  "demo_source = (gpu_frame_alloc 2 1)\<lparr>gf_t_ingest_ns := 7, gf_capture_ts_ns := 9\<rparr>"

theorem filter_frames_in_flight_witness:
  "\<exists>out hp1 s1 out' hp2 s2.
     filter_compute demo_filters (Sharpen (Fin 1)) (re_cuda demo_resize_env) 0 ([demo_source], stage_new) = Inr (out, hp1, s1) \<and>
     filter_compute demo_filters (Sharpen (Fin 1)) (re_cuda demo_resize_env) 0 (hp1, s1) = Inr (out', hp2, s2) \<and>
     frame_times (hp1 ! out) = (7, 9) \<and> gf_t_ingest_ns (hp2 ! out) = 7 \<and> pl_y (gf_planes (hp2 ! out)) = [1, 1]"
proof -
  let ?step = "filter_compute demo_filters (Sharpen (Fin 1)) (re_cuda demo_resize_env)"
  have ok: "cu_frames_ok (re_cuda demo_resize_env)" by (simp add: demo_resize_env_def)
  obtain out hp1 s1 where 1: "?step 0 ([demo_source], stage_new) = Inr (out, hp1, s1)"
    using filter_compute_ok [OF ok] by blast
  obtain out' hp2 s2 where 2: "?step 0 (hp1, s1) = Inr (out', hp2, s2)"
    using filter_compute_ok [OF ok] by blast
  have inv: "filter_inv [demo_source] stage_new" "(0 :: nat) < length [demo_source]" "0 \<notin> set (gs_pool stage_new)"
    by (simp_all add: filter_inv_def stage_new_def pool_ok_def kPool_def)
  note st = filter_step [OF 1 inv]
  have "0 < length hp1" using st by auto
  moreover have "0 \<notin> set (gs_pool s1)"
    using st by (elim conjE) (erule advance.cases, auto simp: stage_new_def)
  ultimately have "stage_trace ?step gs_pool out (hp1, s1) (Suc 0) (hp2, s2)"
    using trace_own [of ?step gs_pool out "(hp1, s1)" 0 hp1 s1 0 out' hp2 s2] trace_refl 2 by blast
  note r = filter_frames_in_flight [OF 1 inv this]
  have "frame_times demo_source = (7, 9)" "gf_t_ingest_ns demo_source = 7"
    "pl_y (filter_kernel demo_filters (Sharpen (Fin 1)) (gs_frames stage_new) demo_source) = [1, 1]"
    by (simp_all add: demo_source_def frame_times_def filter_kernel_def sharpen_kernel_def with_chroma_def
        demo_filters_def gpu_frame_alloc_def Let_def) (simp add: numeral_2_eq_2)
  then show ?thesis using 1 2 r by auto
qed

end
