(* ===== verification/Frc_Grid.thy ===== *)
theory Frc_Grid
  imports Ieee_Double
begin

text \<open>
  The tick arithmetic of uniform-grid frame-rate conversion, \<open>engine/operators/frc/frc_grid.hpp\<close>.  Times
  are 64-bit nanoseconds that wrap as in the code; the collecting loop need not end (a grid at the top
  of the range wraps below the bracket), so it is a partial function and \<open>None\<close> is that it does not return.
  The counter of dropped ticks is optional as the pointer is.
\<close>

section \<open>The grid\<close>

record uniform_grid =
  gr_interval_ns :: u64
  gr_next_ns :: u64

record tick =
  tk_ts :: u64
  tk_phase :: rat

definition tick_phase :: "u64 \<Rightarrow> rat \<Rightarrow> u64 \<Rightarrow> rat" where
  "tick_phase prev_ts span_ns ts =
     (if ts \<le> prev_ts then 0 else flt (dbl (dbl (of_nat (unat (ts - prev_ts))) / span_ns)))"

partial_function (option) tick_loop ::
  "u64 \<Rightarrow> u64 \<Rightarrow> rat \<Rightarrow> u64 \<Rightarrow> int \<Rightarrow> u64 \<Rightarrow> tick list \<Rightarrow> u64 option \<Rightarrow> (tick list \<times> u64 \<times> u64 option) option" where
  "tick_loop prev_ts cur_ts span_ns interval max_out next_ns out dropped =
     (if next_ns \<le> cur_ts
      then if int (length out) < max_out
        then tick_loop prev_ts cur_ts span_ns interval max_out (next_ns + interval)
               (out @ [\<lparr>tk_ts = next_ns, tk_phase = tick_phase prev_ts span_ns next_ns\<rparr>]) dropped
        else tick_loop prev_ts cur_ts span_ns interval max_out (next_ns + interval) out (map_option (\<lambda>d. d + 1) dropped)
      else Some (out, next_ns, dropped))"

text \<open>The jump over a stall: a whole number of intervals, to within one of the newest frame.\<close>

definition stall_jump :: "u64 \<Rightarrow> u64 \<Rightarrow> u64 \<Rightarrow> u64 \<Rightarrow> u64 \<Rightarrow> u64 option \<Rightarrow> u64 \<times> u64 option" where
  "stall_jump interval prev_ts cur_ts stall_ns next_ns dropped =
     (if cur_ts - prev_ts > stall_ns \<and> next_ns < cur_ts
      then let skip = (cur_ts - next_ns) div interval
        in (next_ns + skip * interval, map_option (\<lambda>d. d + skip) dropped)
      else (next_ns, dropped))"

definition ticks ::
  "uniform_grid \<Rightarrow> u64 \<Rightarrow> u64 \<Rightarrow> int \<Rightarrow> u64 \<Rightarrow> u64 option \<Rightarrow> (tick list \<times> uniform_grid \<times> u64 option) option" where
  "ticks g prev_ts cur_ts max_out stall_ns dropped =
     (if gr_interval_ns g = 0 \<or> cur_ts \<le> prev_ts \<or> max_out \<le> 0 then Some ([], g, dropped)
      else
        let anchored = (if gr_next_ns g = 0 then cur_ts else gr_next_ns g);
            (next_ns, dropped') = stall_jump (gr_interval_ns g) prev_ts cur_ts stall_ns anchored dropped;
            span_ns = dbl (of_nat (unat (cur_ts - prev_ts)))
        in map_option (\<lambda>(out, next', d). (out, g\<lparr>gr_next_ns := next'\<rparr>, d))
             (tick_loop prev_ts cur_ts span_ns (gr_interval_ns g) max_out next_ns [] dropped'))"

section \<open>The loop\<close>

text \<open>The ticks from \<open>next\<close> up to \<open>cur\<close>.\<close>

definition due :: "nat \<Rightarrow> nat \<Rightarrow> nat \<Rightarrow> nat" where
  "due interval next cur = (if next \<le> cur then (cur - next) div interval + 1 else 0)"

lemma due_step: "0 < i \<Longrightarrow> s \<le> c \<Longrightarrow> due i s c = Suc (due i (s + i) c)"
proof -
  assume i: "0 < i" and s: "s \<le> c"
  show ?thesis
  proof (cases "s + i \<le> c")
    case True
    then have "c - s = (c - (s + i)) + i" by simp
    then have "(c - s) div i = (c - (s + i)) div i + 1" using i by (metis div_add_self2 less_irrefl Suc_eq_plus1)
    then show ?thesis using True s by (simp add: due_def)
  next
    case False
    then show ?thesis using s i by (simp add: due_def)
  qed
qed

lemma due_0: "due i s c = 0 \<longleftrightarrow> c < s"
  by (simp add: due_def)

lemma due_past: "0 < i \<Longrightarrow> s \<le> c \<Longrightarrow> c < s + due i s c * i \<and> s + due i s c * i \<le> c + i"
proof -
  assume i: "0 < i" and s: "s \<le> c"
  have "(c - s) div i * i + (c - s) mod i = c - s" "(c - s) mod i < i" using div_mult_mod_eq [of "c - s" i] mod_less_divisor [OF i, of "c - s"] by blast+
  then have "c < s + ((c - s) div i * i + i) \<and> s + ((c - s) div i * i + i) \<le> c + i" using s by linarith
  then show ?thesis using s by (simp add: due_def algebra_simps)
qed

text \<open>The tick \<open>k\<close> intervals after \<open>s\<close>.\<close>

definition grid_tick :: "u64 \<Rightarrow> rat \<Rightarrow> u64 \<Rightarrow> u64 \<Rightarrow> nat \<Rightarrow> tick" where
  "grid_tick prev_ts span_ns interval s k =
     (let ts = s + of_nat k * interval in \<lparr>tk_ts = ts, tk_phase = tick_phase prev_ts span_ns ts\<rparr>)"

lemma grid_tick_Suc: "grid_tick p span_ns i s (Suc k) = grid_tick p span_ns i (s + i) k"
  by (simp add: grid_tick_def Let_def algebra_simps)

lemma map_grid_tick_Suc:
  "map (grid_tick p span_ns i s) [0..<Suc n] = grid_tick p span_ns i s 0 # map (grid_tick p span_ns i (s + i)) [0..<n]"
  by (simp add: upt_conv_Cons map_Suc_upt [symmetric] grid_tick_Suc o_def del: upt_Suc)

lemma tick_loop_exact:
  assumes "unat cur + unat interval < 2 ^ 64" "0 < interval"
  shows "tick_loop prev cur span_ns interval max_out next out dropped =
     (let n = due (unat interval) (unat next) (unat cur); m = min n (nat (max_out - int (length out)))
      in Some (out @ map (grid_tick prev span_ns interval next) [0..<m], next + of_nat n * interval,
               map_option (\<lambda>d. d + of_nat (n - m)) dropped))"
proof (induction "due (unat interval) (unat next) (unat cur)" arbitrary: "next" out dropped)
  case 0
  then have "\<not> next \<le> cur" by (simp add: due_0 word_le_nat_alt)
  then show ?case using 0 by (subst tick_loop.simps) (simp add: option.map_ident)
next
  case (Suc n)
  let ?i = "unat interval"
  have le: "next \<le> cur" using Suc.hyps(2) by (metis due_0 not_less word_le_nat_alt nat.distinct(1))
  then have "unat next \<le> unat cur" by (simp add: word_le_nat_alt)
  then have un: "unat (next + interval) = unat next + ?i" using assms(1) by (intro unat_add_lem [THEN iffD1]) simp
  have i: "0 < ?i" using assms(2) by (simp add: unat_gt_0)
  have "Suc n = Suc (due ?i (unat (next + interval)) (unat cur))"
    using due_step [OF i \<open>unat next \<le> unat cur\<close>] Suc.hyps(2) un by simp
  then have n: "n = due ?i (unat (next + interval)) (unat cur)" by simp
  note IH = Suc.hyps(1) [OF n]
  have nx: "next + interval + of_nat n * interval = next + of_nat (Suc n) * interval" by (simp add: algebra_simps)
  show ?case
  proof (cases "int (length out) < max_out")
    case True
    let ?t = "\<lparr>tk_ts = next, tk_phase = tick_phase prev span_ns next\<rparr>"
    have m: "nat (max_out - int (length out)) = Suc (nat (max_out - int (length (out @ [?t]))))" using True by simp
    have t: "?t = grid_tick prev span_ns interval next 0" by (simp add: grid_tick_def Let_def)
    have "tick_loop prev cur span_ns interval max_out next out dropped =
        tick_loop prev cur span_ns interval max_out (next + interval) (out @ [?t]) dropped"
      using le True by (subst tick_loop.simps) simp
    also have "\<dots> = (let m = min n (nat (max_out - int (length (out @ [?t])))) in
        Some (out @ map (grid_tick prev span_ns interval next) [0..<Suc m], next + of_nat (Suc n) * interval,
          map_option (\<lambda>d. d + of_nat (n - m)) dropped))"
      unfolding IH n [symmetric] map_grid_tick_Suc Let_def nx by (simp add: t)
    finally show ?thesis unfolding Suc.hyps(2) [symmetric] m Let_def by simp
  next
    case False
    then have m: "nat (max_out - int (length out)) = 0" by simp
    have "tick_loop prev cur span_ns interval max_out next out dropped =
        tick_loop prev cur span_ns interval max_out (next + interval) out (map_option (\<lambda>d. d + 1) dropped)"
      using le False by (subst tick_loop.simps) simp
    also have "\<dots> = Some (out, next + of_nat (Suc n) * interval, map_option (\<lambda>d. d + of_nat (Suc n)) dropped)"
      unfolding IH n [symmetric] Let_def nx m by (simp add: option.map_comp o_def algebra_simps)
    finally show ?thesis unfolding Suc.hyps(2) [symmetric] m Let_def by simp
  qed
qed

section \<open>One bracket\<close>

text \<open>The range in which a bracket's arithmetic does not wrap.\<close>

definition grid_ok :: "uniform_grid \<Rightarrow> u64 \<Rightarrow> bool" where
  "grid_ok g cur \<longleftrightarrow> 0 < gr_interval_ns g \<and> unat cur + unat (gr_interval_ns g) < 2 ^ 64"

definition anchored :: "uniform_grid \<Rightarrow> u64 \<Rightarrow> nat" where
  "anchored g cur = (if gr_next_ns g = 0 then unat cur else unat (gr_next_ns g))"

text \<open>The ticks a stall skips.\<close>

definition skipped :: "nat \<Rightarrow> nat \<Rightarrow> nat \<Rightarrow> nat \<Rightarrow> nat \<Rightarrow> nat" where
  "skipped i prev cur stall s = (if cur - prev > stall \<and> s < cur then (cur - s) div i else 0)"

lemma word_of_unat_add: "of_nat (unat (s :: u64) + k * unat i) = s + of_nat k * i"
  by simp

lemma unat_small: "n < 2 ^ 64 \<Longrightarrow> unat (of_nat n :: u64) = n"
  by (simp add: unat_of_nat)

lemma unat_tick:
  assumes "unat (s :: u64) + k * unat i < 2 ^ 64"
  shows "unat (s + of_nat k * i) = unat s + k * unat i"
  by (subst word_of_unat_add [symmetric]) (rule unat_small [OF assms])

lemma stall_jump_nat:
  assumes "prev < cur" "0 < i"
  shows "stall_jump i prev cur stall s d =
     (s + of_nat (skipped (unat i) (unat prev) (unat cur) (unat stall) (unat s)) * i,
      map_option (\<lambda>d. d + of_nat (skipped (unat i) (unat prev) (unat cur) (unat stall) (unat s))) d)"
proof -
  have p: "unat (cur - prev) = unat cur - unat prev" using assms(1) by (simp add: unat_sub less_imp_le)
  have g: "cur - prev > stall \<longleftrightarrow> unat cur - unat prev > unat stall" by (simp add: word_less_nat_alt p)
  have l: "s < cur \<longleftrightarrow> unat s < unat cur" by (simp add: word_less_nat_alt)
  have "of_nat ((unat cur - unat s) div unat i) = (cur - s) div i" if "s < cur"
  proof -
    have "unat (cur - s) = unat cur - unat s" using that by (simp add: unat_sub less_imp_le)
    then have "(unat cur - unat s) div unat i = unat ((cur - s) div i)" by (simp add: unat_div_distrib)
    then show ?thesis by simp
  qed
  then show ?thesis by (simp add: stall_jump_def skipped_def g l Let_def option.map_ident)
qed

lemma skipped_bound: "s \<le> cur \<Longrightarrow> s + skipped i prev cur stall s * i \<le> cur"
  by (simp add: skipped_def) (metis div_times_less_eq_dividend le_add_diff_inverse2 add.commute add_le_mono1 less_imp_le)

text \<open>The number of ticks of a bracket, and how many of them are emitted.\<close>

lemma ticks_exact:
  assumes "grid_ok g cur" "prev < cur" "0 < max_out"
  shows "\<exists>k n m. ticks g prev cur max_out stall dropped =
      Some (map (grid_tick prev (dbl (of_nat (unat (cur - prev)))) (gr_interval_ns g) (of_nat (anchored g cur + k * unat (gr_interval_ns g)))) [0..<m],
            g\<lparr>gr_next_ns := of_nat (anchored g cur + (k + n) * unat (gr_interval_ns g))\<rparr>,
            map_option (\<lambda>d. d + of_nat (k + n - m)) dropped) \<and>
    k = skipped (unat (gr_interval_ns g)) (unat prev) (unat cur) (unat stall) (anchored g cur) \<and>
    n = due (unat (gr_interval_ns g)) (anchored g cur + k * unat (gr_interval_ns g)) (unat cur) \<and>
    m = min n (nat max_out)"
proof -
  let ?i = "gr_interval_ns g" and ?s = "if gr_next_ns g = 0 then cur else gr_next_ns g"
  define k where "k = skipped (unat ?i) (unat prev) (unat cur) (unat stall) (anchored g cur)"
  have i: "0 < ?i" "unat cur + unat ?i < 2 ^ 64" using assms(1) by (simp_all add: grid_ok_def)
  have s: "unat ?s = anchored g cur" by (simp add: anchored_def)
  have sk: "?s + of_nat k * ?i = of_nat (anchored g cur + k * unat ?i)"
    unfolding s [symmetric] by (simp only: word_of_unat_add)
  have "anchored g cur + k * unat ?i < 2 ^ 64"
  proof (cases "anchored g cur \<le> unat cur")
    case True
    then show ?thesis using skipped_bound [OF True, of "unat ?i" "unat prev" "unat stall"] i(2) by (simp add: k_def)
  next
    case False
    then have "k = 0" by (simp add: k_def skipped_def)
    then show ?thesis unfolding s [symmetric] by simp
  qed
  then have u: "unat (of_nat (anchored g cur + k * unat ?i) :: u64) = anchored g cur + k * unat ?i"
    by (rule unat_small)
  define n where "n = due (unat ?i) (anchored g cur + k * unat ?i) (unat cur)"
  have nx: "of_nat (anchored g cur + k * unat ?i) + of_nat n * ?i = (of_nat (anchored g cur + (k + n) * unat ?i) :: u64)"
    by (simp add: algebra_simps)
  have d: "map_option (\<lambda>d. d + of_nat (n - min n (nat max_out))) (map_option (\<lambda>d. d + of_nat k) dropped) =
      map_option (\<lambda>d. d + of_nat (k + n - min n (nat max_out))) dropped" for dropped :: "u64 option"
  proof -
    have "k + n - min n (nat max_out) = k + (n - min n (nat max_out))" by simp
    then have "of_nat (k + n - min n (nat max_out)) = (of_nat k + of_nat (n - min n (nat max_out)) :: u64)" by (simp only: of_nat_add)
    then show ?thesis by (simp only: option.map_comp o_def add.assoc)
  qed
  have guard: "(?i = 0 \<or> cur \<le> prev \<or> max_out \<le> 0) = False" using assms(2,3) i(1) by auto
  have "ticks g prev cur max_out stall dropped =
      Some (map (grid_tick prev (dbl (of_nat (unat (cur - prev)))) ?i (of_nat (anchored g cur + k * unat ?i))) [0..<min n (nat max_out)],
        g\<lparr>gr_next_ns := of_nat (anchored g cur + (k + n) * unat ?i)\<rparr>,
        map_option (\<lambda>d. d + of_nat (k + n - min n (nat max_out))) dropped)"
    unfolding ticks_def guard if_False
    by (simp only: stall_jump_nat [OF assms(2) i(1)] s k_def [symmetric] sk Let_def prod.case
        tick_loop_exact [OF i(2,1)] u n_def [symmetric] nx d option.map append_Nil list.size int_ops(1) diff_0_right)
  then show ?thesis using k_def n_def by blast
qed


text \<open>The ticks of a bracket, numbered from the grid's next one: \<open>ks\<close> are emitted out of \<open>N\<close>.\<close>

definition accounts :: "u64 \<Rightarrow> u64 \<Rightarrow> nat \<Rightarrow> u64 list \<Rightarrow> uniform_grid \<Rightarrow> u64 \<Rightarrow> u64 \<Rightarrow> bool" where
  "accounts i cur s stamps g' d d' \<longleftrightarrow> (\<exists>ks N.
     stamps = map (\<lambda>k. of_nat (s + k * unat i)) ks \<and> sorted_wrt (<) ks \<and> set ks \<subseteq> {..<N} \<and>
     gr_interval_ns g' = i \<and> unat (gr_next_ns g') = s + N * unat i \<and> d' = d + of_nat (N - length ks) \<and>
     unat cur < s + N * unat i \<and> (if s \<le> unat cur then s + N * unat i \<le> unat cur + unat i else N = 0))"

lemma ticks_accounts:
  assumes "grid_ok g cur" "prev < cur" "0 < max_out"
  shows "\<exists>out g' d'. ticks g prev cur max_out stall (Some d) = Some (out, g', Some d') \<and>
    accounts (gr_interval_ns g) cur (anchored g cur) (map tk_ts out) g' d d' \<and> length out \<le> nat max_out"
proof -
  let ?i = "gr_interval_ns g" and ?s = "anchored g cur"
  obtain k n m where t: "ticks g prev cur max_out stall (Some d) =
      Some (map (grid_tick prev (dbl (of_nat (unat (cur - prev)))) ?i (of_nat (?s + k * unat ?i))) [0..<m],
            g\<lparr>gr_next_ns := of_nat (?s + (k + n) * unat ?i)\<rparr>,
            map_option (\<lambda>d. d + of_nat (k + n - m)) (Some d))"
    and k: "k = skipped (unat ?i) (unat prev) (unat cur) (unat stall) ?s"
    and n: "n = due (unat ?i) (?s + k * unat ?i) (unat cur)" and m: "m = min n (nat max_out)"
    using ticks_exact [OF assms, of stall "Some d"] by (elim exE conjE) (rule that)
  have i: "0 < unat ?i" using assms(1) by (simp add: grid_ok_def word_less_nat_alt)
  have past: "unat cur < ?s + (k + n) * unat ?i"
    "if ?s \<le> unat cur then ?s + (k + n) * unat ?i \<le> unat cur + unat ?i else k + n = 0"
  proof -
    have a: "?s + (k + n) * unat ?i = ?s + k * unat ?i + n * unat ?i" by (simp add: algebra_simps)
    have "unat cur < ?s + (k + n) * unat ?i \<and>
      (if ?s \<le> unat cur then ?s + (k + n) * unat ?i \<le> unat cur + unat ?i else k + n = 0)"
    proof (cases "?s \<le> unat cur")
      case True
      show ?thesis
        using due_past [OF i skipped_bound [OF True, of "unat ?i" "unat prev" "unat stall"]] True
        unfolding k [symmetric] n [symmetric] a by simp
    next
      case False
      then have "k = 0" "n = 0" by (simp_all add: k n skipped_def due_def)
      then show ?thesis using False by simp
    qed
    then show "unat cur < ?s + (k + n) * unat ?i"
      "if ?s \<le> unat cur then ?s + (k + n) * unat ?i \<le> unat cur + unat ?i else k + n = 0" by simp_all
  qed
  have "?s + (k + n) * unat ?i < 2 ^ 64"
  proof (cases "?s \<le> unat cur")
    case True
    then show ?thesis using past(2) assms(1) by (simp add: grid_ok_def)
  next
    case False
    then have "k + n = 0" using past(2) by simp
    then show ?thesis by (simp add: anchored_def)
  qed
  then have u: "unat (of_nat (?s + (k + n) * unat ?i) :: u64) = ?s + (k + n) * unat ?i" by (rule unat_small)
  let ?out = "map (grid_tick prev (dbl (of_nat (unat (cur - prev)))) ?i (of_nat (?s + k * unat ?i))) [0..<m]"
  have ts: "map tk_ts ?out = map (\<lambda>k. of_nat (?s + k * unat ?i)) (map (\<lambda>j. k + j) [0..<m])"
    by (simp add: grid_tick_def Let_def algebra_simps)
  have srt: "sorted_wrt (<) (map (\<lambda>j. k + j) [0..<m])" by (simp add: sorted_wrt_map)
  have sub: "set (map (\<lambda>j. k + j) [0..<m]) \<subseteq> {..<k + n}" using m by auto
  have "accounts ?i cur ?s (map tk_ts ?out) (g\<lparr>gr_next_ns := of_nat (?s + (k + n) * unat ?i)\<rparr>) d (d + of_nat (k + n - m))"
    unfolding accounts_def
    by (intro exI [of _ "map (\<lambda>j. k + j) [0..<m]"] exI [of _ "k + n"] conjI ts srt sub past)
      (simp_all add: u del: of_nat_add of_nat_mult)
  moreover have "length ?out \<le> nat max_out" using m by simp
  ultimately show ?thesis using t by auto
qed

section \<open>A run of brackets\<close>

fun grid_run :: "int \<Rightarrow> u64 \<Rightarrow> uniform_grid \<Rightarrow> u64 \<Rightarrow> u64 list \<Rightarrow> u64 \<Rightarrow> (u64 list \<times> uniform_grid \<times> u64) option" where
  "grid_run max_out stall g prev [] d = Some ([], g, d)"
| "grid_run max_out stall g prev (cur # curs) d =
     (case ticks g prev cur max_out stall (Some d) of
        Some (out, g', Some d') \<Rightarrow>
          map_option (\<lambda>(ts, g2, d2). (map tk_ts out @ ts, g2, d2)) (grid_run max_out stall g' cur curs d')
      | _ \<Rightarrow> None)"

lemma accounts_append:
  assumes "accounts i cur s ts1 g1 d d1" "accounts i c (unat (gr_next_ns g1)) ts2 g2 d1 d2" "cur \<le> c" "0 < i"
  shows "accounts i c s (ts1 @ ts2) g2 d d2"
proof -
  obtain ks1 N1 where a: "ts1 = map (\<lambda>k. of_nat (s + k * unat i)) ks1" "sorted_wrt (<) ks1" "set ks1 \<subseteq> {..<N1}"
    "unat (gr_next_ns g1) = s + N1 * unat i" "d1 = d + of_nat (N1 - length ks1)"
    "unat cur < s + N1 * unat i" "if s \<le> unat cur then s + N1 * unat i \<le> unat cur + unat i else N1 = 0"
    using assms(1) unfolding accounts_def by (elim exE conjE) (rule that)
  obtain ks2 N2 where b: "ts2 = map (\<lambda>k. of_nat (unat (gr_next_ns g1) + k * unat i)) ks2" "sorted_wrt (<) ks2"
    "set ks2 \<subseteq> {..<N2}" "gr_interval_ns g2 = i" "unat (gr_next_ns g2) = unat (gr_next_ns g1) + N2 * unat i"
    "d2 = d1 + of_nat (N2 - length ks2)" "unat c < unat (gr_next_ns g1) + N2 * unat i"
    "if unat (gr_next_ns g1) \<le> unat c then unat (gr_next_ns g1) + N2 * unat i \<le> unat c + unat i else N2 = 0"
    using assms(2) unfolding accounts_def by (elim exE conjE) (rule that)
  have len: "length ks \<le> N" if "sorted_wrt (<) ks" "set ks \<subseteq> {..<N}" for ks :: "nat list" and N
  proof -
    have "distinct ks" using that(1) by (induction ks) auto
    then have "length ks = card (set ks)" by (simp add: distinct_card)
    then show ?thesis using card_mono [OF _ that(2)] by simp
  qed
  have l1: "length ks1 \<le> N1" and l2: "length ks2 \<le> N2" using len a(2,3) b(2,3) by blast+
  let ?ks = "ks1 @ map (\<lambda>k. N1 + k) ks2"
  have ts: "ts1 @ ts2 = map (\<lambda>k. of_nat (s + k * unat i)) ?ks"
    unfolding a(1) b(1) a(4) by (simp add: algebra_simps)
  have srt: "sorted_wrt (<) ?ks"
    using a(2,3) b(2) by (auto simp: sorted_wrt_append sorted_wrt_map intro: sorted_wrt_mono_rel [of ks2])
  have sub: "set ?ks \<subseteq> {..<N1 + N2}" using a(3) b(3) by auto
  have nx: "unat (gr_next_ns g2) = s + (N1 + N2) * unat i" using a(4) b(5) by (simp add: algebra_simps)
  have d: "d2 = d + of_nat (N1 + N2 - length ?ks)"
  proof -
    have "N1 + N2 - length ?ks = (N1 - length ks1) + (N2 - length ks2)" using l1 l2 by simp
    then show ?thesis using a(5) b(6) by (simp only: of_nat_add add.assoc)
  qed
  have cc: "unat cur \<le> unat c" using assms(3) by (simp add: word_le_nat_alt)
  have e: "if s \<le> unat c then s + (N1 + N2) * unat i \<le> unat c + unat i else N1 + N2 = 0"
  proof (cases "s \<le> unat cur")
    case True
    then show ?thesis using a(4,7) b(5,8) nx cc by (auto split: if_splits)
  next
    case False
    then have "N1 = 0" using a(7) by simp
    then show ?thesis using a(4) b(5,8) nx by (auto split: if_splits)
  qed
  have p: "unat c < s + (N1 + N2) * unat i" using b(5,7) nx by simp
  show ?thesis unfolding accounts_def
    by (intro exI [of _ ?ks] exI [of _ "N1 + N2"] conjI ts srt sub b(4) nx d p e)
qed


lemma anchored_pos: "prev < cur \<Longrightarrow> 0 < anchored g cur"
  by (auto simp: anchored_def word_less_nat_alt unat_gt_0)

lemma grid_run_accounts:
  assumes "0 < max_out" "0 < gr_interval_ns g" "curs \<noteq> []" "sorted_wrt (<) (prev # curs)"
    and "\<forall>c\<in>set curs. unat c + unat (gr_interval_ns g) < 2 ^ 64"
  shows "\<exists>ts g' d'. grid_run max_out stall g prev curs d = Some (ts, g', d') \<and>
    accounts (gr_interval_ns g) (last curs) (anchored g (hd curs)) ts g' d d'"
  using assms(2-5)
proof (induction curs arbitrary: g prev d)
  case (Cons cur curs)
  have ok: "grid_ok g cur" "prev < cur" using Cons.prems by (simp_all add: grid_ok_def)
  obtain out g1 d1 where t: "ticks g prev cur max_out stall (Some d) = Some (out, g1, Some d1)"
    and a1: "accounts (gr_interval_ns g) cur (anchored g cur) (map tk_ts out) g1 d d1"
    using ticks_accounts [OF ok assms(1), of stall d] by blast
  have i1: "gr_interval_ns g1 = gr_interval_ns g" and nx: "0 < unat (gr_next_ns g1)"
    using a1 anchored_pos [OF ok(2), of g] by (auto simp: accounts_def)
  show ?case
  proof (cases curs)
    case Nil
    then show ?thesis using t a1 by simp
  next
    case (Cons c curs')
    obtain ts g2 d2 where r: "grid_run max_out stall g1 cur curs d1 = Some (ts, g2, d2)"
      and a2: "accounts (gr_interval_ns g1) (last curs) (anchored g1 (hd curs)) ts g2 d1 d2"
      using Cons.IH [of g1 cur d1] Cons.prems Cons i1 by auto
    have an: "anchored g1 (hd curs) = unat (gr_next_ns g1)" using nx by (auto simp: anchored_def)
    have le: "cur \<le> last curs" using Cons.prems(3) Cons by (auto simp: less_imp_le)
    have "accounts (gr_interval_ns g) (last curs) (anchored g cur) (map tk_ts out @ ts) g2 d d2"
      using accounts_append [OF a1 _ le] a2 Cons.prems(1) by (simp add: i1 an)
    then show ?thesis using t r Cons by simp
  qed
qed simp

section \<open>Phases\<close>

lemma unat_lt: "unat (d :: u64) < 2 ^ 64"
  using unsigned_less [of d, where ?'a = nat] by simp

lemma in_range_500:
  assumes "1 / 2 ^ 500 \<le> x" "x \<le> 2 ^ 500"
  shows "in_range x"
proof -
  have "(1 :: rat) / 2 ^ 1000 \<le> 1 / 2 ^ 500" "(2 :: rat) ^ 500 \<le> 2 ^ 1000" by simp_all
  then show ?thesis unfolding in_range_def using assms order_trans by blast
qed

lemma in_range_round:
  assumes "1 / 2 ^ 500 \<le> x" "x \<le> 2 ^ 500" "p \<le> 100"
  shows "in_range (round_sig p x)" "x / 2 \<le> round_sig p x"
proof -
  have r: "in_range x" using assms(1,2) by (rule in_range_500)
  have pos: "0 < x" using r by (rule in_range_pos)
  have "x / (2 * 2 ^ p) \<le> x / 2" using pos one_le_power [of "2 :: rat" p] by (intro divide_left_mono) simp_all
  then have e: "\<bar>round_sig p x - x\<bar> \<le> x / 2" using round_sig_error [OF r assms(3)] by simp
  show l: "x / 2 \<le> round_sig p x" using e by linarith
  have "1 / 2 ^ 1000 \<le> x / 2" by (rule order_trans [OF _ divide_right_mono [OF assms(1)]]) simp_all
  moreover have "round_sig p x \<le> 3 / 2 * x" using e by linarith
  moreover have "3 / 2 * x \<le> 3 / 2 * 2 ^ 500" using assms(2) by simp
  ultimately show "in_range (round_sig p x)" using l by (simp add: in_range_def)
qed

lemma rat_u64:
  assumes "0 < (d :: u64)"
  shows "1 \<le> (of_nat (unat d) :: rat)" "(of_nat (unat d) :: rat) \<le> 2 ^ 64" "in_range (of_nat (unat d))"
proof -
  have "1 \<le> unat d" using assms by (simp add: word_less_nat_alt)
  then have "(of_nat 1 :: rat) \<le> of_nat (unat d)" by (simp only: of_nat_le_iff)
  then show l: "1 \<le> (of_nat (unat d) :: rat)" by (simp only: of_nat_1)
  have "unat d < 2 ^ 64" using unat_lt [of d] by simp
  then have "unat d \<le> 2 ^ 64" by (rule less_imp_le)
  then show u: "(of_nat (unat d) :: rat) \<le> 2 ^ 64" by (metis of_nat_le_iff of_nat_numeral of_nat_power)
  show "in_range (of_nat (unat d))"
    using l u unfolding in_range_def by (auto intro: order_trans [of _ 1] order_trans [of _ "2 ^ 64"])
qed

lemma dbl_u64:
  assumes "0 < d"
  shows "in_range (dbl (of_nat (unat (d :: u64))))" "1 / 2 \<le> dbl (of_nat (unat d))" "dbl (of_nat (unat d)) \<le> 2 ^ 65"
proof -
  note d = rat_u64(1) [OF assms] and u = rat_u64(2) [OF assms]
  have r: "1 / 2 ^ 500 \<le> (of_nat (unat d) :: rat)" "(of_nat (unat d) :: rat) \<le> 2 ^ 500"
    using d u by (auto intro: order_trans [of _ 1] order_trans [of _ "2 ^ 64"])
  show "in_range (dbl (of_nat (unat d)))" "1 / 2 \<le> dbl (of_nat (unat d))"
    using in_range_round [OF r, of 52] d by (auto simp: dbl_def)
  have "in_range (of_nat (unat d))" "in_range (2 ^ 64)" using in_range_500 [OF r] by (simp, simp add: in_range_def)
  then have "dbl (of_nat (unat d)) \<le> dbl (2 ^ 64)" unfolding dbl_def using u by (rule round_sig_mono) simp
  also have "\<dots> \<le> 2 ^ 64 + 2 ^ 64 / 9007199254740992" using dbl_error [of "2 ^ 64"] by simp
  finally show "dbl (of_nat (unat d)) \<le> 2 ^ 65" by simp
qed

lemma tick_phase_bounds:
  assumes "prev < a" "a \<le> b" "b \<le> cur"
  shows "0 < tick_phase prev (dbl (of_nat (unat (cur - prev)))) a"
    "tick_phase prev (dbl (of_nat (unat (cur - prev)))) a \<le> tick_phase prev (dbl (of_nat (unat (cur - prev)))) b"
    "tick_phase prev (dbl (of_nat (unat (cur - prev)))) b \<le> 1"
proof -
  let ?S = "dbl (of_nat (unat (cur - prev)))" and ?A = "dbl (of_nat (unat (a - prev)))" and ?B = "dbl (of_nat (unat (b - prev)))"
  have w: "0 < a - prev" "0 < b - prev" "0 < cur - prev" and le: "a - prev \<le> b - prev" "b - prev \<le> cur - prev"
    using assms by (simp_all add: word_le_nat_alt word_less_nat_alt unat_sub)
  have mono: "dbl (of_nat (unat x)) \<le> dbl (of_nat (unat y))" if "x \<le> y" "0 < x" for x y :: u64
  proof -
    have "0 < y" using that by simp
    have "unat x \<le> unat y" using that(1) by (simp add: word_le_nat_alt)
    then have le: "(of_nat (unat x) :: rat) \<le> of_nat (unat y)" by (simp only: of_nat_le_iff)
    show ?thesis unfolding dbl_def
      by (rule round_sig_mono [OF rat_u64(3) [OF that(2)] rat_u64(3) [OF \<open>0 < y\<close>] le]) simp
  qed
  have AB: "?A \<le> ?B" "?B \<le> ?S" using mono le w by blast+
  note A = dbl_u64 [OF w(1)] and S = dbl_u64 [OF w(3)] and B = dbl_u64 [OF w(2)]
  have S0: "0 < ?S" using S(2) by linarith
  have q: "1 / 2 ^ 500 \<le> x / ?S" "x / ?S \<le> 2 ^ 500" if "1 / 2 \<le> x" "x \<le> ?S" for x
  proof -
    have "(1 :: rat) / 2 ^ 500 \<le> (1 / 2) / 2 ^ 65" by simp
    also have "\<dots> \<le> x / ?S" using that S(3) S0 by (intro frac_le) simp_all
    finally show "1 / 2 ^ 500 \<le> x / ?S" .
    have "x / ?S \<le> 1" using that S0 by simp
    then show "x / ?S \<le> 2 ^ 500" by (rule order_trans) simp
  qed
  have ir: "in_range (x / ?S)" "in_range (dbl (x / ?S))" if "1 / 2 \<le> x" "x \<le> ?S" for x
    using in_range_500 [OF q [OF that]] in_range_round(1) [OF q [OF that], of 52] by (simp_all add: dbl_def)
  have "dbl (?A / ?S) \<le> dbl (?B / ?S)" unfolding dbl_def
    using ir(1) A(2) B(2) AB S0 order_trans [OF AB] by (intro round_sig_mono) (simp_all add: divide_right_mono flip: dbl_def)
  then have le: "flt (dbl (?A / ?S)) \<le> flt (dbl (?B / ?S))" unfolding flt_def
    using ir(2) A(2) B(2) AB order_trans [OF AB] by (intro round_sig_mono) simp_all
  have "dbl (?B / ?S) \<le> 1" unfolding dbl_def
    using ir(1) [OF B(2) AB(2)] AB(2) S0 by (intro round_sig_le_1) (simp_all flip: dbl_def)
  then have one: "flt (dbl (?B / ?S)) \<le> 1" unfolding flt_def
    using ir(2) [OF B(2) AB(2)] by (intro round_sig_le_1) simp_all
  have "0 < flt (dbl (?A / ?S))" unfolding flt_def
    using ir(2) [OF A(2) order_trans [OF AB]] by (intro round_sig_pos) simp_all
  then show "0 < tick_phase prev ?S a" "tick_phase prev ?S a \<le> tick_phase prev ?S b" "tick_phase prev ?S b \<le> 1"
    using assms le one by (auto simp: tick_phase_def not_le)
qed

lemma tick_phase_end: "prev < cur \<Longrightarrow> tick_phase prev (dbl (of_nat (unat (cur - prev)))) cur = 1"
proof -
  assume l: "prev < cur"
  then have "0 < cur - prev" by (simp add: word_less_nat_alt unat_sub [OF less_imp_le])
  then have "dbl (of_nat (unat (cur - prev))) \<noteq> 0" using dbl_u64(2) [of "cur - prev"] by auto
  then show ?thesis using l by (simp add: tick_phase_def not_le dbl_def flt_def)
qed


lemma grid_tick_phase: "tk_phase (grid_tick p w i s k) = tick_phase p w (tk_ts (grid_tick p w i s k))"
  by (simp add: grid_tick_def Let_def)

lemma due_within: "j < due i s c \<Longrightarrow> s + j * i \<le> c"
proof -
  assume "j < due i s c"
  then have s: "s \<le> c" "j \<le> (c - s) div i" by (auto simp: due_def split: if_splits)
  then have "j * i \<le> (c - s) div i * i" by simp
  also have "\<dots> \<le> c - s" by simp
  finally show ?thesis using s(1) by simp
qed

section \<open>Properties\<close>

text \<open>Uniform-grid conversion keeps an exact cadence whatever the source does: over any run of
  brackets with increasing capture times, stalls included, collecting the ticks ends, the ticks
  emitted are, in order, of the one grid anchored at the first frame with the output interval, and every
  tick of that grid up to the newest frame is either emitted once or counted as dropped.\<close>

theorem frc_grid_cadence:
  assumes "0 < max_out" "0 < i" "curs \<noteq> []" "sorted_wrt (<) (prev # curs)"
    and "\<forall>c\<in>set curs. unat c + unat i < 2 ^ 64"
  shows "\<exists>stamps g d' ks N.
    grid_run max_out stall \<lparr>gr_interval_ns = i, gr_next_ns = 0\<rparr> prev curs d = Some (stamps, g, d') \<and>
    stamps = map (\<lambda>k. of_nat (unat (hd curs) + k * unat i)) ks \<and> sorted_wrt (<) ks \<and> set ks \<subseteq> {..<N} \<and>
    d' = d + of_nat (N - length ks) \<and>
    unat (last curs) < unat (hd curs) + N * unat i \<and> unat (hd curs) + N * unat i \<le> unat (last curs) + unat i"
proof -
  let ?g = "\<lparr>gr_interval_ns = i, gr_next_ns = 0 :: u64\<rparr>"
  obtain ts g' d' where r: "grid_run max_out stall ?g prev curs d = Some (ts, g', d')"
    and a: "accounts i (last curs) (anchored ?g (hd curs)) ts g' d d'"
    using grid_run_accounts [of max_out ?g curs prev stall d] assms by auto
  have an: "anchored ?g (hd curs) = unat (hd curs)" by (simp add: anchored_def)
  have "hd curs \<le> last curs" using assms(3,4) by (cases curs) (auto simp: less_imp_le)
  then show ?thesis using r a unfolding accounts_def an word_le_nat_alt by (simp only: if_True) blast
qed

theorem frc_grid_cadence_witness:
  "\<exists>stamps g d' ks N.
    grid_run 4 160 \<lparr>gr_interval_ns = 20, gr_next_ns = 0\<rparr> 1000 [1040, 1080, 1300, 1340] 0 = Some (stamps, g, d') \<and>
    stamps = map (\<lambda>k. of_nat (1040 + k * 20)) ks \<and> sorted_wrt (<) ks \<and> set ks \<subseteq> {..<N} \<and>
    d' = 0 + of_nat (N - length ks) \<and> 1340 < 1040 + N * 20 \<and> 1040 + N * 20 \<le> 1340 + 20"
  using frc_grid_cadence [of 4 20 "[1040, 1080, 1300, 1340]" 1000 160 0] by simp

text \<open>C21 - Ticks are interpolated inside their bracket: while the grid is not behind the older frame, every
  tick of a bracket lies after the older frame and not after the newer, at a phase in (0, 1] that does
  not decrease from tick to tick and is 1 on the newer frame.\<close>

theorem frc_grid_phases:
  assumes "grid_ok g cur" "prev < cur" "0 < max_out" "unat prev < anchored g cur"
  shows "\<exists>out g' d'. ticks g prev cur max_out stall dropped = Some (out, g', d') \<and>
    (\<forall>t\<in>set out. prev < tk_ts t \<and> tk_ts t \<le> cur \<and> 0 < tk_phase t \<and> tk_phase t \<le> 1 \<and>
       (tk_ts t = cur \<longrightarrow> tk_phase t = 1)) \<and>
    sorted (map tk_phase out)"
proof -
  let ?i = "gr_interval_ns g" and ?s = "anchored g cur" and ?S = "dbl (of_nat (unat (cur - prev)))"
  obtain k n m where t: "ticks g prev cur max_out stall dropped =
      Some (map (grid_tick prev ?S ?i (of_nat (?s + k * unat ?i))) [0..<m],
            g\<lparr>gr_next_ns := of_nat (?s + (k + n) * unat ?i)\<rparr>, map_option (\<lambda>d. d + of_nat (k + n - m)) dropped)"
    and n: "n = due (unat ?i) (?s + k * unat ?i) (unat cur)" and m: "m = min n (nat max_out)"
    using ticks_exact [OF assms(1-3), of stall dropped] by (elim exE conjE) (rule that)
  let ?t = "grid_tick prev ?S ?i (of_nat (?s + k * unat ?i))"
  have ts: "tk_ts (?t j) = of_nat (?s + k * unat ?i + j * unat ?i)" for j
    by (simp_all add: grid_tick_def Let_def)
  have u: "unat (tk_ts (?t j)) = ?s + k * unat ?i + j * unat ?i" "unat (tk_ts (?t j)) \<le> unat cur" if "j < m" for j
  proof -
    have "j < n" using that m by simp
    then have "?s + k * unat ?i + j * unat ?i \<le> unat cur" unfolding n by (rule due_within)
    moreover from this have "unat (tk_ts (?t j)) = ?s + k * unat ?i + j * unat ?i"
      unfolding ts using unat_lt [of cur] by (intro unat_small) linarith
    ultimately show "unat (tk_ts (?t j)) = ?s + k * unat ?i + j * unat ?i" "unat (tk_ts (?t j)) \<le> unat cur" by simp_all
  qed
  have lo: "prev < tk_ts (?t j)" "tk_ts (?t j) \<le> cur" if "j < m" for j
    using u [OF that] assms(4) by (simp_all add: word_less_nat_alt word_le_nat_alt)
  have step: "tk_ts (?t j) \<le> tk_ts (?t l)" if "j \<le> l" "l < m" for j l
    unfolding word_le_nat_alt using u(1) [of j] u(1) [of l] that by simp
  have "sorted (map tk_phase (map ?t [0..<m]))"
    unfolding sorted_iff_nth_mono using tick_phase_bounds(2) [OF lo(1) step lo(2)] by (auto simp: grid_tick_phase)
  moreover have "\<forall>t\<in>set (map ?t [0..<m]). prev < tk_ts t \<and> tk_ts t \<le> cur \<and> 0 < tk_phase t \<and> tk_phase t \<le> 1 \<and>
       (tk_ts t = cur \<longrightarrow> tk_phase t = 1)"
    using lo tick_phase_bounds(1) [OF lo(1) order_refl lo(2)] tick_phase_bounds(3) [OF lo(1) order_refl lo(2)] tick_phase_end [OF assms(2)]
    by (auto simp: grid_tick_phase)
  ultimately show ?thesis using t by blast
qed

theorem frc_grid_phases_witness:
  "\<exists>out g' d'. ticks \<lparr>gr_interval_ns = 20, gr_next_ns = 1060\<rparr> 1040 1080 4 160 None = Some (out, g', d') \<and>
    (\<forall>t\<in>set out. 1040 < tk_ts t \<and> tk_ts t \<le> 1080 \<and> 0 < tk_phase t \<and> tk_phase t \<le> 1 \<and>
       (tk_ts t = 1080 \<longrightarrow> tk_phase t = 1)) \<and>
    sorted (map tk_phase out)"
  by (rule frc_grid_phases) (simp_all add: grid_ok_def anchored_def)

text \<open>Behind the older frame the phase is 0, outside the interval the tick's comment gives.\<close>

lemma frc_phase_zero:
  "\<exists>g' d. ticks \<lparr>gr_interval_ns = 20, gr_next_ns = 1020\<rparr> 1030 1040 1 160 None = Some ([\<lparr>tk_ts = 1020, tk_phase = 0\<rparr>], g', d)"
  by (simp add: ticks_def stall_jump_def tick_loop.simps tick_phase_def)

end
