(* ===== verification/Frc_Op.thy ===== *)
theory Frc_Op
  imports Frc_Grid Stage_Props
begin

text \<open>
  The frame-rate conversion operator, \<open>engine/operators/frc/frc.cpp\<close>: its three modes, the pool of
  synthetic frames and the stamps of what it emits.  Optical flow and the warping kernels are one
  argument, from the older and the newer frame and the phase to the planes of the synthetic frame.
  Emitting is returning references in order; a uniform-grid call whose tick loop does not end, and an
  access to buffers that were freed, are \<open>None\<close>.
\<close>

section \<open>State\<close>

record frc_params =
  fp_phase :: rat
  fp_grid_size :: u32
  fp_rate_mult :: u32
  fp_out_interval_ns :: u64

record frc_op =
  fo_params :: frc_params
  fo_grid :: uniform_grid
  fo_src_prev_ts :: u64
  fo_grid_dropped :: u64
  fo_burst :: u32
  fo_median :: bool
  fo_inited :: bool
  fo_buffers :: bool
  fo_prev :: "nat option"
  fo_pool :: "nat list"
  fo_idx :: nat
  fo_frames :: u64

definition frc_new :: "frc_params \<Rightarrow> frc_op" where
  "frc_new p = \<lparr>fo_params = p, fo_grid = \<lparr>gr_interval_ns = 0, gr_next_ns = 0\<rparr>, fo_src_prev_ts = 0, fo_grid_dropped = 0,
     fo_burst = 1, fo_median = True, fo_inited = False, fo_buffers = False, fo_prev = None, fo_pool = [],
     fo_idx = 0, fo_frames = 0\<rparr>"

text \<open>The defaults of the parameters.\<close>

definition default_frc_params :: frc_params where
  "default_frc_params = \<lparr>fp_phase = 1 / 2, fp_grid_size = 4, fp_rate_mult = 1, fp_out_interval_ns = 0\<rparr>"

text \<open>What the operator calls: the flow engine's set-up and run, with the message either may throw, and
  the warp, from the median setting, the frames and the phase to the planes.\<close>

record frc_env =
  fe_environ :: environ
  fe_cuda :: cuda_env
  fe_flow_init :: "u32 \<Rightarrow> u32 \<Rightarrow> u32 \<Rightarrow> string option"
  fe_flow :: "gpu_frame \<Rightarrow> gpu_frame \<Rightarrow> string option"
  fe_interp :: "bool \<Rightarrow> gpu_frame \<Rightarrow> gpu_frame \<Rightarrow> rat \<Rightarrow> planar"

definition frc_ensure :: "frc_env \<Rightarrow> u32 \<Rightarrow> u32 \<Rightarrow> gpu_heap \<times> frc_op \<Rightarrow> string + gpu_heap \<times> frc_op" where
  "frc_ensure env w h st =
     (let (hp, s) = st
      in if fo_inited s then Inr (hp, s)
         else
           let median = (case fe_environ env ''SPARK_FRC_MEDIAN'' of None \<Rightarrow> True | Some mv \<Rightarrow> atoi mv \<noteq> 0);
               burst = pipeline_emit_burst (fe_environ env)
           in
           ebind (case fe_flow_init env w h (fp_grid_size (fo_params s)) of Some e \<Rightarrow> Inl e | None \<Rightarrow> Inr ()) (\<lambda>_.
           ebind (need (cu_frames_ok (fe_cuda env)) ''gpu_frame: cudaMalloc'') (\<lambda>_.
           let (pool, hp') = alloc_pool (unat (2 * burst + 6)) w h hp
           in Inr (hp', s\<lparr>fo_buffers := True, fo_median := median, fo_burst := burst,
                          fo_grid := (fo_grid s)\<lparr>gr_interval_ns := fp_out_interval_ns (fo_params s)\<rparr>,
                          fo_pool := pool, fo_inited := True\<rparr>))))"

text \<open>A synthetic frame into the next slot of the pool.\<close>

definition synthesize ::
  "frc_env \<Rightarrow> nat \<Rightarrow> nat \<Rightarrow> rat \<Rightarrow> u64 \<Rightarrow> gpu_heap \<times> frc_op \<Rightarrow> (nat \<times> gpu_heap \<times> frc_op) option" where
  "synthesize env prev cur phase stamp st =
     (let (hp, s) = st
      in if \<not> fo_buffers s \<or> fo_idx s \<ge> length (fo_pool s) then None
         else let slot = fo_pool s ! fo_idx s
           in Some (slot,
                write_frame slot (fe_interp env (fo_median s) (hp ! prev) (hp ! cur) phase) (gf_t_ingest_ns (hp ! cur)) stamp hp,
                s\<lparr>fo_idx := (fo_idx s + 1) mod length (fo_pool s), fo_frames := fo_frames s + 1\<rparr>))"

definition restamp :: "nat \<Rightarrow> u64 \<Rightarrow> gpu_heap \<Rightarrow> gpu_heap" where
  "restamp r ts hp = hp[r := (hp ! r)\<lparr>gf_capture_ts_ns := ts\<rparr>]"

section \<open>Uniform grid\<close>

text \<open>The phase from which the last tick passes the newer frame through.\<close>

definition kPassHi :: rat where "kPassHi = flt (99 / 100)"

fun emit_ticks ::
  "frc_env \<Rightarrow> nat \<Rightarrow> nat \<Rightarrow> tick list \<Rightarrow> gpu_heap \<times> frc_op \<Rightarrow> (nat list \<times> gpu_heap \<times> frc_op) option" where
  "emit_ticks env prev cur [] st = Some ([], st)"
| "emit_ticks env prev cur (t # ts) (hp, s) =
     (if ts = [] \<and> tk_phase t \<ge> kPassHi
      then Some ([cur], restamp cur (tk_ts t) hp, s)
      else do {
        (out, st) \<leftarrow> synthesize env prev cur (tk_phase t) (tk_ts t) (hp, s);
        (outs, st') \<leftarrow> emit_ticks env prev cur ts st;
        Some (out # outs, st')
      })"

text \<open>Whether any of the ticks needs the flow.\<close>

fun need_flow :: "tick list \<Rightarrow> bool" where
  "need_flow [] = False"
| "need_flow (t # ts) \<longleftrightarrow> \<not> (ts = [] \<and> tk_phase t \<ge> kPassHi) \<or> need_flow ts"

definition compute_uniform ::
  "frc_env \<Rightarrow> nat \<Rightarrow> nat \<Rightarrow> gpu_heap \<times> frc_op \<Rightarrow> (string + nat list \<times> gpu_heap \<times> frc_op) option" where
  "compute_uniform env prev cur st =
     (let (hp, s) = st; pc = fo_src_prev_ts s; cc = gf_capture_ts_ns (hp ! cur); s1 = s\<lparr>fo_src_prev_ts := cc\<rparr>
      in if pc = 0 \<or> cc \<le> pc then Some (Inr ([cur], hp, s1\<lparr>fo_prev := Some cur\<rparr>))
         else do {
           let max_out = (if fo_burst s1 < 16 then uint (fo_burst s1) else 16);
           (tks, g, d) \<leftarrow> ticks (fo_grid s1) pc cc max_out (8 * gr_interval_ns (fo_grid s1)) (Some (fo_grid_dropped s1));
           let flow = (if need_flow tks then fe_flow env (hp ! prev) (hp ! cur) else None);
           (case flow of
              Some e \<Rightarrow> Some (Inl e)
            | None \<Rightarrow> do {
                (outs, hp', s2) \<leftarrow> emit_ticks env prev cur tks (hp, s1\<lparr>fo_grid := g, fo_grid_dropped := the d\<rparr>);
                Some (Inr (outs, hp', s2\<lparr>fo_prev := Some cur\<rparr>))
              })
         })"

section \<open>Compute\<close>

text \<open>The stamp of a midpoint frame.\<close>

definition mid_stamp :: "u64 \<Rightarrow> u64 \<Rightarrow> u64" where
  "mid_stamp pc cc = (if pc \<noteq> 0 \<and> cc > pc then cc - (cc - pc) div 2 else cc)"

definition frc_mid ::
  "frc_env \<Rightarrow> nat \<Rightarrow> nat \<Rightarrow> gpu_heap \<times> frc_op \<Rightarrow> (string + nat list \<times> gpu_heap \<times> frc_op) option" where
  "frc_mid env prev cur st =
     (let (hp, s) = st; cc = gf_capture_ts_ns (hp ! cur); stamp = mid_stamp (gf_capture_ts_ns (hp ! prev)) cc
      in case fe_flow env (hp ! prev) (hp ! cur) of
           Some e \<Rightarrow> Some (Inl e)
         | None \<Rightarrow> do {
             (mid, hp', s') \<leftarrow> synthesize env prev cur (flt (fp_phase (fo_params s))) stamp (hp, s);
             Some (Inr (if fp_rate_mult (fo_params s) \<ge> 2 then [mid, cur] else [mid], hp',
                        s'\<lparr>fo_prev := Some cur, fo_src_prev_ts := cc\<rparr>))
           })"

definition frc_compute ::
  "frc_env \<Rightarrow> nat option \<Rightarrow> gpu_heap \<times> frc_op \<Rightarrow> (string + nat list \<times> gpu_heap \<times> frc_op) option" where
  "frc_compute env input st =
     (case input of
        None \<Rightarrow> Some (Inr ([], st))
      | Some cur \<Rightarrow>
          (case frc_ensure env (gf_width (fst st ! cur)) (gf_height (fst st ! cur)) st of
             Inl e \<Rightarrow> Some (Inl e)
           | Inr (hp, s) \<Rightarrow>
               (case fo_prev s of
                  None \<Rightarrow> Some (Inr ([cur], hp, s\<lparr>fo_prev := Some cur, fo_src_prev_ts := gf_capture_ts_ns (hp ! cur)\<rparr>))
                | Some prev \<Rightarrow>
                    if gr_interval_ns (fo_grid s) > 0 then compute_uniform env prev cur (hp, s)
                    else frc_mid env prev cur (hp, s))))"

definition frc_stop :: "frc_op \<Rightarrow> frc_op" where
  "frc_stop s = s\<lparr>fo_buffers := False\<rparr>"


section \<open>Runs\<close>

text \<open>The capture stamp of a frame.\<close>

definition stamp :: "gpu_heap \<Rightarrow> nat \<Rightarrow> u64" where "stamp hp r = gf_capture_ts_ns (hp ! r)"

text \<open>The operator over a list of source frames: the stamps of what each call emits, and the last state.\<close>

fun frc_run :: "frc_env \<Rightarrow> nat list \<Rightarrow> gpu_heap \<times> frc_op \<Rightarrow> (string + u64 list \<times> gpu_heap \<times> frc_op) option" where
  "frc_run env [] st = Some (Inr ([], st))"
| "frc_run env (c # cs) st =
     (case frc_compute env (Some c) st of
        None \<Rightarrow> None
      | Some (Inl e) \<Rightarrow> Some (Inl e)
      | Some (Inr (outs, hp, s)) \<Rightarrow>
          (case frc_run env cs (hp, s) of
             Some (Inr (ts, st')) \<Rightarrow> Some (Inr (map (stamp hp) outs @ ts, st'))
           | r \<Rightarrow> r))"

section \<open>The pool\<close>

definition frc_ready :: "gpu_heap \<Rightarrow> frc_op \<Rightarrow> bool" where
  "frc_ready hp s \<longleftrightarrow> fo_inited s \<and> fo_buffers s \<and> pool_ok hp (fo_pool s) \<and> fo_idx s < length (fo_pool s)"

text \<open>The slot \<open>j\<close> turns on.\<close>

definition turn_slot :: "frc_op \<Rightarrow> nat \<Rightarrow> nat" where
  "turn_slot s j = fo_pool s ! ((fo_idx s + j) mod length (fo_pool s))"

lemma turn_slot_mem: "frc_ready hp s \<Longrightarrow> turn_slot s j \<in> set (fo_pool s)"
  unfolding turn_slot_def frc_ready_def by (intro nth_mem mod_less_divisor) auto

lemma turn_slot_lt: "frc_ready hp s \<Longrightarrow> turn_slot s j < length hp"
  using turn_slot_mem [of hp s j] by (auto simp: frc_ready_def pool_ok_def)

lemma turn_slot_ne:
  assumes "frc_ready hp s" "0 < j" "j < length (fo_pool s)"
  shows "turn_slot s j \<noteq> turn_slot s 0"
proof -
  let ?n = "length (fo_pool s)"
  have i: "fo_idx s < ?n" "distinct (fo_pool s)" using assms(1) by (simp_all add: frc_ready_def pool_ok_def)
  have "(fo_idx s + j) mod ?n \<noteq> fo_idx s"
  proof
    assume "(fo_idx s + j) mod ?n = fo_idx s"
    then have "(fo_idx s + j) mod ?n = (fo_idx s + 0) mod ?n" using i(1) by simp
    then have "?n dvd j" by (simp only: mod_eq_dvd_iff_nat [OF add_left_mono [OF le0]]) simp
    then show False using assms(2,3) by (simp add: nat_dvd_not_less)
  qed
  moreover have "(fo_idx s + j) mod ?n < ?n" using i(1) by (intro mod_less_divisor) auto
  ultimately show ?thesis using i by (simp add: turn_slot_def nth_eq_iff_index_eq)
qed

text \<open>One synthetic frame: the next slot, and nothing else, is written.\<close>

lemma synthesize_ok:
  assumes "frc_ready hp s"
  obtains hp' s' where "synthesize env prev cur ph ts (hp, s) = Some (turn_slot s 0, hp', s')"
    "frc_ready hp' s'" "length hp' = length hp" "\<forall>r<length hp. r \<noteq> turn_slot s 0 \<longrightarrow> hp' ! r = hp ! r"
    "stamp hp' (turn_slot s 0) = ts" "gf_planes (hp' ! turn_slot s 0) = fe_interp env (fo_median s) (hp ! prev) (hp ! cur) ph"
    "s' = s\<lparr>fo_idx := (fo_idx s + 1) mod length (fo_pool s), fo_frames := fo_frames s + 1\<rparr>"
    "\<And>j. turn_slot s' j = turn_slot s (Suc j)"
proof -
  have i: "fo_idx s < length (fo_pool s)" "fo_buffers s" using assms by (simp_all add: frc_ready_def)
  let ?slot = "fo_pool s ! fo_idx s"
  have sl: "turn_slot s 0 = ?slot" using i by (simp add: turn_slot_def)
  have lt: "?slot < length hp" using turn_slot_lt [OF assms, of 0] by (simp add: sl)
  let ?hp = "write_frame ?slot (fe_interp env (fo_median s) (hp ! prev) (hp ! cur) ph) (gf_t_ingest_ns (hp ! cur)) ts hp"
  let ?s = "s\<lparr>fo_idx := (fo_idx s + 1) mod length (fo_pool s), fo_frames := fo_frames s + 1\<rparr>"
  have "synthesize env prev cur ph ts (hp, s) = Some (turn_slot s 0, ?hp, ?s)"
    using i by (simp add: synthesize_def sl Let_def)
  moreover have "frc_ready ?hp ?s"
    using assms i by (auto simp: frc_ready_def pool_ok_def write_frame_def intro!: mod_less_divisor)
  moreover have "turn_slot ?s j = turn_slot s (Suc j)" for j
    by (simp add: turn_slot_def mod_add_left_eq)
  ultimately show thesis
    using that lt by (simp add: sl write_frame_def stamp_def)
qed

section \<open>The frames of a uniform bracket\<close>

lemma emit_ticks_ok:
  assumes "frc_ready hp s" "cur < length hp" "cur \<notin> set (fo_pool s)" "length ts < length (fo_pool s)"
  shows "\<exists>outs hp' s'. emit_ticks env prev cur ts (hp, s) = Some (outs, hp', s') \<and> frc_ready hp' s' \<and> length hp' = length hp \<and>
    map (stamp hp') outs = map tk_ts ts \<and>
    (\<forall>r<length hp. r \<noteq> cur \<longrightarrow> (\<forall>j<length ts. r \<noteq> turn_slot s j) \<longrightarrow> hp' ! r = hp ! r) \<and>
    fo_pool s' = fo_pool s \<and> fo_params s' = fo_params s \<and> fo_grid s' = fo_grid s \<and> fo_src_prev_ts s' = fo_src_prev_ts s \<and>
    fo_grid_dropped s' = fo_grid_dropped s \<and> fo_burst s' = fo_burst s"
  using assms
proof (induction ts arbitrary: hp s)
  case Nil
  then show ?case by simp
next
  case (Cons t ts)
  show ?case
  proof (cases "ts = [] \<and> tk_phase t \<ge> kPassHi")
    case True
    then show ?thesis using Cons.prems by (auto simp: restamp_def stamp_def frc_ready_def pool_ok_def)
  next
    case False
    obtain hp1 s1 where 1: "synthesize env prev cur (tk_phase t) (tk_ts t) (hp, s) = Some (turn_slot s 0, hp1, s1)"
      "frc_ready hp1 s1" "length hp1 = length hp" "\<forall>r<length hp. r \<noteq> turn_slot s 0 \<longrightarrow> hp1 ! r = hp ! r"
      "stamp hp1 (turn_slot s 0) = tk_ts t"
      and s1: "s1 = s\<lparr>fo_idx := (fo_idx s + 1) mod length (fo_pool s), fo_frames := fo_frames s + 1\<rparr>"
      and ts1: "\<And>j. turn_slot s1 j = turn_slot s (Suc j)"
      by (rule synthesize_ok [OF Cons.prems(1), of env prev cur "tk_phase t" "tk_ts t"]) (rule that)
    have "length ts < length (fo_pool s1)" "cur < length hp1" "cur \<notin> set (fo_pool s1)"
      using Cons.prems 1(3) by (simp_all add: s1)
    then obtain outs hp2 s2 where 2: "emit_ticks env prev cur ts (hp1, s1) = Some (outs, hp2, s2)" "frc_ready hp2 s2"
      "length hp2 = length hp1" "map (stamp hp2) outs = map tk_ts ts"
      "\<forall>r<length hp1. r \<noteq> cur \<longrightarrow> (\<forall>j<length ts. r \<noteq> turn_slot s1 j) \<longrightarrow> hp2 ! r = hp1 ! r"
      and s2: "fo_pool s2 = fo_pool s1" "fo_params s2 = fo_params s1" "fo_grid s2 = fo_grid s1"
      "fo_src_prev_ts s2 = fo_src_prev_ts s1" "fo_grid_dropped s2 = fo_grid_dropped s1" "fo_burst s2 = fo_burst s1"
      using Cons.IH [OF 1(2)] by blast
    have ne: "turn_slot s 0 \<noteq> cur" using turn_slot_mem [OF Cons.prems(1)] Cons.prems(3) by metis
    have "\<forall>j<length ts. turn_slot s 0 \<noteq> turn_slot s1 j"
      using turn_slot_ne [OF Cons.prems(1)] Cons.prems(4) by (auto simp: ts1) (metis Suc_lessD Suc_mono less_trans_Suc zero_less_Suc not_less_eq)
    then have "hp2 ! turn_slot s 0 = hp1 ! turn_slot s 0"
      using 2(5) turn_slot_lt [OF Cons.prems(1), of 0] 1(3) ne by simp
    then have st: "map (stamp hp2) (turn_slot s 0 # outs) = map tk_ts (t # ts)" using 2(4) 1(5) by (simp add: stamp_def)
    have "hp2 ! r = hp ! r" if "r < length hp" "r \<noteq> cur" "\<forall>j<length (t # ts). r \<noteq> turn_slot s j" for r
    proof -
      have "r \<noteq> turn_slot s 0" "\<forall>j<length ts. r \<noteq> turn_slot s1 j" using that(3) by (auto simp: ts1)
      then show ?thesis using 1(3,4) 2(5) that(1,2) by simp
    qed
    moreover have "emit_ticks env prev cur (t # ts) (hp, s) = Some (turn_slot s 0 # outs, hp2, s2)"
      using False 1(1) 2(1) by auto
    ultimately show ?thesis using 1(3) 2(2,3) s2 st
      by (intro exI [of _ "turn_slot s 0 # outs"] exI [of _ hp2] exI [of _ s2] conjI) (simp_all add: s1)
  qed
qed


section \<open>What it writes of other frames\<close>

text \<open>The operator is one of the other stages of a filter before it: of the frames that are not its own it writes
  the capture time and nothing else, as the environment of \<open>stage_trace\<close> asks.\<close>

definition restamps :: "nat list \<Rightarrow> gpu_heap \<Rightarrow> gpu_heap \<Rightarrow> bool" where
  "restamps pool hp hp' \<longleftrightarrow> length hp \<le> length hp' \<and> (\<forall>r<length hp. r \<notin> set pool \<longrightarrow> restamped (hp ! r) (hp' ! r))"

lemma restamps_refl [simp]: "restamps pool hp hp"
  by (simp add: restamps_def)

lemma restamps_trans: "restamps pool hp hp1 \<Longrightarrow> restamps pool hp1 hp2 \<Longrightarrow> restamps pool hp hp2"
  unfolding restamps_def by (meson le_trans less_le_trans restamped_trans)

lemma restamp_restamps: "restamps pool hp (restamp r ts hp)"
  unfolding restamps_def
proof (intro conjI allI impI)
  fix q
  assume "q < length hp"
  then show "restamped (hp ! q) (restamp r ts hp ! q)"
    by (cases "q = r") (simp_all add: restamp_def restamped_def)
qed (simp add: restamp_def)

lemma synthesize_restamps:
  assumes "synthesize env prev cur ph ts (hp, s) = Some (out, hp', s')"
  shows "restamps (fo_pool s) hp hp' \<and> fo_pool s' = fo_pool s"
proof -
  have i: "fo_idx s < length (fo_pool s)" and s': "fo_pool s' = fo_pool s"
    and hp': "\<exists>p i c. hp' = write_frame (fo_pool s ! fo_idx s) p i c hp"
    using assms by (auto simp: synthesize_def Let_def split: if_splits)
  have "restamped (hp ! r) (hp' ! r)" if "r \<notin> set (fo_pool s)" for r
  proof -
    have "fo_pool s ! fo_idx s \<noteq> r" using that i nth_mem by blast
    then show ?thesis using hp' by (auto simp: write_frame_def)
  qed
  then show ?thesis using s' hp' by (auto simp: restamps_def write_frame_def)
qed

lemma emit_ticks_restamps:
  "emit_ticks env prev cur ts (hp, s) = Some (outs, hp', s') \<Longrightarrow> restamps (fo_pool s) hp hp' \<and> fo_pool s' = fo_pool s"
proof (induction ts arbitrary: hp s outs)
  case Nil
  then show ?case by simp
next
  case (Cons t ts)
  show ?case
  proof (cases "ts = [] \<and> tk_phase t \<ge> kPassHi")
    case True
    then show ?thesis using Cons.prems by (auto simp: restamp_restamps)
  next
    case False
    then obtain out hp1 s1 outs1 where 1: "synthesize env prev cur (tk_phase t) (tk_ts t) (hp, s) = Some (out, hp1, s1)"
      "emit_ticks env prev cur ts (hp1, s1) = Some (outs1, hp', s')"
      using Cons.prems by (auto simp: Option.bind_eq_Some_conv split: if_splits)
    show ?thesis using synthesize_restamps [OF 1(1)] Cons.IH [OF 1(2)] restamps_trans by metis
  qed
qed

lemma frc_ensure_restamps:
  assumes "frc_ensure env w h (hp, s) = Inr (hp1, s1)" "restamps (fo_pool s1) hp1 hp'"
  shows "restamps (fo_pool s) hp hp'"
proof (cases "fo_inited s")
  case True
  then show ?thesis using assms by (simp add: frc_ensure_def)
next
  case False
  then obtain n where a: "alloc_pool n w h hp = (fo_pool s1, hp1)"
    using assms(1) by (auto simp: frc_ensure_def need_def ebind_def Let_def split: option.splits if_splits prod.splits)
  note p = alloc_pool_props [OF a]
  have "restamped (hp ! r) (hp' ! r)" if "r < length hp" for r
  proof -
    have "r \<notin> set (fo_pool s1)" "r < length hp1" "hp1 ! r = hp ! r" using that p(3-5) by auto
    then show ?thesis using assms(2) by (metis restamps_def)
  qed
  then show ?thesis using assms(2) p(4) by (auto simp: restamps_def)
qed

lemma frc_restamps_only:
  assumes "frc_compute env (Some cur) (hp, s) = Some (Inr (outs, hp', s'))"
  shows "restamps (fo_pool s) hp hp'"
proof -
  obtain hp1 s1 where e: "frc_ensure env (gf_width (hp ! cur)) (gf_height (hp ! cur)) (hp, s) = Inr (hp1, s1)"
    using assms by (auto simp: frc_compute_def split: sum.splits)
  have uni: "restamps (fo_pool s1) hp1 hp2" if "compute_uniform env prev cur (hp1, s1) = Some (Inr (outs, hp2, s2))" for prev hp2 s2
    using that by (auto simp: compute_uniform_def Let_def Option.bind_eq_Some_conv split: if_splits option.splits dest!: emit_ticks_restamps)
  have mid: "restamps (fo_pool s1) hp1 hp2" if "frc_mid env prev cur (hp1, s1) = Some (Inr (outs, hp2, s2))" for prev hp2 s2
    using that by (auto simp: frc_mid_def Let_def Option.bind_eq_Some_conv split: if_splits option.splits dest!: synthesize_restamps)
  have "restamps (fo_pool s1) hp1 hp'"
    using assms uni mid by (auto simp: frc_compute_def e split: option.splits if_splits)
  then show ?thesis by (rule frc_ensure_restamps [OF e])
qed

text \<open>One of its calls is a step of the environment of an upstream stage.\<close>

lemma frc_is_environment:
  assumes "stage_trace step pool x st n (hp, s)" "frc_compute env (Some cur) (hp, f) = Some (Inr (outs, hp', f'))"
    and "x < length hp" "set (pool s) \<subseteq> {..<length hp}" "insert x (set (pool s)) \<inter> set (fo_pool f) = {}"
  shows "stage_trace step pool x st n (hp', s)"
  using frc_restamps_only [OF assms(2)] assms(3-5) by (intro trace_env [OF assms(1)]) (auto simp: restamps_def)

section \<open>Uniform mode follows the grid\<close>

definition sources :: "gpu_heap \<Rightarrow> frc_op \<Rightarrow> nat list \<Rightarrow> bool" where
  "sources hp s cs \<longleftrightarrow> distinct cs \<and> set cs \<subseteq> {..<length hp} \<and> set cs \<inter> set (fo_pool s) = {}"

lemma stamps_cong: "\<forall>r\<in>set cs. hp' ! r = hp ! r \<Longrightarrow> map (stamp hp') cs = map (stamp hp) cs"
  by (simp add: stamp_def)

lemma uniform_step:
  assumes ready: "frc_ready hp s" and prev: "fo_prev s = Some p" and src: "sources hp s (c # cs)"
    and grid: "grid_ok (fo_grid s) (stamp hp c)" and order: "fo_src_prev_ts s \<noteq> 0" "fo_src_prev_ts s < stamp hp c"
    and burst: "0 < fo_burst s" "fo_burst s < 16" "unat (fo_burst s) < length (fo_pool s)"
    and flow: "\<forall>a b. fe_flow env a b = None"
  shows "\<exists>out g d outs hp' s'. ticks (fo_grid s) (fo_src_prev_ts s) (stamp hp c) (uint (fo_burst s)) (8 * gr_interval_ns (fo_grid s))
      (Some (fo_grid_dropped s)) = Some (out, g, Some d) \<and>
    frc_compute env (Some c) (hp, s) = Some (Inr (outs, hp', s')) \<and> map (stamp hp') outs = map tk_ts out \<and>
    frc_ready hp' s' \<and> fo_prev s' = Some c \<and> sources hp' s' cs \<and> map (stamp hp') cs = map (stamp hp) cs \<and>
    fo_src_prev_ts s' = stamp hp c \<and> fo_grid s' = g \<and> fo_grid_dropped s' = d \<and> fo_burst s' = fo_burst s \<and>
    fo_pool s' = fo_pool s \<and> gr_interval_ns g = gr_interval_ns (fo_grid s)"
proof -
  let ?i = "gr_interval_ns (fo_grid s)" and ?b = "uint (fo_burst s)"
  have b0: "0 < ?b" using burst(1) by (simp add: word_less_def)
  obtain out g d where t: "ticks (fo_grid s) (fo_src_prev_ts s) (stamp hp c) ?b (8 * ?i) (Some (fo_grid_dropped s)) = Some (out, g, Some d)"
    and a: "accounts ?i (stamp hp c) (anchored (fo_grid s) (stamp hp c)) (map tk_ts out) g (fo_grid_dropped s) d"
    and len: "length out \<le> nat ?b"
    using ticks_accounts [OF grid order(2) b0] by blast
  have gi: "gr_interval_ns g = ?i" using a by (auto simp: accounts_def)
  define s1 where "s1 = s\<lparr>fo_src_prev_ts := stamp hp c, fo_grid := g, fo_grid_dropped := d\<rparr>"
  have r1: "frc_ready hp s1" using ready by (simp add: s1_def frc_ready_def)
  have pool: "fo_pool s1 = fo_pool s" by (simp add: s1_def)
  have c: "c < length hp" "c \<notin> set (fo_pool s1)" using src by (auto simp: sources_def pool)
  have ln: "length out < length (fo_pool s1)" using len burst(3) by (simp add: pool)
  obtain outs hp2 s2 where e: "emit_ticks env p c out (hp, s1) = Some (outs, hp2, s2)" "frc_ready hp2 s2" "length hp2 = length hp"
    "map (stamp hp2) outs = map tk_ts out" "\<forall>r<length hp. r \<noteq> c \<longrightarrow> (\<forall>j<length out. r \<noteq> turn_slot s1 j) \<longrightarrow> hp2 ! r = hp ! r"
    and s2: "fo_pool s2 = fo_pool s1" "fo_grid s2 = fo_grid s1" "fo_src_prev_ts s2 = fo_src_prev_ts s1"
      "fo_grid_dropped s2 = fo_grid_dropped s1" "fo_burst s2 = fo_burst s1"
    using emit_ticks_ok [OF r1 c ln, of env p] by blast
  have keep: "\<forall>r\<in>set cs. hp2 ! r = hp ! r"
  proof
    fix r assume r: "r \<in> set cs"
    then have "r < length hp" "r \<noteq> c" "r \<notin> set (fo_pool s1)" using src by (auto simp: sources_def pool)
    moreover from this have "\<forall>j<length out. r \<noteq> turn_slot s1 j" using turn_slot_mem [OF r1] by metis
    ultimately show "hp2 ! r = hp ! r" using e(5) by blast
  qed
  have gpos: "gr_interval_ns (fo_grid s) > 0" using grid by (simp add: grid_ok_def)
  have "compute_uniform env p c (hp, s) = Some (Inr (outs, hp2, s2\<lparr>fo_prev := Some c\<rparr>))"
    using order burst(2) t e(1) flow not_le [THEN iffD2, OF order(2)] unfolding compute_uniform_def Let_def prod.case stamp_def [symmetric]
    by (simp add: s1_def)
  then have "frc_compute env (Some c) (hp, s) = Some (Inr (outs, hp2, s2\<lparr>fo_prev := Some c\<rparr>))"
    using ready prev gpos by (simp add: frc_compute_def frc_ensure_def frc_ready_def)
  moreover have "frc_ready hp2 (s2\<lparr>fo_prev := Some c\<rparr>)" using e(2) by (simp add: frc_ready_def)
  moreover have "sources hp2 (s2\<lparr>fo_prev := Some c\<rparr>) cs" using src e(3) s2(1) by (simp add: sources_def pool)
  ultimately show ?thesis using t e(4) stamps_cong [OF keep] s2 gi by (simp add: s1_def)
qed

lemma uniform_run:
  assumes "frc_ready hp s" "fo_prev s = Some p" "sources hp s cs" "0 < gr_interval_ns (fo_grid s)"
    and "\<forall>c\<in>set cs. unat (stamp hp c) + unat (gr_interval_ns (fo_grid s)) < 2 ^ 64"
    and "fo_src_prev_ts s \<noteq> 0" "sorted_wrt (<) (fo_src_prev_ts s # map (stamp hp) cs)"
    and "0 < fo_burst s" "fo_burst s < 16" "unat (fo_burst s) < length (fo_pool s)"
    and "\<forall>a b. fe_flow env a b = None"
  shows "\<exists>ts hp' s'. frc_run env cs (hp, s) = Some (Inr (ts, hp', s')) \<and>
    grid_run (uint (fo_burst s)) (8 * gr_interval_ns (fo_grid s)) (fo_grid s) (fo_src_prev_ts s) (map (stamp hp) cs)
      (fo_grid_dropped s) = Some (ts, fo_grid s', fo_grid_dropped s')"
  using assms(1-10)
proof (induction cs arbitrary: hp s p)
  case (Cons c cs)
  have "grid_ok (fo_grid s) (stamp hp c)" "fo_src_prev_ts s < stamp hp c" using Cons.prems by (simp_all add: grid_ok_def)
  then obtain out g d outs hp1 s1 where
    t: "ticks (fo_grid s) (fo_src_prev_ts s) (stamp hp c) (uint (fo_burst s)) (8 * gr_interval_ns (fo_grid s))
      (Some (fo_grid_dropped s)) = Some (out, g, Some d)"
    and f: "frc_compute env (Some c) (hp, s) = Some (Inr (outs, hp1, s1))" "map (stamp hp1) outs = map tk_ts out"
    and s1: "frc_ready hp1 s1" "fo_prev s1 = Some c" "sources hp1 s1 cs" "map (stamp hp1) cs = map (stamp hp) cs"
      "fo_src_prev_ts s1 = stamp hp c" "fo_grid s1 = g" "fo_grid_dropped s1 = d" "fo_burst s1 = fo_burst s"
      "fo_pool s1 = fo_pool s" "gr_interval_ns g = gr_interval_ns (fo_grid s)"
    using uniform_step [OF Cons.prems(1-3) _ Cons.prems(6) _ Cons.prems(8-10) assms(11)] by blast
  have same: "stamp hp1 r = stamp hp r" if "r \<in> set cs" for r
    using s1(4) that by (metis map_eq_conv)
  have "\<exists>ts hp' s'. frc_run env cs (hp1, s1) = Some (Inr (ts, hp', s')) \<and>
    grid_run (uint (fo_burst s1)) (8 * gr_interval_ns (fo_grid s1)) (fo_grid s1) (fo_src_prev_ts s1) (map (stamp hp1) cs)
      (fo_grid_dropped s1) = Some (ts, fo_grid s', fo_grid_dropped s')"
  proof (rule Cons.IH [OF s1(1-3)])
    show "fo_src_prev_ts s1 \<noteq> 0" using Cons.prems(6,7) s1(5) by auto
    show "sorted_wrt (<) (fo_src_prev_ts s1 # map (stamp hp1) cs)"
      unfolding s1(4,5) using Cons.prems(7) by simp
  qed (use Cons.prems same s1 in auto)
  then obtain ts hp' s' where r: "frc_run env cs (hp1, s1) = Some (Inr (ts, hp', s'))"
    "grid_run (uint (fo_burst s)) (8 * gr_interval_ns (fo_grid s)) g (stamp hp c) (map (stamp hp) cs) d =
      Some (ts, fo_grid s', fo_grid_dropped s')"
    using s1 by auto
  then show ?case using t f by simp
qed simp


section \<open>Start-up\<close>

lemma burst_values: "pipeline_emit_burst env = 1 \<or> pipeline_emit_burst env = 2 \<or> pipeline_emit_burst env = 4"
  by (simp add: pipeline_emit_burst_def split: option.splits)

text \<open>The first frame passes through and readies the pool.\<close>

lemma frc_first:
  assumes "cu_frames_ok (fe_cuda env)" "\<forall>w h g. fe_flow_init env w h g = None" "sources hp (frc_new p) (c # cs)"
  obtains hp' s' where "frc_compute env (Some c) (hp, frc_new p) = Some (Inr ([c], hp', s'))"
    "frc_ready hp' s'" "sources hp' s' (c # cs)" "map (stamp hp') (c # cs) = map (stamp hp) (c # cs)"
    "\<forall>r<length hp. hp' ! r = hp ! r" "fo_prev s' = Some c" "fo_src_prev_ts s' = stamp hp c"
    "fo_grid s' = \<lparr>gr_interval_ns = fp_out_interval_ns p, gr_next_ns = 0\<rparr>" "fo_grid_dropped s' = 0" "fo_params s' = p"
    "0 < fo_burst s'" "fo_burst s' < 16" "unat (fo_burst s') < length (fo_pool s')"
proof -
  let ?b = "pipeline_emit_burst (fe_environ env)"
  obtain pool hp' where a: "alloc_pool (unat (2 * ?b + 6)) (gf_width (hp ! c)) (gf_height (hp ! c)) hp = (pool, hp')"
    by (metis surj_pair)
  note ap = alloc_pool_props [OF a]
  obtain s' where e: "frc_ensure env (gf_width (hp ! c)) (gf_height (hp ! c)) (hp, frc_new p) = Inr (hp', s')"
    and s': "fo_inited s'" "fo_buffers s'" "fo_pool s' = pool" "fo_idx s' = 0" "fo_prev s' = None"
      "fo_grid s' = \<lparr>gr_interval_ns = fp_out_interval_ns p, gr_next_ns = 0\<rparr>" "fo_grid_dropped s' = 0" "fo_params s' = p"
      "fo_burst s' = ?b"
    using assms(1,2) a by (simp add: frc_ensure_def frc_new_def need_def)
  have keep: "\<forall>r\<in>set (c # cs). hp' ! r = hp ! r" using ap(5) assms(3) by (auto simp: sources_def)
  have b: "0 < ?b" "?b < 16" "unat ?b < unat (2 * ?b + 6)" using burst_values [of "fe_environ env"] by auto
  have ready: "frc_ready hp' s'" using s' ap b(3) by (auto simp: frc_ready_def pool_ok_def)
  have src: "sources hp' s' (c # cs)" using assms(3) ap(3,4) s'(3) by (auto simp: sources_def)
  let ?s = "s'\<lparr>fo_prev := Some c, fo_src_prev_ts := gf_capture_ts_ns (hp' ! c)\<rparr>"
  have "frc_compute env (Some c) (hp, frc_new p) = Some (Inr ([c], hp', ?s))"
    using e s'(5) by (simp add: frc_compute_def)
  moreover have "frc_ready hp' ?s" "sources hp' ?s (c # cs)" using ready src by (simp_all add: frc_ready_def sources_def)
  moreover have "fo_src_prev_ts ?s = stamp hp c" using keep by (simp add: stamp_def)
  ultimately show thesis
    using that s' ap(1,5) b stamps_cong [OF keep] by simp
qed

section \<open>Properties\<close>

text \<open>C7 - In uniform mode the operator emits an exactly even stream from an uneven source: on any sources
  with increasing capture times it passes the first frame through, and stamps everything it emits
  after that on the one grid anchored at the second frame with the output interval, in order, every tick up to
  the newest frame emitted once or counted in its counter of dropped ticks.\<close>

theorem frc_uniform_cadence:
  assumes "cu_frames_ok (fe_cuda env)" "\<forall>w h g. fe_flow_init env w h g = None" "\<forall>a b. fe_flow env a b = None"
    and "sources hp (frc_new p) (c # cs)" "cs \<noteq> []" "stamp hp c \<noteq> 0" "sorted_wrt (<) (map (stamp hp) (c # cs))"
    and "0 < fp_out_interval_ns p" "\<forall>r\<in>set cs. unat (stamp hp r) + unat (fp_out_interval_ns p) < 2 ^ 64"
  shows "\<exists>ks N hp' s'.
    frc_run env (c # cs) (hp, frc_new p) = Some (Inr (
      stamp hp c # map (\<lambda>k. of_nat (unat (stamp hp (hd cs)) + k * unat (fp_out_interval_ns p))) ks, hp', s')) \<and>
    sorted_wrt (<) ks \<and> set ks \<subseteq> {..<N} \<and> fo_grid_dropped s' = of_nat (N - length ks) \<and>
    unat (stamp hp (last cs)) < unat (stamp hp (hd cs)) + N * unat (fp_out_interval_ns p) \<and>
    unat (stamp hp (hd cs)) + N * unat (fp_out_interval_ns p) \<le> unat (stamp hp (last cs)) + unat (fp_out_interval_ns p)"
proof -
  let ?i = "fp_out_interval_ns p"
  obtain hp1 s1 where 1: "frc_compute env (Some c) (hp, frc_new p) = Some (Inr ([c], hp1, s1))"
    "frc_ready hp1 s1" "sources hp1 s1 (c # cs)" "map (stamp hp1) (c # cs) = map (stamp hp) (c # cs)"
    "fo_prev s1 = Some c" "fo_src_prev_ts s1 = stamp hp c" "fo_grid s1 = \<lparr>gr_interval_ns = ?i, gr_next_ns = 0\<rparr>"
    "fo_grid_dropped s1 = 0" "0 < fo_burst s1" "fo_burst s1 < 16" "unat (fo_burst s1) < length (fo_pool s1)"
    by (rule frc_first [OF assms(1,2,4)]) (rule that)
  have st: "map (stamp hp1) cs = map (stamp hp) cs" "stamp hp1 c = stamp hp c" using 1(4) by simp_all
  have src: "sources hp1 s1 cs" using 1(3) by (simp add: sources_def)
  have "unat (stamp hp1 r) + unat ?i < 2 ^ 64" if "r \<in> set cs" for r
    using assms(9) that st(1) by (metis map_eq_conv)
  then obtain ts hp2 s2 where r: "frc_run env cs (hp1, s1) = Some (Inr (ts, hp2, s2))"
    and g: "grid_run (uint (fo_burst s1)) (8 * ?i) \<lparr>gr_interval_ns = ?i, gr_next_ns = 0\<rparr> (stamp hp c) (map (stamp hp) cs) 0 =
      Some (ts, fo_grid s2, fo_grid_dropped s2)"
    using uniform_run [OF 1(2,5) src _ _ _ _ 1(9-11) assms(3)] assms(6-8) unfolding st 1(6-8) by auto
  have b: "0 < uint (fo_burst s1)" using 1(9) by (simp add: word_less_def)
  have bound: "\<forall>x\<in>set (map (stamp hp) cs). unat x + unat ?i < 2 ^ 64" using assms(9) by auto
  obtain stamps g' d' ks N where s: "grid_run (uint (fo_burst s1)) (8 * ?i) \<lparr>gr_interval_ns = ?i, gr_next_ns = 0\<rparr> (stamp hp c) (map (stamp hp) cs) 0 =
      Some (stamps, g', d')" "stamps = map (\<lambda>k. of_nat (unat (hd (map (stamp hp) cs)) + k * unat ?i)) ks"
    "sorted_wrt (<) ks" "set ks \<subseteq> {..<N}" "d' = 0 + of_nat (N - length ks)"
    "unat (last (map (stamp hp) cs)) < unat (hd (map (stamp hp) cs)) + N * unat ?i"
    "unat (hd (map (stamp hp) cs)) + N * unat ?i \<le> unat (last (map (stamp hp) cs)) + unat ?i"
    using frc_grid_cadence [OF b assms(8) _ _ bound, of "stamp hp c" "8 * ?i" 0] assms(5,7) by auto
  have hl: "hd (map (stamp hp) cs) = stamp hp (hd cs)" "last (map (stamp hp) cs) = stamp hp (last cs)"
    using assms(5) by (simp_all add: hd_map last_map)
  have "ts = stamps" "fo_grid_dropped s2 = d'" using g s(1) by simp_all
  then show ?thesis using s(2-7) 1(1) r st(2) unfolding hl
    by (intro exI [of _ ks] exI [of _ N] exI [of _ hp2] exI [of _ s2]) simp
qed


section \<open>Up-conversion\<close>

text \<open>The source frames and a midpoint between each two.\<close>

fun upconverted :: "u64 \<Rightarrow> u64 list \<Rightarrow> u64 list" where
  "upconverted a [] = []"
| "upconverted a (b # ts) = mid_stamp a b # b # upconverted b ts"

lemma mid_step:
  assumes ready: "frc_ready hp s" and prev: "fo_prev s = Some p" and src: "sources hp s (p # c # cs)"
    and mode: "gr_interval_ns (fo_grid s) = 0" "fp_rate_mult (fo_params s) \<ge> 2" and flow: "\<forall>a b. fe_flow env a b = None"
  shows "\<exists>outs hp' s'. frc_compute env (Some c) (hp, s) = Some (Inr (outs, hp', s')) \<and>
    map (stamp hp') outs = [mid_stamp (stamp hp p) (stamp hp c), stamp hp c] \<and>
    frc_ready hp' s' \<and> fo_prev s' = Some c \<and> sources hp' s' (c # cs) \<and> map (stamp hp') (c # cs) = map (stamp hp) (c # cs) \<and>
    gr_interval_ns (fo_grid s') = 0 \<and> fo_params s' = fo_params s"
proof -
  let ?m = "mid_stamp (stamp hp p) (stamp hp c)"
  obtain hp1 s1 where 1: "synthesize env p c (flt (fp_phase (fo_params s))) ?m (hp, s) = Some (turn_slot s 0, hp1, s1)"
    "frc_ready hp1 s1" "length hp1 = length hp" "\<forall>r<length hp. r \<noteq> turn_slot s 0 \<longrightarrow> hp1 ! r = hp ! r"
    "stamp hp1 (turn_slot s 0) = ?m"
    and s1: "s1 = s\<lparr>fo_idx := (fo_idx s + 1) mod length (fo_pool s), fo_frames := fo_frames s + 1\<rparr>"
    by (rule synthesize_ok [OF ready, of env p c "flt (fp_phase (fo_params s))" ?m]) (rule that)
  have keep: "\<forall>r\<in>set (c # cs). hp1 ! r = hp ! r"
  proof
    fix r assume r: "r \<in> set (c # cs)"
    then have "r < length hp" "r \<notin> set (fo_pool s)" using src by (auto simp: sources_def)
    moreover from this have "r \<noteq> turn_slot s 0" using turn_slot_mem [OF ready] by metis
    ultimately show "hp1 ! r = hp ! r" using 1(4) by blast
  qed
  let ?s = "s1\<lparr>fo_prev := Some c, fo_src_prev_ts := stamp hp c\<rparr>"
  have "frc_compute env (Some c) (hp, s) = Some (Inr ([turn_slot s 0, c], hp1, ?s))"
    using ready prev mode flow 1(1)
    by (simp add: frc_compute_def frc_ensure_def frc_ready_def frc_mid_def Let_def flip: stamp_def)
  moreover have "map (stamp hp1) [turn_slot s 0, c] = [?m, stamp hp c]" using 1(5) keep by (simp add: stamp_def)
  moreover have "frc_ready hp1 ?s" using 1(2) by (simp add: frc_ready_def)
  moreover have "sources hp1 ?s (c # cs)" using src 1(3) by (simp add: sources_def s1)
  ultimately show ?thesis using stamps_cong [OF keep] mode(1) by (simp add: s1)
qed

lemma mid_run:
  assumes "frc_ready hp s" "fo_prev s = Some p" "sources hp s (p # cs)" "gr_interval_ns (fo_grid s) = 0"
    "fp_rate_mult (fo_params s) \<ge> 2" "\<forall>a b. fe_flow env a b = None"
  shows "\<exists>hp' s'. frc_run env cs (hp, s) = Some (Inr (upconverted (stamp hp p) (map (stamp hp) cs), hp', s'))"
  using assms(1-5)
proof (induction cs arbitrary: hp s p)
  case (Cons c cs)
  obtain outs hp1 s1 where f: "frc_compute env (Some c) (hp, s) = Some (Inr (outs, hp1, s1))"
    "map (stamp hp1) outs = [mid_stamp (stamp hp p) (stamp hp c), stamp hp c]"
    and s1: "frc_ready hp1 s1" "fo_prev s1 = Some c" "sources hp1 s1 (c # cs)"
      "map (stamp hp1) (c # cs) = map (stamp hp) (c # cs)" "gr_interval_ns (fo_grid s1) = 0" "fo_params s1 = fo_params s"
    using mid_step [OF Cons.prems(1-5) assms(6)] by (elim exE conjE) (rule that)
  have "fp_rate_mult (fo_params s1) \<ge> 2" using Cons.prems(5) s1(6) by simp
  then obtain hp' s' where r: "frc_run env cs (hp1, s1) = Some (Inr (upconverted (stamp hp1 c) (map (stamp hp1) cs), hp', s'))"
    using Cons.IH [OF s1(1-3,5)] by blast
  have st: "stamp hp1 c = stamp hp c" "map (stamp hp1) cs = map (stamp hp) cs" using s1(4) by simp_all
  show ?case using f r unfolding st by simp
qed simp

lemma mid_stamp_even:
  assumes "a \<noteq> 0" "a < b"
  shows "unat (mid_stamp a b) = unat a + (unat b - unat a + 1) div 2"
proof -
  have ab: "unat a < unat b" using assms(2) by (simp add: word_less_nat_alt)
  have d: "unat (b - a) = unat b - unat a" using unat_sub [OF less_imp_le [OF assms(2)]] .
  have h: "unat ((b - a) div 2) = (unat b - unat a) div 2" by (simp add: unat_div_distrib d)
  have "(b - a) div 2 \<le> b" unfolding word_le_nat_alt h by linarith
  then have "unat (b - (b - a) div 2) = unat b - (unat b - unat a) div 2" by (simp add: unat_sub h)
  also have "\<dots> = unat a + (unat b - unat a + 1) div 2" using ab by linarith
  finally show ?thesis using assms by (simp add: mid_stamp_def)
qed

fun evenly_between :: "u64 \<Rightarrow> u64 list \<Rightarrow> u64 list \<Rightarrow> bool" where
  "evenly_between a [] out \<longleftrightarrow> out = []"
| "evenly_between a (b # ts) out \<longleftrightarrow>
     (\<exists>m rest. out = m # b # rest \<and> unat m = unat a + (unat b - unat a + 1) div 2 \<and> evenly_between b ts rest)"

lemma upconverted_even:
  "a \<noteq> 0 \<Longrightarrow> sorted_wrt (<) (a # ts) \<Longrightarrow> evenly_between a ts (upconverted a ts)"
proof (induction ts arbitrary: a)
  case (Cons b ts)
  have "b \<noteq> 0" using Cons.prems by (auto simp: word_less_nat_alt)
  then show ?case using Cons mid_stamp_even [of a b] by simp
qed simp

text \<open>C14 - Up-conversion doubles the rate on an even timeline: on sources with increasing capture times
  the operator emits every real frame with its own capture time and, between each two, one synthetic
  frame stamped exactly halfway, to the nanosecond.\<close>

theorem frc_upconvert_timeline:
  assumes "cu_frames_ok (fe_cuda env)" "\<forall>w h g. fe_flow_init env w h g = None" "\<forall>a b. fe_flow env a b = None"
    and "sources hp (frc_new p) (c # cs)" "stamp hp c \<noteq> 0" "sorted_wrt (<) (map (stamp hp) (c # cs))"
    and "fp_out_interval_ns p = 0" "2 \<le> fp_rate_mult p"
  shows "\<exists>out hp' s'. frc_run env (c # cs) (hp, frc_new p) = Some (Inr (stamp hp c # out, hp', s')) \<and>
    evenly_between (stamp hp c) (map (stamp hp) cs) out"
proof -
  obtain hp1 s1 where 1: "frc_compute env (Some c) (hp, frc_new p) = Some (Inr ([c], hp1, s1))"
    "frc_ready hp1 s1" "sources hp1 s1 (c # cs)" "map (stamp hp1) (c # cs) = map (stamp hp) (c # cs)"
    "fo_prev s1 = Some c" "fo_grid s1 = \<lparr>gr_interval_ns = fp_out_interval_ns p, gr_next_ns = 0\<rparr>" "fo_params s1 = p"
    by (rule frc_first [OF assms(1,2,4)]) (rule that)
  have st: "map (stamp hp1) cs = map (stamp hp) cs" "stamp hp1 c = stamp hp c" using 1(4) by simp_all
  obtain hp' s' where r: "frc_run env cs (hp1, s1) = Some (Inr (upconverted (stamp hp1 c) (map (stamp hp1) cs), hp', s'))"
    using mid_run [OF 1(2,5,3) _ _ assms(3)] 1(6,7) assms(7,8) by auto
  have "evenly_between (stamp hp c) (map (stamp hp) cs) (upconverted (stamp hp c) (map (stamp hp) cs))"
    using assms(5,6) by (intro upconverted_even) simp_all
  then show ?thesis using 1(1) r unfolding st by (auto simp: st)
qed


section \<open>Witnesses\<close>

definition demo_frc_env :: frc_env where
  "demo_frc_env = \<lparr>fe_environ = [''SPARK_FRC'' \<mapsto> ''3''], fe_cuda = re_cuda demo_resize_env, fe_flow_init = (\<lambda>_ _ _. None),
     fe_flow = (\<lambda>_ _. None), fe_interp = (\<lambda>_ _ f _. gf_planes f)\<rparr>"

definition demo_frame :: "u64 \<Rightarrow> gpu_frame" where
  "demo_frame ts = (gpu_frame_alloc 2 1)\<lparr>gf_capture_ts_ns := ts\<rparr>"

definition demo_frames :: gpu_heap where
  "demo_frames = [demo_frame 1000, demo_frame 1040, demo_frame 1090, demo_frame 1120]"

lemma demo_frames_props:
  "sources demo_frames (frc_new p) [0, 1, 2, 3]" "stamp demo_frames 0 = 1000" "stamp demo_frames 1 = 1040"
  "stamp demo_frames 2 = 1090" "stamp demo_frames 3 = 1120" "cu_frames_ok (fe_cuda demo_frc_env)"
  "\<forall>w h g. fe_flow_init demo_frc_env w h g = None" "\<forall>a b. fe_flow demo_frc_env a b = None"
  by (simp_all add: sources_def demo_frames_def frc_new_def stamp_def demo_frame_def demo_frc_env_def demo_resize_env_def eval_nat_numeral)

theorem frc_uniform_cadence_witness:
  "\<exists>ks N hp' s'.
    frc_run demo_frc_env [0, 1, 2, 3] (demo_frames, frc_new (default_frc_params\<lparr>fp_out_interval_ns := 20\<rparr>)) =
      Some (Inr (1000 # map (\<lambda>k. of_nat (1040 + k * 20)) ks, hp', s')) \<and>
    sorted_wrt (<) ks \<and> set ks \<subseteq> {..<N} \<and> fo_grid_dropped s' = of_nat (N - length ks) \<and>
    1120 < 1040 + N * 20 \<and> 1040 + N * 20 \<le> 1120 + (20 :: nat)"
  using frc_uniform_cadence [of demo_frc_env demo_frames "default_frc_params\<lparr>fp_out_interval_ns := 20\<rparr>" 0 "[1, 2, 3]"]
    demo_frames_props by simp

theorem frc_upconvert_timeline_witness:
  "\<exists>out hp' s'.
    frc_run demo_frc_env [0, 1, 2, 3] (demo_frames, frc_new (default_frc_params\<lparr>fp_rate_mult := 2\<rparr>)) = Some (Inr (1000 # out, hp', s')) \<and>
    evenly_between 1000 [1040, 1090, 1120] out"
  using frc_upconvert_timeline [of demo_frc_env demo_frames "default_frc_params\<lparr>fp_rate_mult := 2\<rparr>" 0 "[1, 2, 3]"]
    demo_frames_props by (simp add: default_frc_params_def)

text \<open>Stopping frees the buffers and leaves the flag that they exist: the next synthetic frame uses freed
  memory.\<close>

lemma frc_restart_freed:
  "frc_ready hp s \<Longrightarrow> fo_prev s = Some p \<Longrightarrow> gr_interval_ns (fo_grid s) = 0 \<Longrightarrow> \<forall>a b. fe_flow env a b = None \<Longrightarrow>
   frc_compute env (Some c) (hp, frc_stop s) = None"
  by (simp add: frc_compute_def frc_ensure_def frc_ready_def frc_stop_def frc_mid_def synthesize_def Let_def)

end
