(* ===== verification/Fp_Arith.thy ===== *)
theory Fp_Arith
  imports C_Num
begin

text \<open>
  Arithmetic of doubles that may be infinite or NaN, and the conversions to integers, which are undefined
  out of range: \<open>None\<close>.
\<close>

definition fp_add :: "fp \<Rightarrow> fp \<Rightarrow> fp" where
  "fp_add a b = (case (a, b) of
     (Fin x, Fin y) \<Rightarrow> fp_of_rat (x + y) | (Fin _, Inf n) \<Rightarrow> Inf n | (Inf n, Fin _) \<Rightarrow> Inf n
   | (Inf m, Inf n) \<Rightarrow> if m = n then Inf m else NaN | _ \<Rightarrow> NaN)"

definition fp_sub :: "fp \<Rightarrow> fp \<Rightarrow> fp" where "fp_sub a b = fp_add a (fp_neg b)"

definition fp_mul :: "fp \<Rightarrow> fp \<Rightarrow> fp" where
  "fp_mul a b = (case (a, b) of
     (Fin x, Fin y) \<Rightarrow> fp_of_rat (x * y)
   | (Fin x, Inf n) \<Rightarrow> if x = 0 then NaN else Inf (n \<noteq> (x < 0))
   | (Inf n, Fin x) \<Rightarrow> if x = 0 then NaN else Inf (n \<noteq> (x < 0))
   | (Inf m, Inf n) \<Rightarrow> Inf (m \<noteq> n) | _ \<Rightarrow> NaN)"

text \<open>The divisor is not zero where the program divides.\<close>

definition fp_div :: "fp \<Rightarrow> fp \<Rightarrow> fp" where
  "fp_div a b = (case (a, b) of
     (Fin x, Fin y) \<Rightarrow> fp_of_rat (x / y) | (Fin _, Inf _) \<Rightarrow> Fin 0 | (Inf n, Fin x) \<Rightarrow> Inf (n \<noteq> (x < 0)) | _ \<Rightarrow> NaN)"

definition finite_fp :: "fp \<Rightarrow> rat option" where
  "finite_fp x = (case x of Fin q \<Rightarrow> Some q | _ \<Rightarrow> None)"

text \<open>Truncation towards zero.\<close>

definition trunc_int :: "rat \<Rightarrow> int" where
  "trunc_int q = (if q < 0 then - \<lfloor>- q\<rfloor> else \<lfloor>q\<rfloor>)"

definition to_u64 :: "fp \<Rightarrow> u64 option" where
  "to_u64 x = (case x of Fin q \<Rightarrow> let z = trunc_int q in if 0 \<le> z \<and> z < 2 ^ 64 then Some (word_of_int z) else None | _ \<Rightarrow> None)"

definition to_i64 :: "fp \<Rightarrow> int option" where
  "to_i64 x = (case x of Fin q \<Rightarrow> let z = trunc_int q in if - (2 ^ 63) \<le> z \<and> z < 2 ^ 63 then Some z else None | _ \<Rightarrow> None)"

definition to_u32 :: "fp \<Rightarrow> u32 option" where
  "to_u32 x = (case x of Fin q \<Rightarrow> let z = trunc_int q in if 0 \<le> z \<and> z < 2 ^ 32 then Some (word_of_int z) else None | _ \<Rightarrow> None)"

lemma trunc_int_of_int [simp]: "trunc_int (of_int z) = z"
  by (simp add: trunc_int_def flip: of_int_minus)

lemma trunc_int_bounds:
  assumes "0 \<le> q" "q \<le> of_int z"
  shows "0 \<le> trunc_int q \<and> trunc_int q \<le> z"
  using assms by (auto simp: trunc_int_def floor_le_iff)

lemma fp_of_int:
  assumes "\<bar>z\<bar> \<le> 9007199254740992"
  shows "fp_of_rat (of_int z) = Fin (of_int z)"
proof (cases "0 \<le> z")
  case True
  then show ?thesis using fp_of_nat [of "nat z"] assms by (simp add: of_nat_nat)
next
  case False
  have "dbl (of_int (- z)) = of_int (- z)" using dbl_of_nat [of "nat (- z)"] False assms by (simp add: of_nat_nat)
  then have "dbl (of_int z) = of_int z"
    using False by (simp add: dbl_def round_sig_def Let_def case_prod_beta)
  moreover have "\<bar>of_int z :: rat\<bar> < 2 ^ 1024"
  proof -
    have "\<bar>of_int z :: rat\<bar> \<le> of_int 9007199254740992" using assms by (simp only: of_int_le_iff flip: of_int_abs)
    also have "\<dots> < 2 ^ 1024" by simp
    finally show ?thesis .
  qed
  ultimately show ?thesis by (simp add: fp_of_rat_def Let_def not_le)
qed

end
