(* ===== verification/Pipeline.thy ===== *)
theory Pipeline
  imports Fp_Arith Frc_Op Rx_Op Tx_Op
begin

text \<open>
  The composition of the processing pipeline, \<open>engine/apps/st2110_pipeline.cpp\<close>: from the environment to the
  parameters of the receive and transmit operators and the chain of stages between unpack and pack.
  A conversion of a double that is undefined in C++, and a rate that is not finite, are \<open>None\<close>.  Logging
  is not modelled; building an operator is its constructor with its arguments.
\<close>

section \<open>Token lists\<close>

text \<open>Reading the pieces between commas until the input ends: a piece that the input ends in counts only
  when it is not empty.\<close>

fun split_tokens :: "string \<Rightarrow> string \<Rightarrow> string list" where
  "split_tokens acc [] = (if acc = [] then [] else [acc])"
| "split_tokens acc (c # s) = (if c = CHR '','' then acc # split_tokens [] s else split_tokens (acc @ [c]) s)"

definition tokens :: "string \<Rightarrow> string list" where "tokens = split_tokens []"

definition chain_has :: "string \<Rightarrow> string \<Rightarrow> bool" where
  "chain_has filters want = (want \<in> set (tokens filters))"

section \<open>MAC addresses\<close>

text \<open>One \<open>%hhx\<close> conversion: the byte and the rest of the input.\<close>

definition scan_hhx :: "string \<Rightarrow> (u8 \<times> string) option" where
  "scan_hhx s =
     (let (neg, r) = take_sign (dropWhile is_space s);
          r1 = (if hex_literal r \<and> hd (drop 2 r) \<noteq> CHR ''.'' then drop 2 r else r);
          ds = take_digits 16 r1; v = min (int (digits_value 16 0 ds)) (2 ^ 64 - 1)
      in if ds = [] then None else Some (word_of_int (if neg then - v else v), drop_digits 16 r1))"

fun scan_mac :: "nat \<Rightarrow> string \<Rightarrow> u8 list" where
  "scan_mac 0 s = []"
| "scan_mac (Suc n) s =
     (case scan_hhx s of
        None \<Rightarrow> []
      | Some (b, r) \<Rightarrow> b # (case r of c # t \<Rightarrow> if c = CHR '':'' then scan_mac n t else [] | [] \<Rightarrow> []))"

definition parse_mac :: "string \<Rightarrow> u8 list" where
  "parse_mac s = (let m = scan_mac 6 s in m @ replicate (6 - length m) 0)"

section \<open>The settings\<close>

definition parse_rate :: "string \<Rightarrow> fp" where
  "parse_rate s =
     (if CHR ''/'' \<notin> set s then atof s
      else let num = takeWhile (\<lambda>c. c \<noteq> CHR ''/'') s; den = atof (tl (dropWhile (\<lambda>c. c \<noteq> CHR ''/'') s))
        in if fp_ne den (Fin 0) then fp_div (atof num) den else Fin 0)"

text \<open>A port whose setting reads 0 takes the standard one.\<close>

definition port_or :: "u32 \<Rightarrow> string \<Rightarrow> u32" where
  "port_or d s = (let p = atou32 s in if p = 0 then d else p)"

definition wide_sender :: "string \<Rightarrow> bool" where
  "wide_sender tp \<longleftrightarrow> tp = ''wide'' \<or> tp = ''W'' \<or> tp = ''2110TPW''"

text \<open>An unset or negative gain reads as neutral.\<close>

definition gain_or :: "fp \<Rightarrow> fp \<Rightarrow> fp" where
  "gain_or d x = (if fp_le x (Fin 0) then d else x)"

text \<open>The range of the delays; what is not a number in it, NaN included, is clamped.\<close>

definition clamp_delay :: "fp \<Rightarrow> fp" where
  "clamp_delay d =
     (if \<not> (fp_le (Fin 0) d \<and> fp_le d (Fin 1000)) then (if fp_lt (Fin 0) d then Fin 1000 else Fin 0) else d)"

record pipe_settings =
  ps_profile :: string
  ps_interp :: string
  ps_with_frc :: bool
  ps_frc_2x :: bool
  ps_frc_uniform :: bool
  ps_frc_grid_env :: u32
  ps_frames :: int
  ps_out_w :: u32
  ps_out_h :: u32
  ps_ip10 :: bool
  ps_in_ip10 :: bool
  ps_rx_pci :: string
  ps_tx_pci :: string
  ps_dst_mac :: string
  ps_rx_mcast :: string
  ps_rx_src :: string
  ps_rx_iface :: string
  ps_rx_port :: u32
  ps_tx_mcast :: string
  ps_tx_port :: u32
  ps_tx_src :: string
  ps_tx_fill :: fp
  ps_tx_wide :: bool
  ps_tx_lead :: u32
  ps_tx_trim :: u32
  ps_latency_ms :: fp
  ps_latency_ns :: u64
  ps_av_offset_ns :: int
  ps_rx_a_mcast :: string
  ps_rx_a_src :: string
  ps_rx_a_port :: u32
  ps_tx_a_mcast :: string
  ps_tx_a_port :: u32
  ps_audio_rate :: u32
  ps_audio :: bool
  ps_in_w :: u32
  ps_in_h :: u32
  ps_in_fps :: fp
  ps_base_fps :: fp
  ps_frc_grid :: u32

text \<open>The flow grid for an input geometry, unless it is forced.\<close>

definition resolve_frc_grid :: "u32 \<Rightarrow> u32 \<Rightarrow> u32 \<Rightarrow> u32" where
  "resolve_frc_grid forced w h =
     (if forced \<noteq> 0 then forced else if w > 0 \<and> h > 0 \<and> w \<le> 1920 \<and> h \<le> 1080 then 1 else 4)"

definition latency_of :: "fp \<Rightarrow> u64 option" where
  "latency_of ms = (if fp_lt (Fin 0) ms then to_u64 (fp_mul ms (Fin 1000000)) else Some 0)"

definition audio_enabled :: "string \<Rightarrow> string \<Rightarrow> u64 \<Rightarrow> bool" where
  "audio_enabled rx tx latency_ns \<longleftrightarrow> rx \<noteq> '''' \<and> tx \<noteq> '''' \<and> latency_ns \<noteq> 0"

definition read_settings :: "environ \<Rightarrow> pipe_settings option" where
  "read_settings ev =
     (let env = getenv_or ev;
          frc_mode = env ''SPARK_FRC'' ''1'';
          frc_grid_env = atou32 (env ''SPARK_FRC_GRID'' ''0'');
          latency_ms = atof (env ''SPARK_LATENCY_MS'' ''105'');
          rx_a = env ''SPARK_RX_AUDIO_MCAST'' ''''; tx_a = env ''SPARK_TX_AUDIO_MCAST'' '''';
          in_w = atou32 (env ''SPARK_IN_W'' ''0''); in_h = atou32 (env ''SPARK_IN_H'' ''0'');
          in_fps = parse_rate (env ''SPARK_IN_FPS'' '''')
      in do {
        latency_ns \<leftarrow> latency_of latency_ms;
        av_offset \<leftarrow> to_i64 (fp_mul (atof (env ''SPARK_AV_OFFSET_MS'' ''0'')) (Fin 1000000));
        Some \<lparr>ps_profile = env ''SPARK_PROFILE'' ''1080p'', ps_interp = env ''SPARK_INTERP'' ''auto'',
              ps_with_frc = (frc_mode \<noteq> ''0''), ps_frc_2x = (frc_mode = ''2'' \<or> frc_mode = ''3''),
              ps_frc_uniform = (frc_mode = ''3''), ps_frc_grid_env = frc_grid_env,
              ps_frames = atoll (env ''SPARK_FRAMES'' ''300''),
              ps_out_w = atou32 (env ''SPARK_OUT_W'' ''3840''), ps_out_h = atou32 (env ''SPARK_OUT_H'' ''2160''),
              ps_ip10 = (env ''SPARK_IP10'' ''0'' \<noteq> ''0''), ps_in_ip10 = (env ''SPARK_IN_IP10'' ''0'' \<noteq> ''0''),
              ps_rx_pci = env ''SPARK_RX_PCI'' ''0000:01:00.1'', ps_tx_pci = env ''SPARK_TX_PCI'' ''0002:01:00.0'',
              ps_dst_mac = env ''SPARK_DST_MAC'' ''00:00:5e:00:53:30'',
              ps_rx_mcast = env ''SPARK_RX_MCAST'' '''', ps_rx_src = env ''SPARK_RX_SRC'' '''',
              ps_rx_iface = env ''SPARK_RX_IFACE'' '''', ps_rx_port = port_or 20000 (env ''SPARK_RX_PORT'' ''0''),
              ps_tx_mcast = env ''SPARK_TX_MCAST'' '''', ps_tx_port = port_or 20000 (env ''SPARK_TX_PORT'' ''0''),
              ps_tx_src = env ''SPARK_TX_SRC'' ''192.168.50.10'', ps_tx_fill = atof (env ''SPARK_TX_FILL'' ''1.0''),
              ps_tx_wide = wide_sender (env ''SPARK_TX_TP'' ''narrow''),
              ps_tx_lead = atou32 (env ''SPARK_TX_LEAD_NS'' ''8000000''),
              ps_tx_trim = atou32 (env ''SPARK_TX_TRIM_NS'' ''20000''),
              ps_latency_ms = latency_ms, ps_latency_ns = latency_ns, ps_av_offset_ns = av_offset,
              ps_rx_a_mcast = rx_a, ps_rx_a_src = env ''SPARK_RX_AUDIO_SRC'' '''',
              ps_rx_a_port = port_or 5004 (env ''SPARK_RX_AUDIO_PORT'' ''0''),
              ps_tx_a_mcast = tx_a, ps_tx_a_port = port_or 5004 (env ''SPARK_TX_AUDIO_PORT'' ''0''),
              ps_audio_rate = atou32 (env ''SPARK_AUDIO_RATE'' ''48000''),
              ps_audio = audio_enabled rx_a tx_a latency_ns, ps_in_w = in_w, ps_in_h = in_h, ps_in_fps = in_fps,
              ps_base_fps = (if fp_lt (Fin 0) in_fps then in_fps else fp_div (Fin 60000) (Fin 1001)),
              ps_frc_grid = resolve_frc_grid frc_grid_env in_w in_h\<rparr>
      })"

section \<open>The filter settings\<close>

record filter_settings =
  fs_sharpen :: fp
  fs_procamp :: procamp_params
  fs_nr :: nr_params
  fs_grain :: grain_params
  fs_delay_v :: fp
  fs_delay_a :: fp
  fs_filters :: string

definition with_procamp :: "procamp_params \<Rightarrow> bool" where
  "with_procamp p \<longleftrightarrow> fp_ne (pa_brightness p) (Fin 0) \<or> fp_ne (pa_contrast p) (Fin 1) \<or>
     fp_ne (pa_saturation p) (Fin 1) \<or> fp_ne (pa_hue_deg p) (Fin 0)"

text \<open>The chain when none is given.\<close>

definition default_chain :: "bool \<Rightarrow> filter_settings \<Rightarrow> string" where
  "default_chain with_frc f =
     (if fp_lt (Fin 0) (np_luma (fs_nr f)) \<or> fp_lt (Fin 0) (np_chroma (fs_nr f)) then ''nr,'' else '''') @
     (if with_frc then ''frc,'' else '''') @ ''scale'' @
     (if fp_lt (Fin 0) (fs_sharpen f) then '',sharpen'' else '''') @
     (if with_procamp (fs_procamp f) then '',procamp'' else '''') @
     (if fp_lt (Fin 0) (gp_amount (fs_grain f)) then '',grain'' else '''') @
     (if fp_lt (Fin 0) (fs_delay_v f) \<or> fp_lt (Fin 0) (fs_delay_a f) then '',delay'' else '''')"

definition read_filters :: "environ \<Rightarrow> bool \<Rightarrow> filter_settings" where
  "read_filters ev with_frc =
     (let env = getenv_or ev;
          f = \<lparr>fs_sharpen = atof (env ''SPARK_SHARPEN'' ''0''),
               fs_procamp = \<lparr>pa_brightness = atof (env ''SPARK_PA_BRIGHT'' ''0''),
                             pa_contrast = gain_or (Fin 1) (atof (env ''SPARK_PA_CONTRAST'' ''1'')),
                             pa_saturation = gain_or (Fin 1) (atof (env ''SPARK_PA_SAT'' ''1'')),
                             pa_hue_deg = atof (env ''SPARK_PA_HUE'' ''0'')\<rparr>,
               fs_nr = \<lparr>np_luma = atof (env ''SPARK_NR_LUMA'' ''0''), np_chroma = atof (env ''SPARK_NR_CHROMA'' ''0'')\<rparr>,
               fs_grain = \<lparr>gp_amount = atof (env ''SPARK_GRAIN'' ''0''),
                           gp_size = gain_or (Fin (3 / 2)) (atof (env ''SPARK_GRAIN_SIZE'' ''1.5'')),
                           gp_mode = (if env ''SPARK_GRAIN_MODE'' ''mono'' \<noteq> ''color'' then ''mono'' else ''color'')\<rparr>,
               fs_delay_v = clamp_delay (atof (env ''SPARK_DELAY_VIDEO_MS'' ''0'')),
               fs_delay_a = clamp_delay (atof (env ''SPARK_DELAY_AUDIO_MS'' ''0'')), fs_filters = ''''\<rparr>;
          given = env ''SPARK_FILTERS'' ''''
      in f\<lparr>fs_filters := (if given = '''' then default_chain with_frc f else given)\<rparr>)"

section \<open>The schedule\<close>

record schedule =
  sc_latency_ms :: fp
  sc_latency_ns :: u64
  sc_av_offset_ns :: int

text \<open>The delay stage, folded into the schedule: the video delay into the latency, the difference into the
  offset of the audio.  A signed overflow is undefined.\<close>

definition apply_delay :: "bool \<Rightarrow> fp \<Rightarrow> fp \<Rightarrow> schedule \<Rightarrow> schedule option" where
  "apply_delay with_delay v a sc =
     (if with_delay \<and> sc_latency_ns sc \<noteq> 0
      then do {
        dv \<leftarrow> to_u64 (fp_mul v (Fin 1000000));
        da \<leftarrow> to_i64 (fp_mul (fp_sub a v) (Fin 1000000));
        let av = sc_av_offset_ns sc + da;
        if - (2 ^ 63) \<le> av \<and> av < 2 ^ 63
        then Some \<lparr>sc_latency_ms = fp_add (sc_latency_ms sc) v, sc_latency_ns = sc_latency_ns sc + dv, sc_av_offset_ns = av\<rparr>
        else None
      }
      else Some sc)"

definition frc_active :: "bool \<Rightarrow> string \<Rightarrow> bool" where
  "frc_active with_frc filters \<longleftrightarrow> with_frc \<and> chain_has filters ''frc''"

definition out_rate :: "bool \<Rightarrow> bool \<Rightarrow> fp \<Rightarrow> fp" where
  "out_rate active frc_2x base = (if active \<and> frc_2x then fp_mul base (Fin 2) else base)"

text \<open>The depth of the receive queue: the frames of the latency, plus four, at least eight.  An unsigned
  sum wraps.\<close>

definition queue_depth :: "u64 \<Rightarrow> fp \<Rightarrow> fp \<Rightarrow> u32 option" where
  "queue_depth latency_ns latency_ms base =
     (if latency_ns > 0
      then map_option (\<lambda>n. max 8 (n + 4)) (to_u32 (fp_div (fp_mul latency_ms base) (Fin 1000)))
      else Some 8)"

section \<open>The chain\<close>

text \<open>Operator names are unique: the second \<open>procamp\<close> is \<open>procamp2\<close>.\<close>

definition op_name :: "string \<Rightarrow> nat \<Rightarrow> string" where
  "op_name tok k = (if k \<noteq> 0 then tok @ to_dec (int k + 1) else tok)"

definition bump :: "string \<Rightarrow> (string \<Rightarrow> nat) \<Rightarrow> string \<Rightarrow> nat" where
  "bump tok seen = seen(tok := seen tok + 1)"

text \<open>The filters that are frame operators.\<close>

definition frame_filter :: "string \<Rightarrow> bool" where
  "frame_filter tok \<longleftrightarrow> tok \<in> set [''frc'', ''scale'', ''sharpen'', ''procamp'', ''grain'', ''nr'']"

fun sink_after :: "bool \<Rightarrow> (string \<Rightarrow> nat) \<Rightarrow> string list \<Rightarrow> string" where
  "sink_after after_frc seen [] = (if after_frc then ''pack'' else '''')"
| "sink_after after_frc seen (tok # toks) =
     (if \<not> frame_filter tok then sink_after after_frc seen toks
      else if after_frc then op_name tok (seen tok)
      else sink_after (tok = ''frc'') (bump tok seen) toks)"

definition burst_sink :: "bool \<Rightarrow> string \<Rightarrow> string" where
  "burst_sink active filters = (if active then sink_after False (\<lambda>_. 0) (tokens filters) else '''')"

datatype stage_op = Frc_op frc_params | Resize_op resize_params | Filter_op gpu_filter

text \<open>What the chain is built from.\<close>

record chain_config =
  cc_with_frc :: bool
  cc_frc :: frc_params
  cc_resize :: resize_params
  cc_filters :: filter_settings

definition make_stage :: "chain_config \<Rightarrow> string \<Rightarrow> stage_op option" where
  "make_stage c tok =
     (if tok = ''frc'' then (if cc_with_frc c then Some (Frc_op (cc_frc c)) else None)
      else if tok = ''scale'' then Some (Resize_op (cc_resize c))
      else if tok = ''sharpen'' then Some (Filter_op (Sharpen (fs_sharpen (cc_filters c))))
      else if tok = ''procamp'' then Some (Filter_op (Procamp (fs_procamp (cc_filters c))))
      else if tok = ''nr'' then Some (Filter_op (Nr (fs_nr (cc_filters c))))
      else if tok = ''grain'' then Some (Filter_op (Grain (fs_grain (cc_filters c))))
      else None)"

text \<open>The stages between unpack and pack, with the number of times each token was seen at the end.\<close>

fun compose_chain :: "chain_config \<Rightarrow> (string \<Rightarrow> nat) \<Rightarrow> string list \<Rightarrow> (string \<times> stage_op) list \<times> (string \<Rightarrow> nat)" where
  "compose_chain c seen [] = ([], seen)"
| "compose_chain c seen (tok # toks) =
     (if tok = '''' then compose_chain c seen toks
      else let name = op_name tok (seen tok); (rest, seen') = compose_chain c (bump tok seen) toks
        in (case make_stage c tok of None \<Rightarrow> (rest, seen') | Some s \<Rightarrow> ((name, s) # rest, seen')))"

definition full_chain :: "chain_config \<Rightarrow> string \<Rightarrow> (string \<times> stage_op) list" where
  "full_chain c filters =
     (let (stages, seen) = compose_chain c (\<lambda>_. 0) (tokens filters)
      in if seen ''scale'' = 0 then stages @ [(''scale'', Resize_op (cc_resize c))] else stages)"

section \<open>The pipeline\<close>

record pipeline =
  pl_rx :: rx_params
  pl_rx_count :: "int option"
  pl_chain :: "(string \<times> stage_op) list"
  pl_pack :: pack_params
  pl_tx :: tx_params
  pl_burst_sink :: string
  pl_frame_q_depth :: u32
  pl_out_fps :: fp

definition rx_args :: "pipe_settings \<Rightarrow> rat \<Rightarrow> u32 \<Rightarrow> rx_params" where
  "rx_args s in_fps q_depth = default_rx_params\<lparr>
     p_pci_addr := ps_rx_pci s, p_profile := ps_profile s, p_manage_eal := False, p_emit_frames := True,
     p_udp_port := ps_rx_port s, p_mcast_group := ps_rx_mcast s, p_src_ip := ps_rx_src s, p_iface_ip := ps_rx_iface s,
     p_in_width := ps_in_w s, p_in_height := ps_in_h s, p_in_fps := in_fps, p_ip10 := ps_in_ip10 s,
     p_frame_q_depth := q_depth, p_audio_mcast := (if ps_audio s then ps_rx_a_mcast s else ''''),
     p_audio_src := ps_rx_a_src s, p_audio_port := (if ps_audio s then ps_rx_a_port s else 0),
     p_audio_rate := ps_audio_rate s\<rparr>"

definition tx_args :: "pipe_settings \<Rightarrow> rat \<Rightarrow> schedule \<Rightarrow> tx_params" where
  "tx_args s fill sc =
     (let multicast = (ps_tx_mcast s \<noteq> '''')
      in default_tx_params\<lparr>
        tp_pci_addr := ps_tx_pci s, tp_manage_eal := False, tp_udp_port := ps_tx_port s, tp_src_ip := ps_tx_src s,
        tp_dst_ip := (if multicast then ps_tx_mcast s else ''239.0.0.1''),
        tp_dst_mac := parse_mac (if multicast then ''00:00:00:00:00:00'' else ps_dst_mac s),
        tp_pacing_fill := fill, tp_payload_size := (if ps_ip10 s then 1300 else 1420),
        tp_txd := (if ps_ip10 s then 16384 else if ps_out_h s \<ge> 2160 then 16384 else 8192),
        tp_pacing_horizon_ns := max (ps_tx_lead s) 8000000, tp_reanchor_lead_ns := ps_tx_lead s,
        tp_trim_ns := ps_tx_trim s, tp_tx_wide := ps_tx_wide s, tp_latency_ns := sc_latency_ns sc,
        tp_audio_dst_ip := (if ps_audio s then ps_tx_a_mcast s else ''''),
        tp_audio_port := (if ps_audio s then ps_tx_a_port s else 0), tp_audio_rate := ps_audio_rate s,
        tp_av_offset_ns := sc_av_offset_ns sc\<rparr>)"

text \<open>The output interval of uniform mode, where a conversion stage is built.\<close>

definition uniform_interval :: "bool \<Rightarrow> fp \<Rightarrow> u64 option" where
  "uniform_interval uniform rate =
     (if uniform then to_u64 (fp_add (fp_div (Fin 1000000000) rate) (Fin (1 / 2))) else Some 0)"

definition compose :: "environ \<Rightarrow> pipeline option" where
  "compose ev = do {
     s \<leftarrow> read_settings ev;
     let f = read_filters ev (ps_with_frc s);
     let filters = fs_filters f;
     sc \<leftarrow> apply_delay (chain_has filters ''delay'') (fs_delay_v f) (fs_delay_a f)
            \<lparr>sc_latency_ms = ps_latency_ms s, sc_latency_ns = ps_latency_ns s, sc_av_offset_ns = ps_av_offset_ns s\<rparr>;
     let active = frc_active (ps_with_frc s) filters;
     let rate = out_rate active (ps_frc_2x s) (ps_base_fps s);
     q_depth \<leftarrow> queue_depth (sc_latency_ns sc) (sc_latency_ms sc) (ps_base_fps s);
     in_fps \<leftarrow> finite_fp (ps_in_fps s);
     pack_fps \<leftarrow> finite_fp rate;
     fill \<leftarrow> finite_fp (ps_tx_fill s);
     interval \<leftarrow> uniform_interval (active \<and> ps_frc_uniform s) rate;
     let c = \<lparr>cc_with_frc = ps_with_frc s,
             cc_frc = default_frc_params\<lparr>fp_rate_mult := (if ps_frc_2x s then 2 else 1), fp_grid_size := ps_frc_grid s,
                        fp_out_interval_ns := interval\<rparr>,
             cc_resize = \<lparr>rp_out_width = ps_out_w s, rp_out_height = ps_out_h s, rp_interp = ps_interp s, rp_measure = False\<rparr>,
             cc_filters = f\<rparr>;
     Some \<lparr>pl_rx = rx_args s in_fps q_depth, pl_rx_count = (if ps_frames s > 0 then Some (ps_frames s) else None),
           pl_chain = full_chain c filters, pl_pack = \<lparr>pkp_out_fps = pack_fps, pkp_ip10 = ps_ip10 s\<rparr>,
           pl_tx = tx_args s fill sc, pl_burst_sink = burst_sink active filters, pl_frame_q_depth = q_depth,
           pl_out_fps = rate\<rparr>
   }"

text \<open>The edges of the graph: receive to unpack, the chain in order, pack to transmit.\<close>

definition graph_edges :: "pipeline \<Rightarrow> (string \<times> string) list" where
  "graph_edges p =
     (let chain = ''unpack'' # map fst (pl_chain p) @ [''pack'']
      in (''st2110_rx'', ''unpack'') # zip chain (tl chain) @ [(''pack'', ''st2110_tx'')])"

section \<open>The process\<close>

definition process_priority :: "environ \<Rightarrow> int" where
  "process_priority ev = (case ev ''SPARK_NICE'' of Some n \<Rightarrow> atoi n | None \<Rightarrow> -15)"

definition max_run_ms :: "environ \<Rightarrow> int" where
  "max_run_ms ev = (case ev ''SPARK_MAX_MS'' of
     Some ms \<Rightarrow> if atoll ms > 0 then atoll ms else 7 * 24 * 3600 * 1000 | None \<Rightarrow> 7 * 24 * 3600 * 1000)"

datatype scheduler = Multi_thread | Event_based

definition pick_scheduler :: "environ \<Rightarrow> scheduler" where
  "pick_scheduler ev = (case ev ''SPARK_SCHED'' of Some s \<Rightarrow> if s = ''mts'' then Multi_thread else Event_based | None \<Rightarrow> Event_based)"

end
