(* ===== verification/Pipe_Props.thy ===== *)
theory Pipe_Props
  imports Pipeline
begin

text \<open>
  What the composed pipeline guarantees: the operator that is announced to receive the conversion
  stage's bursts, the order of the default chain, the raster that reaches the packer, and the schedule
  the delay stage leaves.
\<close>

section \<open>The stages a chain has\<close>

lemma make_stage_iff: "cc_with_frc c \<Longrightarrow> make_stage c tok = None \<longleftrightarrow> \<not> frame_filter tok"
  by (auto simp: make_stage_def frame_filter_def)

lemma make_stage_frc: "make_stage c tok = Some (Frc_op p) \<Longrightarrow> tok = ''frc'' \<and> p = cc_frc c"
  by (auto simp: make_stage_def split: if_splits)

lemma make_stage_not_frc: "cc_with_frc c \<Longrightarrow> make_stage c tok = Some s \<Longrightarrow> tok \<noteq> ''frc'' \<Longrightarrow> \<forall>p. s \<noteq> Frc_op p"
  using make_stage_frc by blast

lemma frame_filter_Nil [simp]: "\<not> frame_filter ''''"
  by (simp add: frame_filter_def)

text \<open>The two scans of the tokens count alike on frame operators.\<close>

definition agree :: "(string \<Rightarrow> nat) \<Rightarrow> (string \<Rightarrow> nat) \<Rightarrow> bool" where
  "agree s t \<longleftrightarrow> (\<forall>tok. frame_filter tok \<longrightarrow> s tok = t tok)"

lemma agree_bump: "agree s t \<Longrightarrow> agree (bump tok s) (bump tok t)"
  by (simp add: agree_def bump_def)

lemma agree_skip: "agree s t \<Longrightarrow> \<not> frame_filter tok \<Longrightarrow> agree s (bump tok t)"
  by (auto simp: agree_def bump_def)

definition next_name :: "(string \<times> stage_op) list \<Rightarrow> string" where
  "next_name post = (case post of [] \<Rightarrow> ''pack'' | (m, _) # _ \<Rightarrow> m)"

lemma sink_after_True:
  "agree s t \<Longrightarrow> cc_with_frc c \<Longrightarrow> sink_after True s toks = next_name (fst (compose_chain c t toks))"
proof (induction toks arbitrary: s t)
  case Nil
  then show ?case by (simp add: next_name_def)
next
  case (Cons tok toks)
  show ?case
  proof (cases "frame_filter tok")
    case True
    then obtain st where "make_stage c tok = Some st" "tok \<noteq> ''''" using make_stage_iff [OF Cons.prems(2), of tok] by (cases "make_stage c tok") (auto simp: frame_filter_def)
    then show ?thesis using Cons.prems True by (simp add: next_name_def agree_def case_prod_beta Let_def)
  next
    case False
    then have "make_stage c tok = None" using make_stage_iff [OF Cons.prems(2)] by blast
    then show ?thesis using Cons.IH [OF agree_skip [OF Cons.prems(1) False] Cons.prems(2)] Cons.IH [OF Cons.prems] False
      by (simp add: case_prod_beta Let_def)
  qed
qed

text \<open>The first conversion stage of a chain and what follows it.\<close>

definition first_frc :: "chain_config \<Rightarrow> (string \<times> stage_op) list \<Rightarrow> string \<Rightarrow> bool" where
  "first_frc c stages sink \<longleftrightarrow> (\<exists>pre n post. stages = pre @ (n, Frc_op (cc_frc c)) # post \<and>
     (\<forall>x\<in>set pre. \<forall>p. snd x \<noteq> Frc_op p) \<and> sink = next_name post)"

lemma first_frc_Cons: "first_frc c stages sink \<Longrightarrow> \<forall>p. snd x \<noteq> Frc_op p \<Longrightarrow> first_frc c (x # stages) sink"
  unfolding first_frc_def by (elim exE conjE, rule_tac x = "x # pre" in exI) auto

lemma sink_after_False:
  "agree s t \<Longrightarrow> cc_with_frc c \<Longrightarrow> ''frc'' \<in> set toks \<Longrightarrow>
   first_frc c (fst (compose_chain c t toks)) (sink_after False s toks)"
proof (induction toks arbitrary: s t)
  case (Cons tok toks)
  consider "\<not> frame_filter tok" | "frame_filter tok" "tok \<noteq> ''frc''" | "tok = ''frc''" by blast
  then show ?case
  proof cases
    case 1
    then have n: "make_stage c tok = None" "tok \<noteq> ''frc''" using make_stage_iff [OF Cons.prems(2)] by (auto simp: frame_filter_def)
    then have m: "''frc'' \<in> set toks" using Cons.prems(3) by simp
    show ?thesis using Cons.IH [OF agree_skip [OF Cons.prems(1) 1] Cons.prems(2) m] Cons.IH [OF Cons.prems(1,2) m] 1 n
      by (simp add: case_prod_beta Let_def)
  next
    case 2
    then obtain st where st: "make_stage c tok = Some st" "tok \<noteq> ''''" using make_stage_iff [OF Cons.prems(2), of tok] by (cases "make_stage c tok") (auto simp: frame_filter_def)
    have m: "''frc'' \<in> set toks" using Cons.prems(3) 2 by simp
    have ih: "first_frc c (fst (compose_chain c (bump tok t) toks)) (sink_after False (bump tok s) toks)"
      by (rule Cons.IH [OF agree_bump [OF Cons.prems(1)] Cons.prems(2) m])
    show ?thesis using 2 st first_frc_Cons [OF ih, of "(op_name tok (t tok), st)"] make_stage_not_frc [OF Cons.prems(2) st(1) 2(2)]
      by (simp add: case_prod_beta Let_def)
  next
    case 3
    have mk: "make_stage c tok = Some (Frc_op (cc_frc c))" using Cons.prems(2) 3 by (simp add: make_stage_def)
    have f: "frame_filter tok" "tok \<noteq> ''''" using 3 by (simp_all add: frame_filter_def)
    have "sink_after False s (tok # toks) = next_name (fst (compose_chain c (bump tok t) toks))"
      using f 3 sink_after_True [OF agree_bump [OF Cons.prems(1)] Cons.prems(2)] by simp
    moreover have "fst (compose_chain c t (tok # toks)) = (op_name tok (t tok), Frc_op (cc_frc c)) # fst (compose_chain c (bump tok t) toks)"
      using f(2) mk by (simp add: case_prod_beta Let_def)
    ultimately show ?thesis unfolding first_frc_def by (metis append_Nil empty_iff list.set(1))
  qed
qed simp

lemma bump_le: "seen t \<le> bump tok seen t"
  by (simp add: bump_def)

lemma seen_grows: "seen t \<le> snd (compose_chain c seen toks) t"
proof (induction toks arbitrary: seen)
  case (Cons tok toks)
  show ?case
    using Cons [of seen] order_trans [OF bump_le Cons [of "bump tok seen"]]
    by (simp add: case_prod_beta Let_def split: option.splits)
qed simp

lemma seen_scale: "''scale'' \<in> set toks \<Longrightarrow> 0 < snd (compose_chain c seen toks) ''scale''"
proof (induction toks arbitrary: seen)
  case (Cons tok toks)
  show ?case
  proof (cases "tok = ''scale''")
    case True
    have "0 < bump tok seen ''scale''" by (simp add: bump_def True)
    also have "\<dots> \<le> snd (compose_chain c (bump tok seen) toks) ''scale''" by (rule seen_grows)
    finally show ?thesis using True by (simp add: case_prod_beta Let_def split: option.splits)
  next
    case False
    then show ?thesis using Cons by (simp add: case_prod_beta Let_def split: option.splits)
  qed
qed simp

text \<open>C15 - The announced burst sink is the stage that gets the bursts: when conversion runs and the chain
  names a scale stage, the name put in the environment is that of the operator right after the first
  conversion stage in the composed chain, or the packer's when it is the last.\<close>

theorem burst_sink_is_successor:
  assumes "cc_with_frc c" "chain_has filters ''frc''" "chain_has filters ''scale''"
  shows "\<exists>pre n post. full_chain c filters = pre @ (n, Frc_op (cc_frc c)) # post \<and>
    (\<forall>x\<in>set pre. \<forall>p. snd x \<noteq> Frc_op p) \<and>
    burst_sink (frc_active True filters) filters = (case post of [] \<Rightarrow> ''pack'' | (m, _) # _ \<Rightarrow> m)"
proof -
  have "full_chain c filters = fst (compose_chain c (\<lambda>_. 0) (tokens filters))"
    using seen_scale [of "tokens filters" c "\<lambda>_. 0"] assms(3) by (simp add: full_chain_def chain_has_def case_prod_beta Let_def)
  moreover have "first_frc c (fst (compose_chain c (\<lambda>_. 0) (tokens filters))) (sink_after False (\<lambda>_. 0) (tokens filters))"
    using assms(1,2) by (intro sink_after_False) (simp_all add: agree_def chain_has_def)
  ultimately show ?thesis using assms(2)
    by (simp add: first_frc_def next_name_def burst_sink_def frc_active_def)
qed

definition demo_chain :: chain_config where
  "demo_chain = \<lparr>cc_with_frc = True, cc_frc = default_frc_params\<lparr>fp_rate_mult := 2\<rparr>,
     cc_resize = \<lparr>rp_out_width = 3840, rp_out_height = 2160, rp_interp = ''auto'', rp_measure = False\<rparr>,
     cc_filters = \<lparr>fs_sharpen = Fin 1, fs_procamp = \<lparr>pa_brightness = Fin 0, pa_contrast = Fin 1, pa_saturation = Fin 1, pa_hue_deg = Fin 0\<rparr>,
       fs_nr = \<lparr>np_luma = Fin 0, np_chroma = Fin 0\<rparr>, fs_grain = \<lparr>gp_amount = Fin 0, gp_size = Fin 1, gp_mode = ''mono''\<rparr>,
       fs_delay_v = Fin 0, fs_delay_a = Fin 0, fs_filters = ''''\<rparr>\<rparr>"

theorem burst_sink_is_successor_witness:
  "\<exists>pre n post. full_chain demo_chain ''frc,delay,scale,sharpen'' = pre @ (n, Frc_op (cc_frc demo_chain)) # post \<and>
    (\<forall>x\<in>set pre. \<forall>p. snd x \<noteq> Frc_op p) \<and>
    burst_sink (frc_active True ''frc,delay,scale,sharpen'') ''frc,delay,scale,sharpen'' = (case post of [] \<Rightarrow> ''pack'' | (m, _) # _ \<Rightarrow> m)"
  by (rule burst_sink_is_successor) (simp_all add: demo_chain_def chain_has_def tokens_def)

text \<open>Without a scale stage one is appended after the sink was announced: the packer is announced, the
  appended stage gets the bursts.\<close>

lemma burst_sink_missed:
  "burst_sink (frc_active True ''frc'') ''frc'' = ''pack'' \<and> map fst (full_chain demo_chain ''frc'') = [''frc'', ''scale'']"
  by (simp add: burst_sink_def frc_active_def chain_has_def tokens_def frame_filter_def full_chain_def make_stage_def
      demo_chain_def bump_def op_name_def)

lemma char_2: "char_of (50 :: nat) = CHR ''2''"
  by code_simp

text \<open>Two conversion stages each double the rate; the transmitter is told of one doubling.\<close>

lemma two_conversions:
  "map fst (full_chain demo_chain ''frc,frc,scale'') = [''frc'', ''frc2'', ''scale''] \<and>
   out_rate (frc_active True ''frc,frc,scale'') True (Fin 30) = fp_mul (Fin 30) (Fin 2)"
  by (simp add: frc_active_def chain_has_def tokens_def full_chain_def make_stage_def demo_chain_def bump_def op_name_def
      out_rate_def to_dec_def dec_digits.simps char_2)


section \<open>The default chain\<close>

text \<open>With no chain given, the stages are exactly those whose settings are not neutral, in the order noise
  reduction, conversion, scale, sharpening, levels, grain, with the scale always there and each stage
  once.\<close>

theorem default_chain_order:
  "map fst (full_chain c (default_chain (cc_with_frc c) f)) =
     (if fp_lt (Fin 0) (np_luma (fs_nr f)) \<or> fp_lt (Fin 0) (np_chroma (fs_nr f)) then [''nr''] else []) @
     (if cc_with_frc c then [''frc''] else []) @ [''scale''] @
     (if fp_lt (Fin 0) (fs_sharpen f) then [''sharpen''] else []) @
     (if with_procamp (fs_procamp f) then [''procamp''] else []) @
     (if fp_lt (Fin 0) (gp_amount (fs_grain f)) then [''grain''] else [])"
proof -
  have eval: "map fst (full_chain c ((if nr then ''nr,'' else '''') @ (if cc_with_frc c then ''frc,'' else '''') @ ''scale'' @
      (if sh then '',sharpen'' else '''') @ (if pa then '',procamp'' else '''') @ (if gr then '',grain'' else '''') @
      (if dl then '',delay'' else ''''))) =
    (if nr then [''nr''] else []) @ (if cc_with_frc c then [''frc''] else []) @ [''scale''] @
      (if sh then [''sharpen''] else []) @ (if pa then [''procamp''] else []) @ (if gr then [''grain''] else [])"
    for nr sh pa gr dl
    by (cases nr; cases "cc_with_frc c"; cases sh; cases pa; cases gr; cases dl)
      (simp_all add: full_chain_def tokens_def make_stage_def bump_def op_name_def)
  show ?thesis unfolding default_chain_def by (rule eval)
qed

section \<open>The raster\<close>

text \<open>The geometry after a stage: the resize stage's target, else the input's (\<open>resize_step\<close>, \<open>filter_step\<close>;
  conversion frames are allocated at the input's geometry).\<close>

definition dims_after :: "stage_op \<Rightarrow> u32 \<times> u32 \<Rightarrow> u32 \<times> u32" where
  "dims_after st d = (case st of Resize_op p \<Rightarrow> (rp_out_width p, rp_out_height p) | _ \<Rightarrow> d)"

definition chain_dims :: "(string \<times> stage_op) list \<Rightarrow> u32 \<times> u32 \<Rightarrow> u32 \<times> u32" where
  "chain_dims stages d = foldl (\<lambda>d (_, st). dims_after st d) d stages"

definition target :: "chain_config \<Rightarrow> u32 \<times> u32" where
  "target c = (rp_out_width (cc_resize c), rp_out_height (cc_resize c))"

lemma chain_dims_Cons: "chain_dims (x # xs) d = chain_dims xs (dims_after (snd x) d)"
  by (simp add: chain_dims_def case_prod_beta)

lemma make_stage_dims: "make_stage c tok = Some st \<Longrightarrow> dims_after st d = (if tok = ''scale'' then target c else d)"
  by (auto simp: make_stage_def dims_after_def target_def split: if_splits)

lemma compose_dims:
  "chain_dims (fst (compose_chain c seen toks)) d = (if ''scale'' \<in> set toks then target c else d)"
proof (induction toks arbitrary: seen d)
  case Nil
  then show ?case by (simp add: chain_dims_def)
next
  case (Cons tok toks)
  have "make_stage c ''scale'' \<noteq> None" by (simp add: make_stage_def)
  then show ?case using Cons
    by (auto simp: case_prod_beta Let_def chain_dims_Cons make_stage_dims split: option.splits)
qed

lemma seen_no_scale: "''scale'' \<notin> set toks \<Longrightarrow> snd (compose_chain c seen toks) ''scale'' = seen ''scale''"
  by (induction c seen toks rule: compose_chain.induct) (auto simp: bump_def case_prod_beta Let_def split: option.splits)

text \<open>Whatever chain is configured, misspelt, empty or without a scale stage, the frames that reach the
  packer have the advertised output geometry.\<close>

theorem chain_raster: "chain_dims (full_chain c filters) d = target c"
proof (cases "''scale'' \<in> set (tokens filters)")
  case True
  then show ?thesis using seen_scale [OF True, of c "\<lambda>_. 0"] compose_dims [of c "\<lambda>_. 0" "tokens filters" d]
    by (simp add: full_chain_def case_prod_beta Let_def)
next
  case False
  have "chain_dims (xs @ [(n, Resize_op (cc_resize c))]) d = target c" for xs n
    by (simp add: chain_dims_def dims_after_def target_def)
  then show ?thesis using seen_no_scale [OF False, of c "\<lambda>_. 0"]
    by (simp add: full_chain_def case_prod_beta Let_def)
qed

section \<open>Audio\<close>

lemma port_or_pos: "d \<noteq> 0 \<Longrightarrow> port_or d s \<noteq> 0"
  by (simp add: port_or_def Let_def)

text \<open>C23 - Audio is wired on both sides or on neither: whenever the pipeline composes, the receiver takes in an
  audio stream exactly when the transmitter relays one, and then both groups are set and the schedule is
  the fixed-latency one.\<close>

theorem audio_both_or_none:
  assumes "compose ev = Some p"
  shows "rx_audio_on (pl_rx p) = tx_want_audio (pl_tx p) \<and>
    (rx_audio_on (pl_rx p) \<longrightarrow> getenv_or ev ''SPARK_RX_AUDIO_MCAST'' '''' \<noteq> '''' \<and>
       getenv_or ev ''SPARK_TX_AUDIO_MCAST'' '''' \<noteq> '''' \<and> latency_of (atof (getenv_or ev ''SPARK_LATENCY_MS'' ''105'')) \<noteq> Some 0)"
proof -
  obtain s fill sc in_fps q where s: "read_settings ev = Some s" and rx: "pl_rx p = rx_args s in_fps q"
    and tx: "pl_tx p = tx_args s fill sc"
    using assms unfolding compose_def by (auto simp: Let_def bind_eq_Some_conv)
  have a: "ps_audio s = audio_enabled (ps_rx_a_mcast s) (ps_tx_a_mcast s) (ps_latency_ns s)"
    "ps_rx_a_mcast s = getenv_or ev ''SPARK_RX_AUDIO_MCAST'' ''''" "ps_tx_a_mcast s = getenv_or ev ''SPARK_TX_AUDIO_MCAST'' ''''"
    "latency_of (atof (getenv_or ev ''SPARK_LATENCY_MS'' ''105'')) = Some (ps_latency_ns s)"
    "ps_rx_a_port s \<noteq> 0" "ps_tx_a_port s \<noteq> 0"
    using s unfolding read_settings_def Let_def by (auto simp: bind_eq_Some_conv port_or_pos)
  show ?thesis unfolding rx tx rx_audio_on_def tx_want_audio_def rx_args_def tx_args_def
    using a by (auto simp: audio_enabled_def Let_def)
qed


section \<open>The delay stage\<close>

lemma sig_norm_small:
  "sig_norm p n m s = (m', s') \<Longrightarrow> 0 \<le> m \<Longrightarrow> m < 2 * 2 ^ p \<Longrightarrow> 0 < s \<Longrightarrow> 0 \<le> m' \<and> 0 < s' \<and> s' \<le> s"
proof (induction p n m s rule: sig_norm.induct)
  case (2 p n m s)
  show ?case
  proof (cases "m < 2 ^ p")
    case True
    then have "0 \<le> m' \<and> 0 < s' \<and> s' \<le> s / 2" using 2 by simp
    then show ?thesis using 2(6) by simp
  next
    case False
    then show ?thesis using 2 by (auto split: if_splits)
  qed
qed simp

lemma round_sig_small:
  assumes "0 < x" "x < 1 / 2"
  shows "0 \<le> round_sig p x \<and> round_sig p x \<le> 1"
proof -
  obtain m s where n: "sig_norm p 1100 x 1 = (m, s)" by (metis surj_pair)
  have "(1 :: rat) \<le> 2 ^ p" by (rule one_le_power) simp
  then have "x < 2 * 2 ^ p" using assms(2) by linarith
  then have ms: "0 \<le> m" "0 < s" "s \<le> 1" using sig_norm_small [OF n] assms(1) by simp_all
  have v: "m * s = x" using sig_norm_value [OF n] by simp
  have r: "round_sig p x = of_int (rne m) * s" using assms(1) n by (simp add: round_sig_def)
  have "0 \<le> rne m" using rne_mono [of 0 m] ms(1) rne_of_int [of 0] by simp
  moreover have "of_int (rne m) \<le> m + 1 / 2" using rne_error [of m] by linarith
  then have "of_int (rne m) * s \<le> (m + 1 / 2) * s" using ms(2) by (intro mult_right_mono) simp_all
  moreover have "(m + 1 / 2) * s = x + s / 2" using v by (simp add: algebra_simps)
  ultimately show ?thesis using r ms assms(2) by simp
qed

lemma round_sig_neg: "round_sig p (- x) = - round_sig p x"
  by (auto simp: round_sig_def Let_def case_prod_beta)

lemma dbl_bounds:
  assumes "\<bar>x\<bar> \<le> of_int k" "0 \<le> k" "k \<le> 9007199254740992"
  shows "\<bar>dbl x\<bar> \<le> of_int k"
proof -
  have pos: "0 \<le> dbl y \<and> dbl y \<le> of_int k" if "0 < y" "y \<le> of_int k" for y
  proof -
    have k: "0 < k" using less_le_trans [OF that] by simp
    have r: "round_sig 52 (of_int k) = of_int k" using k assms(3) by (intro round_sig_int) simp_all
    show ?thesis
    proof (cases "y < 1 / 2")
      case True
      have "1 \<le> (of_int k :: rat)" using k by simp
      then show ?thesis using round_sig_small [OF that(1) True, of 52] by (simp add: dbl_def)
    next
      case False
      have "(of_int k :: rat) \<le> of_int 9007199254740992" using assms(3) by (simp only: of_int_le_iff)
      then have hi: "(of_int k :: rat) \<le> 2 ^ 500" by simp
      have "(1 :: rat) / 2 ^ 500 \<le> 1 / 2" by simp
      then have lo: "1 / 2 ^ 500 \<le> y" using False by linarith
      have iy: "in_range y" using lo order_trans [OF that(2) hi] by (rule in_range_500)
      have ik: "in_range (of_int k)" using order_trans [OF lo that(2)] hi by (rule in_range_500)
      show ?thesis using round_sig_mono [OF iy ik that(2), of 52] round_sig_pos [OF iy, of 52] r by (simp add: dbl_def)
    qed
  qed
  consider "x = 0" | "0 < x" | "0 < - x" by linarith
  then show ?thesis
  proof cases
    case 2
    then show ?thesis using pos [of x] assms(1) by simp
  next
    case 3
    then show ?thesis using pos [of "- x"] assms(1) by (simp add: dbl_def round_sig_neg)
  qed (use assms(2) in simp)
qed

lemma fp_of_rat_bounds:
  assumes "\<bar>x\<bar> \<le> of_int k" "0 \<le> k" "k \<le> 9007199254740992"
  shows "fp_of_rat x = Fin (dbl x)" "\<bar>dbl x\<bar> \<le> of_int k"
proof -
  show b: "\<bar>dbl x\<bar> \<le> of_int k" by (rule dbl_bounds [OF assms])
  also have "(of_int k :: rat) \<le> of_int 9007199254740992" using assms(3) by (simp only: of_int_le_iff)
  also have "\<dots> < 2 ^ 1024" by simp
  finally show "fp_of_rat x = Fin (dbl x)" by (simp add: fp_of_rat_def Let_def not_le)
qed

lemma trunc_int_abs:
  assumes "\<bar>q\<bar> \<le> of_int k"
  shows "\<bar>trunc_int q\<bar> \<le> k"
proof -
  have "\<lfloor>\<bar>q\<bar>\<rfloor> \<le> k" using floor_mono [OF assms] by simp
  moreover have "0 \<le> \<lfloor>\<bar>q\<bar>\<rfloor>" by simp
  ultimately show ?thesis by (cases "q < 0") (simp_all add: trunc_int_def)
qed

lemma clamp_delay_range: "\<exists>q. clamp_delay d = Fin q \<and> 0 \<le> q \<and> q \<le> 1000"
  by (cases d) (auto simp: clamp_delay_def fp_le_def fp_lt_def)


lemma clamp_id: "0 \<le> q \<Longrightarrow> q \<le> 1000 \<Longrightarrow> clamp_delay (Fin q) = Fin q"
  by (auto simp: clamp_delay_def fp_le_def fp_lt_def)

lemma delay_conversions:
  assumes "0 \<le> v" "v \<le> 1000" "0 \<le> a" "a \<le> 1000"
  obtains dv da where "to_u64 (fp_mul (Fin v) (Fin 1000000)) = Some dv" "unat dv \<le> 10 ^ 9"
    "to_i64 (fp_mul (fp_sub (Fin a) (Fin v)) (Fin 1000000)) = Some da" "\<bar>da\<bar> \<le> 10 ^ 9"
proof -
  have v: "\<bar>v * 1000000\<bar> \<le> of_int 1000000000" using assms(1,2) by simp
  have nn: "0 \<le> dbl (v * 1000000)"
    using round_sig_pos [of "v * 1000000" 52] assms(1) dbl_bounds [OF v] round_sig_small [of "v * 1000000" 52]
  proof (cases "v = 0")
    case False
    then have pos: "0 < v * 1000000" using assms(1) by simp
    show ?thesis
    proof (cases "v * 1000000 < 1 / 2")
      case True
      then show ?thesis using round_sig_small [OF pos, of 52] by (simp add: dbl_def)
    next
      case False
      have "(1 :: rat) / 2 ^ 500 \<le> 1 / 2" by simp
      then have "1 / 2 ^ 500 \<le> v * 1000000" using False by linarith
      moreover have "v * 1000000 \<le> 1000000000" using assms(2) by simp
      then have "v * 1000000 \<le> 2 ^ 500" by (rule order_trans) simp
      ultimately have "in_range (v * 1000000)" by (rule in_range_500)
      then show ?thesis using round_sig_pos [of "v * 1000000" 52] by (simp add: dbl_def less_imp_le)
    qed
  qed simp
  have tv: "\<bar>trunc_int (dbl (v * 1000000))\<bar> \<le> 1000000000" by (rule trunc_int_abs) (use fp_of_rat_bounds(2) [OF v] in simp)
  have tv0: "0 \<le> trunc_int (dbl (v * 1000000))" using nn by (simp add: trunc_int_def)
  let ?dv = "word_of_int (trunc_int (dbl (v * 1000000))) :: u64"
  have dv: "to_u64 (fp_mul (Fin v) (Fin 1000000)) = Some ?dv"
    using fp_of_rat_bounds(1) [OF v] tv tv0 by (simp add: fp_mul_def to_u64_def Let_def)
  have "unat ?dv = nat (trunc_int (dbl (v * 1000000)))"
    using tv tv0 by (simp add: unat_eq_nat_uint uint_word_of_int_eq take_bit_int_eq_self)
  then have ub: "unat ?dv \<le> 10 ^ 9" using tv by simp
  have d: "\<bar>a - v\<bar> \<le> of_int 1000" using assms by (simp add: abs_le_iff)
  have s: "fp_sub (Fin a) (Fin v) = Fin (dbl (a - v))"
    using fp_of_rat_bounds(1) [OF d] by (simp add: fp_sub_def fp_add_def fp_neg_def)
  have m: "\<bar>dbl (a - v) * 1000000\<bar> \<le> of_int 1000000000" using fp_of_rat_bounds(2) [OF d] by (simp add: abs_mult)
  have td: "\<bar>trunc_int (dbl (dbl (a - v) * 1000000))\<bar> \<le> 1000000000"
    by (rule trunc_int_abs) (use fp_of_rat_bounds(2) [OF m] in simp)
  have da: "to_i64 (fp_mul (fp_sub (Fin a) (Fin v)) (Fin 1000000)) = Some (trunc_int (dbl (dbl (a - v) * 1000000)))"
    unfolding s using fp_of_rat_bounds(1) [OF m] td by (auto simp: fp_mul_def to_i64_def Let_def)
  show thesis by (rule that [OF dv ub da]) (use td in simp)
qed

text \<open>C22 - No delay setting can derail the schedule: whatever the two delay strings hold, not-a-number,
  infinite, negative or huge, the clamped delays convert, the video latency grows by at most a second and
  the audio offset moves by at most a second, each exactly by the whole milliseconds asked for.\<close>

theorem delay_schedule:
  assumes "sc_latency_ns sc \<noteq> 0" "\<bar>sc_av_offset_ns sc\<bar> < 2 ^ 62"
  shows "\<exists>dv da sc'. apply_delay True (clamp_delay v) (clamp_delay a) sc = Some sc' \<and>
    sc_latency_ns sc' = sc_latency_ns sc + dv \<and> unat dv \<le> 10 ^ 9 \<and>
    sc_av_offset_ns sc' = sc_av_offset_ns sc + da \<and> \<bar>da\<bar> \<le> 10 ^ 9 \<and>
    (\<forall>m n. m \<le> 1000 \<longrightarrow> n \<le> 1000 \<longrightarrow> v = Fin (of_nat m) \<longrightarrow> a = Fin (of_nat n) \<longrightarrow>
       unat dv = m * 10 ^ 6 \<and> da = (int n - int m) * 10 ^ 6)"
proof -
  obtain qv qa where c: "clamp_delay v = Fin qv" "0 \<le> qv" "qv \<le> 1000" "clamp_delay a = Fin qa" "0 \<le> qa" "qa \<le> 1000"
    using clamp_delay_range [of v] clamp_delay_range [of a] by blast
  obtain dv da where d: "to_u64 (fp_mul (Fin qv) (Fin 1000000)) = Some dv" "unat dv \<le> 10 ^ 9"
    "to_i64 (fp_mul (fp_sub (Fin qa) (Fin qv)) (Fin 1000000)) = Some da" "\<bar>da\<bar> \<le> 10 ^ 9"
    by (rule delay_conversions [OF c(2,3,5,6)]) (rule that)
  have "- (2 ^ 63) \<le> sc_av_offset_ns sc + da \<and> sc_av_offset_ns sc + da < 2 ^ 63"
    using assms(2) d(4) by (simp add: abs_less_iff abs_le_iff)
  then have ap: "apply_delay True (clamp_delay v) (clamp_delay a) sc = Some \<lparr>sc_latency_ms = fp_add (sc_latency_ms sc) (Fin qv),
      sc_latency_ns = sc_latency_ns sc + dv, sc_av_offset_ns = sc_av_offset_ns sc + da\<rparr>"
    unfolding c(1,4) apply_delay_def using assms(1) d(1,3) by (simp add: Let_def)
  have exact: "unat dv = m * 10 ^ 6 \<and> da = (int n - int m) * 10 ^ 6"
    if mn: "m \<le> 1000" "n \<le> 1000" "v = Fin (of_nat m)" "a = Fin (of_nat n)" for m n
  proof -
    have le: "(of_nat k :: rat) \<le> 1000" if "k \<le> 1000" for k :: nat
      using that by (metis of_nat_le_iff of_nat_numeral)
    have q: "qv = of_nat m" "qa = of_nat n"
      using c(1,4) clamp_id [OF of_nat_0_le_iff le [OF mn(1)]] clamp_id [OF of_nat_0_le_iff le [OF mn(2)]] mn(3,4) by simp_all
    have "fp_mul (Fin qv) (Fin 1000000) = fp_of_rat (of_int (int m * 1000000))" by (simp add: q fp_mul_def)
    also have "\<dots> = Fin (of_int (int m * 1000000))" by (rule fp_of_int) (use mn(1) in simp)
    finally have "dv = word_of_int (int m * 1000000)"
      using d(1) by (auto simp only: to_u64_def Let_def fp.case trunc_int_of_int option.inject option.distinct split: if_splits)
    also have "word_of_int (int m * 1000000) = (of_nat (m * 1000000) :: u64)" by simp
    finally have dv: "dv = of_nat (m * 1000000)" .
    have "m * 1000000 < 2 ^ 64" using mn(1) by simp
    then have "unat dv = m * 1000000" unfolding dv by (rule unat_small)
    then have "unat dv = m * 10 ^ 6" by simp
    have "fp_sub (Fin qa) (Fin qv) = fp_of_rat (of_int (int n - int m))" by (simp add: q fp_sub_def fp_add_def fp_neg_def)
    also have "\<dots> = Fin (of_int (int n - int m))" by (rule fp_of_int) (use mn(1,2) in simp)
    finally have s: "fp_sub (Fin qa) (Fin qv) = Fin (of_int (int n - int m))" .
    have "fp_mul (Fin (of_int (int n - int m))) (Fin 1000000) = fp_of_rat (of_int ((int n - int m) * 1000000))" by (simp add: fp_mul_def)
    also have "\<dots> = Fin (of_int ((int n - int m) * 1000000))" by (rule fp_of_int) (use mn(1,2) in \<open>simp add: abs_mult\<close>)
    finally have "da = (int n - int m) * 1000000"
      using d(3) unfolding s by (auto simp only: to_i64_def Let_def fp.case trunc_int_of_int option.inject option.distinct split: if_splits)
    then show ?thesis using \<open>unat dv = m * 10 ^ 6\<close> by simp
  qed
  have "\<forall>m n. m \<le> 1000 \<longrightarrow> n \<le> 1000 \<longrightarrow> v = Fin (of_nat m) \<longrightarrow> a = Fin (of_nat n) \<longrightarrow>
       unat dv = m * 10 ^ 6 \<and> da = (int n - int m) * 10 ^ 6"
    using exact by blast
  then show ?thesis using ap d(2,4)
    by (intro exI [of _ dv] exI [of _ da] exI [of _ "\<lparr>sc_latency_ms = fp_add (sc_latency_ms sc) (Fin qv),
      sc_latency_ns = sc_latency_ns sc + dv, sc_av_offset_ns = sc_av_offset_ns sc + da\<rparr>"] conjI) (assumption | simp)+
qed


theorem delay_schedule_witness:
  "\<exists>dv da sc'. apply_delay True (clamp_delay NaN) (clamp_delay (Fin 40)) \<lparr>sc_latency_ms = Fin 105, sc_latency_ns = 105000000, sc_av_offset_ns = -1\<rparr> = Some sc' \<and>
    sc_latency_ns sc' = 105000000 + dv \<and> unat dv \<le> 10 ^ 9 \<and> sc_av_offset_ns sc' = -1 + da \<and> \<bar>da\<bar> \<le> 10 ^ 9"
  using delay_schedule [of "\<lparr>sc_latency_ms = Fin 105, sc_latency_ns = 105000000, sc_av_offset_ns = -1\<rparr>" NaN "Fin 40"] by auto

definition demo_env :: environ where
  "demo_env = [''SPARK_RX_AUDIO_MCAST'' \<mapsto> ''239.1.1.2'', ''SPARK_TX_AUDIO_MCAST'' \<mapsto> ''239.1.1.3'', ''SPARK_FRC'' \<mapsto> ''0'',
     ''SPARK_LATENCY_MS'' \<mapsto> ''100'', ''SPARK_IN_FPS'' \<mapsto> ''50'']"

lemma demo_lookup:
  "getenv_or demo_env ''SPARK_RX_AUDIO_MCAST'' d = ''239.1.1.2''" "getenv_or demo_env ''SPARK_TX_AUDIO_MCAST'' d = ''239.1.1.3''"
  "getenv_or demo_env ''SPARK_FRC'' d = ''0''" "getenv_or demo_env ''SPARK_LATENCY_MS'' d = ''100''"
  "getenv_or demo_env ''SPARK_IN_FPS'' d = ''50''" "getenv_or demo_env ''SPARK_AV_OFFSET_MS'' d = d"
  "getenv_or demo_env ''SPARK_FILTERS'' d = d" "getenv_or demo_env ''SPARK_TX_FILL'' d = d"
  "getenv_or demo_env ''SPARK_DELAY_VIDEO_MS'' d = d" "getenv_or demo_env ''SPARK_DELAY_AUDIO_MS'' d = d"
  by (simp_all add: getenv_or_def demo_env_def)

lemma demo_numbers:
  "atof ''100'' = Fin 100" "atof ''50'' = Fin 50" "atof ''0'' = Fin 0" "atof ''1.0'' = Fin 1"
  by (simp_all add: atof_def c_num_eval fp_of_numeral fp_of_nat [of 1, simplified])

lemma demo_settings:
  "\<exists>s. read_settings demo_env = Some s \<and> ps_with_frc s = False \<and> ps_audio s \<and> ps_latency_ns s = 100000000 \<and>
    ps_latency_ms s = Fin 100 \<and> ps_av_offset_ns s = 0 \<and> ps_in_fps s = Fin 50 \<and> ps_base_fps s = Fin 50 \<and> ps_tx_fill s = Fin 1 \<and>
    ps_rx_a_mcast s = ''239.1.1.2'' \<and> ps_rx_a_port s \<noteq> 0"
proof -
  have "fp_mul (Fin 100) (Fin 1000000) = Fin 100000000" "fp_mul (Fin 0) (Fin 1000000) = Fin 0"
    by (simp_all add: fp_mul_def fp_of_numeral)
  then have "latency_of (Fin 100) = Some 100000000" "to_i64 (fp_mul (Fin 0) (Fin 1000000)) = Some 0"
    by (simp_all add: latency_of_def fp_lt_def to_u64_def to_i64_def trunc_int_def)
  then show ?thesis
    by (simp add: read_settings_def Let_def demo_lookup demo_numbers parse_rate_def fp_lt_def audio_enabled_def port_or_pos)
qed


lemma demo_compose: "\<exists>p. compose demo_env = Some p \<and> rx_audio_on (pl_rx p)"
proof -
  obtain s where s: "read_settings demo_env = Some s" "ps_with_frc s = False" "ps_audio s" "ps_latency_ns s = 100000000"
    "ps_latency_ms s = Fin 100" "ps_av_offset_ns s = 0" "ps_in_fps s = Fin 50" "ps_base_fps s = Fin 50" "ps_tx_fill s = Fin 1"
    "ps_rx_a_mcast s = ''239.1.1.2''" "ps_rx_a_port s \<noteq> 0"
    using demo_settings by blast
  have cl: "clamp_delay (Fin 0) = Fin 0" by (simp add: clamp_delay_def fp_le_def fp_lt_def)
  have d: "fs_delay_v (read_filters demo_env False) = Fin 0" "fs_delay_a (read_filters demo_env False) = Fin 0"
    by (simp_all add: read_filters_def Let_def demo_lookup demo_numbers cl)
  have m: "fp_mul (Fin 0) (Fin 1000000) = Fin 0" "fp_sub (Fin 0) (Fin 0) = Fin 0" "fp_mul (Fin 100) (Fin 50) = Fin 5000"
    "fp_div (Fin 5000) (Fin 1000) = Fin 5" "fp_add (Fin 100) (Fin 0) = Fin 100"
    by (simp_all add: fp_mul_def fp_sub_def fp_add_def fp_neg_def fp_div_def fp_of_numeral)
  have ap: "apply_delay w (Fin 0) (Fin 0) \<lparr>sc_latency_ms = Fin 100, sc_latency_ns = 100000000, sc_av_offset_ns = 0\<rparr> =
      Some \<lparr>sc_latency_ms = Fin 100, sc_latency_ns = 100000000, sc_av_offset_ns = 0\<rparr>" for w
    by (simp add: apply_delay_def m to_u64_def to_i64_def trunc_int_def Let_def)
  have q: "queue_depth 100000000 (Fin 100) (Fin 50) = Some 9"
    by (simp add: queue_depth_def m to_u32_def trunc_int_def)
  show ?thesis
    by (simp add: compose_def s(1) s(2-9) Let_def d ap q out_rate_def frc_active_def finite_fp_def uniform_interval_def
        rx_args_def rx_audio_on_def s(10,11))
qed

theorem audio_both_or_none_witness:
  "\<exists>p. compose demo_env = Some p \<and> rx_audio_on (pl_rx p) \<and> tx_want_audio (pl_tx p)"
proof -
  obtain p where p: "compose demo_env = Some p" "rx_audio_on (pl_rx p)" using demo_compose by blast
  then show ?thesis using audio_both_or_none [OF p(1)] by blast
qed

end
