(* ===== verification/Spec2Isabelle.thy ===== *)
theory Spec2Isabelle
  imports Loopback Audio_Ops Codec_Ops Stage_Props Frc_Op Pipe_Props
begin

text \<open>
  A model of SparkVideoProcessor, a live video processor: it receives uncompressed video and audio
  as ST 2110 RTP streams, processes each frame on a GPU and sends the result as a new ST 2110 stream
  under its own media clock.  Paths below are relative to \<open>src/\<close>.

  \<^bold>\<open>The program and the theories\<close>

  The path of one frame, in the order the code has it:

  \<^item> the receive backend (\<open>engine/operators/st2110_rx/dpdk_rx_backend.cpp\<close>: theory \<open>Rx_Backend\<close>) brings up a NIC
    port, steers and joins the multicast groups (\<open>common/net_addr.hpp\<close>: \<open>Net_Addr\<close>; \<open>common/dpdk_eal.cpp\<close>:
    \<open>Dpdk_Common\<close>) and turns Ethernet frames into the UDP payloads of \<open>rx_backend.hpp\<close> (\<open>Rx_Types\<close>);
  \<^item> the receive operator (\<open>st2110_rx.cpp\<close>: \<open>Rx_Op\<close>, properties in \<open>Rx_Props\<close>) reassembles frames with the
    depacketizer of \<open>st2110_tx/rtp_st2110.cpp\<close> (\<open>Rtp_St2110\<close>) into a ring of buffers, gives each a capture time
    (\<open>common/rtp_time.hpp\<close>: \<open>Rtp_Time\<close>) and publishes them through a queue;
  \<^item> the unpack operator (\<open>codec/codec_ops.cpp\<close>: \<open>Codec_Ops\<close>) decodes the packed 10-bit samples into planes on
    the GPU, by the raw pgroup kernels (\<open>pixel_codec.cu\<close>: \<open>Pixel_Codec\<close>) or the 10:8 codec (\<open>ip10_codec.*\<close>:
    \<open>Ip10_Codec\<close>; what kernels share is in \<open>Kernel_Mem\<close>);
  \<^item> the chain of GPU stages: filters (\<open>filters/filters.cpp\<close>) and resize (\<open>resize/resize.cpp\<close>) in \<open>Gpu_Stage\<close>
    with their contract in \<open>Stage_Props\<close>, the weight files of its super-resolution nets (\<open>sr_model.cpp\<close>:
    \<open>Sr_Model\<close>), frame-rate conversion (\<open>frc/frc_grid.hpp\<close>, \<open>frc.cpp\<close>: \<open>Frc_Grid\<close>, \<open>Frc_Op\<close>);
  \<^item> the pack operator (\<open>Codec_Ops\<close> again) codes the frame into a host buffer the NIC reads;
  \<^item> the transmit operator (\<open>st2110_tx.cpp\<close>: \<open>Tx_Op\<close>, properties in \<open>Tx_Sched\<close>) schedules the frame on its media
    clock, packetizes it and hands each packet its send time to the transmit backend
    (\<open>dpdk_tx_backend.cpp\<close>: \<open>Tx_Backend\<close>); the audio operators (\<open>audio/*\<close>: \<open>Audio_St2110\<close>, \<open>Audio_Ops\<close>) receive,
    delay and bridge the audio stream to the same schedule;
  \<^item> the composition of all this from the environment (\<open>apps/st2110_pipeline.cpp\<close>: \<open>Pipeline\<close>, properties in
    \<open>Pipe_Props\<close>).

  \<open>Loopback\<close> composes the transmit operator, both backends and the receive operator, and takes the audio from the receive
  operator's bridge to the transmit operator's relay.  \<open>Spark_Prelude\<close> has the
  shared vocabulary and hints, \<open>Bounded_Queue\<close> the contract of the three bounded queues, \<open>Video_Format\<close> the
  format record.  \<open>Ieee_Double\<close>, \<open>C_Num\<close> and \<open>Fp_Arith\<close> have the floating-point arithmetic and the C library's
  number parsing that the code relies on.

  \<^bold>\<open>How the code is rendered\<close>

  Structs are records and enums datatypes, with the source's member names; a member that a library word
  forbids carries a prefix.  Integers keep their width as words; where the code widens, so does the model,
  and a conversion C++ leaves undefined is \<open>None\<close>.  A memory access outside its buffer is \<open>None\<close> or an explicit fault,
  so a theorem that yields \<open>Some\<close> is also one of memory safety.  An exception (\<open>die\<close>, a failed CUDA call) is the
  left of a sum; unpack and resize, which throw after work has been queued, return with it the state they leave.  An operator is a record of its members and each
  \<open>setup\<close>, \<open>start\<close>, \<open>compute\<close>, \<open>stop\<close> a function from state to state and output; the concurrent parts (the receive
  thread against compute calls and downstream references, buffer holds against GPU completion) are
  relations or event lists that cover every interleaving of the atomic steps, which are those the code's mutexes
  make.  A kernel launch is a list of threads, each with its stores, and its result is stated for every order of
  the stores.

  A \<open>double\<close> is the rational it denotes: \<open>dbl\<close> rounds the exact result to 53 bits, ties to even, and
  \<open>flt\<close> to 24.  The exponent search of \<open>sig_norm\<close> has fuel 1100, more than the range of double exponents (1074 below,
  1023 above).  Where infinities and NaN are reachable, from strings, \<open>Fp_Arith\<close> has them as values.
  Loops whose end is not structural are \<open>partial_function (option)\<close> or carry fuel, and the theorems state that they
  return: the emit loop of a frame, the tick loop of the conversion grid, the genlock catch-up, and the drain of
  the transmit ring, whose fuel is the code's own limit of attempts.

  \<^bold>\<open>Parameters\<close>

  What is not under \<open>src/\<close> is an argument: DPDK calls (port information, ring insertion, flow rules), the CUDA
  runtime's allocation and failure, NPP's resampler, the optical flow and the super-resolution engine,
  the clock and \<open>getenv\<close>.  The hypotheses on them are the documented behaviour they are used for (a ring
  accepts a prefix of a burst, an allocation that succeeds is fresh), and each theorem that uses one has a
  witness with a concrete instance.

  \<^bold>\<open>Interfaces\<close>

  \<open>bounded_queue\<close> is the contract of the frame queue, the audio bridge and the audio queue, interpreted on each;
  \<open>gpu_stage_contract\<close> that of a stage between unpack and pack, interpreted on the filter stages and on resize.  Their
  theorems, that a history of calls is first-in first-out and that a frame handed on is not overwritten while in
  flight, are proved once inside the locale.

  \<^bold>\<open>What is shown\<close>

  \<^item> \<^bold>\<open>Wire format.\<close> A frame is tiled by its packets exactly once, its packets carry the framing the standard asks
    for, any arrival order restores it, and parsing never leaves a buffer.
  \<^item> \<^bold>\<open>End to end.\<close> A frame through the transmit operator, both backends and the receive operator arrives
    unchanged; UDP payloads pass the two backends unchanged; the receive operator neither corrupts a published
    frame nor loses count of one, and its loss counter is exact for packets in order.
  \<^item> \<^bold>\<open>Time.\<close> RTP stamps convert to and from capture times within a tick; the fixed-latency and genlock
    schedules send within their bands and never starve; audio is sent and stamped at its capture time plus the video
    latency, to within a tick; capture times are sane whatever the stamps.
  \<^item> \<^bold>\<open>GPU path.\<close> Both kernels of the 10:8 codec and both raw kernels equal their reference in every
    interleaving, with the round trips; buffers a queued kernel reads are held; packing and the stages never
    overwrite a frame in use; the resize stage stops exactly where a call it makes for the frame fails, and then
    leaves every other frame as it was.
  \<^item> \<^bold>\<open>Frame rate.\<close> The uniform grid's cadence and phases under double rounding, and the timeline of up-conversion.
  \<^item> \<^bold>\<open>Configuration.\<close> The weight-file parser accepts exactly well-formed files; the composition announces the
    right burst sink when the chain has a scale stage, bounds the delay it adds, and sets audio up whole or not at
    all; transmit bring-up with audio fails, where it succeeds without, in exactly the named cases.

  Lemmas that are no properties record behaviour that departs from intent or documentation, such as
  \<open>burst_sink_missed\<close>, \<open>frc_restart_freed\<close>, \<open>pack_restart_unstaged\<close>, \<open>throw_leaves_read_unheld\<close>,
  \<open>sr_undocumented_accepted\<close> and \<open>parse_udp_trusts_length\<close>.

  \<^bold>\<open>Not modelled\<close>

  Log output and its rate limits; the filter, warp and super-resolution kernels, whose floating-point
  contraction the compiler decides, and the generated weight tables (\<open>resize/sr_weights_data.cpp\<close>); the glue to the
  optical-flow library; smoke tests, demos and the software sender; scripts, the web panel and the protocol
  file.  The control plane, that is the daemon (\<open>control/daemon.cpp\<close>), which supervises the engine as a child process, and
  the NMOS node (\<open>control/nmos/spark_node.cpp\<close>), written against a third-party node library, is outside the media
  path these theories cover; what it passes to the engine is the environment that \<open>Pipeline\<close> reads.
\<close>

end
